(* ===== verification/Prelude.thy ===== *)
theory Prelude
  imports Main "HOL-Library.Char_ord" "HOL-Library.List_Lexorder" "HOL-Library.Sublist"
begin

text \<open>
  The shared vocabulary of the development: the faults a C++ expression can end in and the
  sum type that carries them, bytes and the classification functions of \<^verbatim>\<open><cctype>\<close> (in the
  "C" locale), the searches of \<^verbatim>\<open>std::string\<close>, and the decimal conversions of the standard
  library.
\<close>

named_theorems wsrv_chars \<open>classification of bytes\<close>
named_theorems wsrv_dict \<open>laws of the dictionary operations\<close>
named_theorems wsrv_rewrites \<open>definitions unfolded by the component proofs\<close>

section \<open>Faults and results\<close>

text \<open>
  \<^verbatim>\<open>Undefined\<close> is undefined behaviour (an out-of-bounds read, an empty \<^verbatim>\<open>back()\<close>);
  \<^verbatim>\<open>Aborted\<close> a failed \<^verbatim>\<open>assert\<close>; the other constructors are the exceptions the code throws
  or lets through.
\<close>

datatype fault =
    Undefined
  | Aborted
  | Invalid_argument
  | Out_of_range
  | Runtime_error string

type_synonym 'a result = "fault + 'a"

definition rbind :: "'a result \<Rightarrow> ('a \<Rightarrow> 'b result) \<Rightarrow> 'b result" where
  "rbind r k = (case r of Inl e \<Rightarrow> Inl e | Inr x \<Rightarrow> k x)"

definition rmap :: "('a \<Rightarrow> 'b) \<Rightarrow> 'a result \<Rightarrow> 'b result" where
  "rmap f r = (case r of Inl e \<Rightarrow> Inl e | Inr x \<Rightarrow> Inr (f x))"

lemma rbind_simps [simp]: "rbind (Inl e) k = Inl e" "rbind (Inr x) k = k x"
  by (simp_all add: rbind_def)

lemma rmap_simps [simp]: "rmap f (Inl e) = Inl e" "rmap f (Inr x) = Inr (f x)"
  by (simp_all add: rmap_def)

lemma rbind_Inr_iff: "rbind r k = Inr y \<longleftrightarrow> (\<exists>x. r = Inr x \<and> k x = Inr y)"
  by (cases r) auto

lemma rmap_Inr_iff: "rmap f r = Inr y \<longleftrightarrow> (\<exists>x. r = Inr x \<and> y = f x)"
  by (cases r) auto

text \<open>Sequencing over a list: the loop stops at the first fault.\<close>

fun rmapM :: "('a \<Rightarrow> 'b result) \<Rightarrow> 'a list \<Rightarrow> 'b list result" where
  "rmapM f [] = Inr []"
| "rmapM f (x # xs) = rbind (f x) (\<lambda>y. rmap (\<lambda>ys. y # ys) (rmapM f xs))"

lemma rmapM_Inr: "(\<And>x. x \<in> set xs \<Longrightarrow> f x = Inr (g x)) \<Longrightarrow> rmapM f xs = Inr (map g xs)"
  by (induction xs) auto

section \<open>Bytes\<close>

abbreviation byte :: "char \<Rightarrow> nat" where
  "byte c \<equiv> of_char c"

definition NUL :: char where "NUL = char_of (0::nat)"
definition TAB :: char where "TAB = char_of (9::nat)"
definition LF :: char where "LF = char_of (10::nat)"
definition VT :: char where "VT = char_of (11::nat)"
definition FF :: char where "FF = char_of (12::nat)"
definition CR :: char where "CR = char_of (13::nat)"

text \<open>\<^verbatim>\<open>(char) EOF\<close>: what a read at the end of a stream leaves in a \<^verbatim>\<open>char\<close>.\<close>

definition EOF_CHAR :: char where "EOF_CHAR = char_of (255::nat)"

text \<open>Back slash, double quote and single quote, which string literals here do not hold.\<close>

definition BSL :: char where "BSL = char_of (92::nat)"
definition DQ :: char where "DQ = char_of (34::nat)"
definition SQ :: char where "SQ = char_of (39::nat)"

definition crlf :: string where "crlf = [CR, LF]"

lemma byte_controls [simp]:
  "byte NUL = 0" "byte TAB = 9" "byte LF = 10" "byte VT = 11" "byte FF = 12" "byte CR = 13"
  "byte EOF_CHAR = 255" "byte BSL = 92" "byte DQ = 34" "byte SQ = 39"
  by (simp_all add: NUL_def TAB_def LF_def VT_def FF_def CR_def EOF_CHAR_def
      BSL_def DQ_def SQ_def)

lemma byte_less [simp]: "byte c < 256"
  using of_char_mod_256 [of c, where 'a = nat] by (metis mod_less_divisor zero_less_numeral)

lemma char_eq_byte: "c = d \<longleftrightarrow> byte c = byte d"
  by simp

definition isdigit :: "char \<Rightarrow> bool" where
  "isdigit c \<longleftrightarrow> 48 \<le> byte c \<and> byte c \<le> 57"

definition isupper :: "char \<Rightarrow> bool" where
  "isupper c \<longleftrightarrow> 65 \<le> byte c \<and> byte c \<le> 90"

definition islower :: "char \<Rightarrow> bool" where
  "islower c \<longleftrightarrow> 97 \<le> byte c \<and> byte c \<le> 122"

definition isalpha :: "char \<Rightarrow> bool" where
  "isalpha c \<longleftrightarrow> isupper c \<or> islower c"

definition isalnum :: "char \<Rightarrow> bool" where
  "isalnum c \<longleftrightarrow> isalpha c \<or> isdigit c"

definition isspace :: "char \<Rightarrow> bool" where
  "isspace c \<longleftrightarrow> byte c = 32 \<or> (9 \<le> byte c \<and> byte c \<le> 13)"

definition tolower_char :: "char \<Rightarrow> char" where
  "tolower_char c = (if isupper c then char_of (byte c + 32) else c)"

definition toupper_char :: "char \<Rightarrow> char" where
  "toupper_char c = (if islower c then char_of (byte c - 32) else c)"

lemmas char_class_defs = isdigit_def isupper_def islower_def isalpha_def isalnum_def isspace_def

declare char_class_defs [wsrv_chars] tolower_char_def [wsrv_chars] toupper_char_def [wsrv_chars]

section \<open>Searching in strings\<close>

text \<open>
  \<^verbatim>\<open>std::string::find\<close> of a string from a position: the first position at or after it where
  the needle is a prefix of the rest; \<^verbatim>\<open>npos\<close> is \<^const>\<open>None\<close>.  \<^verbatim>\<open>find_aux\<close> scans the rest of
  the subject, \<^verbatim>\<open>i\<close> its position.
\<close>

fun find_aux :: "string \<Rightarrow> nat \<Rightarrow> string \<Rightarrow> nat option" where
  "find_aux needle i [] = (if needle = [] then Some i else None)"
| "find_aux needle i (c # cs) =
     (if prefix needle (c # cs) then Some i else find_aux needle (Suc i) cs)"

definition find_from :: "string \<Rightarrow> string \<Rightarrow> nat \<Rightarrow> nat option" where
  "find_from s needle pos = (if pos \<le> length s then find_aux needle pos (drop pos s) else None)"

definition find_char :: "string \<Rightarrow> char \<Rightarrow> nat option" where
  "find_char s c = find_from s [c] 0"

text \<open>\<^verbatim>\<open>find_last_of\<close> of one character.\<close>

fun find_last_char :: "string \<Rightarrow> char \<Rightarrow> nat option" where
  "find_last_char [] c = None"
| "find_last_char (x # xs) c =
     (case find_last_char xs c of
        Some i \<Rightarrow> Some (Suc i)
      | None \<Rightarrow> if x = c then Some 0 else None)"

text \<open>\<^verbatim>\<open>substr(pos, n)\<close> for a position within the string.\<close>

definition substr :: "string \<Rightarrow> nat \<Rightarrow> nat \<Rightarrow> string" where
  "substr s pos n = take n (drop pos s)"

text \<open>\<^verbatim>\<open>std::string(s.c_str())\<close>: the bytes before the first NUL.\<close>

definition c_str :: "string \<Rightarrow> string" where
  "c_str s = takeWhile (\<lambda>c. c \<noteq> NUL) s"

lemma find_aux_Some:
  "find_aux needle i s = Some j \<Longrightarrow>
     i \<le> j \<and> j \<le> i + length s \<and> prefix needle (drop (j - i) s) \<and>
     (\<forall>k < j - i. \<not> prefix needle (drop k s))"
proof (induction needle i s rule: find_aux.induct)
  case (2 needle i c cs)
  show ?case
  proof (cases "prefix needle (c # cs)")
    case False
    with "2" have IH: "Suc i \<le> j" "j \<le> Suc i + length cs"
      "prefix needle (drop (j - Suc i) cs)" "\<forall>k < j - Suc i. \<not> prefix needle (drop k cs)"
      by auto
    have "\<not> prefix needle (drop k (c # cs))" if "k < j - i" for k
      using that False IH(4) by (cases k) auto
    moreover have "j - i = Suc (j - Suc i)" using IH(1) by simp
    ultimately show ?thesis using IH by auto
  qed (use "2.prems" in auto)
qed (auto split: if_splits)

lemma find_aux_bounds: "find_aux needle i s = Some j \<Longrightarrow> i \<le> j \<and> j \<le> i + length s"
  using find_aux_Some by blast

lemma find_aux_None:
  "find_aux needle i s = None \<Longrightarrow> k \<le> length s \<Longrightarrow> \<not> prefix needle (drop k s)"
proof (induction needle i s arbitrary: k rule: find_aux.induct)
  case (2 needle i c cs)
  then show ?case by (cases k) (auto split: if_splits)
qed (auto split: if_splits)

lemma find_aux_is_Some:
  "prefix needle (drop k s) \<Longrightarrow> k \<le> length s \<Longrightarrow> \<exists>j. find_aux needle i s = Some j \<and> j \<le> i + k"
proof -
  assume p: "prefix needle (drop k s)" and k: "k \<le> length s"
  then obtain j where j: "find_aux needle i s = Some j"
    using find_aux_None [of needle i s k] by (cases "find_aux needle i s") auto
  from find_aux_Some [OF j] have "\<forall>m < j - i. \<not> prefix needle (drop m s)" by simp
  with p have "j - i \<le> k" by (meson not_le)
  with j show ?thesis by auto
qed

lemma find_from_bounds: "find_from s needle pos = Some j \<Longrightarrow> pos \<le> j \<and> j \<le> length s"
  by (auto simp: find_from_def dest!: find_aux_bounds split: if_splits)

lemma find_aux_char:
  "find_aux [c] i s = (if c \<in> set s then Some (i + length (takeWhile (\<lambda>x. x \<noteq> c) s)) else None)"
  by (induction s arbitrary: i) auto

lemma find_char_eq:
  "find_char s c = (if c \<in> set s then Some (length (takeWhile (\<lambda>x. x \<noteq> c) s)) else None)"
  by (simp add: find_char_def find_from_def find_aux_char)

lemma find_char_append: "c \<notin> set s \<Longrightarrow> find_char (s @ c # t) c = Some (length s)"
  by (simp add: find_char_eq takeWhile_append)

lemma c_str_ident [simp]: "NUL \<notin> set s \<Longrightarrow> c_str s = s"
  by (auto simp: c_str_def takeWhile_eq_all_conv)

section \<open>Decimal numbers\<close>

definition digit_char :: "nat \<Rightarrow> char" where
  "digit_char d = char_of (48 + d)"

fun nat_digits :: "nat \<Rightarrow> string" where
  "nat_digits n = (if n < 10 then [digit_char n] else nat_digits (n div 10) @ [digit_char (n mod 10)])"

declare nat_digits.simps [simp del]

text \<open>\<^verbatim>\<open>std::to_string\<close> and the stream output of integers.\<close>

definition int_str :: "int \<Rightarrow> string" where
  "int_str n = (if n < 0 then CHR ''-'' # nat_digits (nat (- n)) else nat_digits (nat n))"

definition digits_value :: "string \<Rightarrow> nat" where
  "digits_value ds = foldl (\<lambda>a c. 10 * a + (byte c - 48)) 0 ds"

text \<open>
  \<^verbatim>\<open>std::stoi\<close>: leading white space, an optional sign, then the longest run of digits; no digit is
  \<^verbatim>\<open>invalid_argument\<close>, a value outside a 32-bit \<^verbatim>\<open>int\<close> is \<^verbatim>\<open>out_of_range\<close>.
\<close>

definition strip_sign :: "string \<Rightarrow> int \<times> string" where
  "strip_sign s = (case s of
      c # cs \<Rightarrow> if c = CHR ''-'' then (- 1, cs) else if c = CHR ''+'' then (1, cs) else (1, s)
    | [] \<Rightarrow> (1, s))"

definition stoi :: "string \<Rightarrow> int result" where
  "stoi s =
     (let (sg, t) = strip_sign (dropWhile isspace s);
          ds = takeWhile isdigit t;
          v = sg * int (digits_value ds)
      in if ds = [] then Inl Invalid_argument
         else if v < - (2 ^ 31) \<or> 2 ^ 31 \<le> v then Inl Out_of_range
         else Inr v)"

lemma byte_digit_char [simp]: "d < 10 \<Longrightarrow> byte (digit_char d) = 48 + d"
  by (simp add: digit_char_def)

lemma nat_digits_isdigit: "c \<in> set (nat_digits n) \<Longrightarrow> isdigit c"
proof (induction n rule: nat_digits.induct)
  case (1 n)
  then show ?case
    by (cases "n < 10") (auto simp: nat_digits.simps [of n] isdigit_def)
qed

lemma nat_digits_nonempty [simp]: "nat_digits n \<noteq> []"
  by (simp add: nat_digits.simps [of n])

lemma digits_value_snoc: "digits_value (ds @ [c]) = 10 * digits_value ds + (byte c - 48)"
  by (simp add: digits_value_def)

lemma digits_value_nat_digits [simp]: "digits_value (nat_digits n) = n"
proof (induction n rule: nat_digits.induct)
  case (1 n)
  then show ?case
    by (cases "n < 10")
      (auto simp: nat_digits.simps [of n] digits_value_snoc, simp add: digits_value_def)
qed

lemma stoi_nat_digits: "n < 2 ^ 31 \<Longrightarrow> stoi (nat_digits n) = Inr (int n)"
proof -
  assume n: "n < 2 ^ 31"
  have all: "\<forall>c \<in> set (nat_digits n). isdigit c" using nat_digits_isdigit by blast
  then have tw: "takeWhile isdigit (nat_digits n) = nat_digits n"
    by (simp add: takeWhile_eq_all_conv)
  obtain c cs where cs: "nat_digits n = c # cs" by (cases "nat_digits n") auto
  with all have c: "isdigit c" by simp
  then have "\<not> isspace c" "c \<noteq> CHR ''-''" "c \<noteq> CHR ''+''"
    by (auto simp: isdigit_def isspace_def)
  then have "strip_sign (dropWhile isspace (nat_digits n)) = (1, nat_digits n)"
    by (simp add: cs strip_sign_def)
  then show ?thesis using n by (simp add: stoi_def tw Let_def del: takeWhile_eq_all_conv)
qed

end
