(* ===== verification/Util.thy ===== *)
theory Util
  imports Prelude
begin

text \<open>
  The string helpers of \<^verbatim>\<open>src/util.cpp\<close> and \<^verbatim>\<open>src/detail/util.hpp\<close>: splitting, joining,
  trimming, prefix and suffix tests, replacement, case conversion, tokenising with a callback,
  and the percent encoding that the URL, form and client code rest on.
\<close>

section \<open>Splitting and joining\<close>

text \<open>
  \<^verbatim>\<open>strchr(delimeters, c) != nullptr\<close>: the terminating NUL is a match too, so a NUL byte of the
  subject is always a delimiter.
\<close>

definition strchr :: "string \<Rightarrow> char \<Rightarrow> bool" where
  "strchr delims c \<longleftrightarrow> c = NUL \<or> c \<in> set delims"

fun split_loop :: "string \<Rightarrow> string list \<Rightarrow> string \<Rightarrow> string \<Rightarrow> string list" where
  "split_loop delims tokens token [] = (if token \<noteq> [] then tokens @ [token] else tokens)"
| "split_loop delims tokens token (c # cs) =
     (if \<not> strchr delims c then split_loop delims tokens (token @ [c]) cs
      else split_loop delims (if token \<noteq> [] then tokens @ [token] else tokens) [] cs)"

definition split :: "string \<Rightarrow> string \<Rightarrow> string list" where
  "split s delims = split_loop delims [] [] s"

fun join :: "string list \<Rightarrow> string \<Rightarrow> string" where
  "join [] del = []"
| "join [p] del = p"
| "join (p # q # ps) del = p @ del @ join (q # ps) del"

section \<open>Trimming\<close>

definition default_delim :: string where
  "default_delim = [CHR '' '', TAB, LF, CR]"

fun find_last_not_of :: "string \<Rightarrow> string \<Rightarrow> nat option" where
  "find_last_not_of [] delim = None"
| "find_last_not_of (c # cs) delim =
     (case find_last_not_of cs delim of
        Some i \<Rightarrow> Some (Suc i)
      | None \<Rightarrow> if c \<notin> set delim then Some 0 else None)"

fun find_first_not_of :: "string \<Rightarrow> string \<Rightarrow> nat option" where
  "find_first_not_of [] delim = None"
| "find_first_not_of (c # cs) delim =
     (if c \<notin> set delim then Some 0 else map_option Suc (find_first_not_of cs delim))"

definition rtrimCopy :: "string \<Rightarrow> string \<Rightarrow> string" where
  "rtrimCopy str delim =
     (case find_last_not_of str delim of Some e \<Rightarrow> take (e + 1) str | None \<Rightarrow> str)"

definition rtrim :: "string \<Rightarrow> string \<Rightarrow> string" where
  "rtrim str delim =
     (case find_last_not_of str delim of Some e \<Rightarrow> take (e + 1) str | None \<Rightarrow> str)"

definition ltrim :: "string \<Rightarrow> string \<Rightarrow> string" where
  "ltrim str delim =
     (case find_first_not_of str delim of Some b \<Rightarrow> drop b str | None \<Rightarrow> str)"

definition ltrimCopy :: "string \<Rightarrow> string \<Rightarrow> string" where
  "ltrimCopy str delim =
     (case find_first_not_of str delim of Some b \<Rightarrow> drop b str | None \<Rightarrow> str)"

definition trimCopy :: "string \<Rightarrow> string \<Rightarrow> string" where
  "trimCopy str delim = ltrimCopy (rtrimCopy str delim) delim"

definition trim :: "string \<Rightarrow> string \<Rightarrow> string" where
  "trim str delim = rtrim (ltrim str delim) delim"

section \<open>Prefixes, suffixes, case\<close>

definition startsWith :: "string \<Rightarrow> string \<Rightarrow> bool" where
  "startsWith src pre =
     (if length pre \<le> length src then take (length pre) src = pre else False)"

definition endsWith :: "string \<Rightarrow> string \<Rightarrow> bool" where
  "endsWith src suf =
     (if length suf \<le> length src
      then substr src (length src - length suf) (length suf) = suf else False)"

definition toUpperCopy :: "string \<Rightarrow> string" where
  "toUpperCopy source = map toupper_char source"

definition toUpper :: "string \<Rightarrow> string" where
  "toUpper source = map toupper_char source"

definition toLowerCopy :: "string \<Rightarrow> string" where
  "toLowerCopy source = map tolower_char source"

definition toLower :: "string \<Rightarrow> string" where
  "toLower source = map tolower_char source"

section \<open>Replacement\<close>

text \<open>
  Both loops run for ever on an empty search string (\<^verbatim>\<open>find\<close> keeps succeeding), so they are
  partial: \<^const>\<open>None\<close> is not returning.
\<close>

partial_function (option) replaceAll_loop ::
    "string \<Rightarrow> string \<Rightarrow> string \<Rightarrow> nat \<Rightarrow> string option" where
  "replaceAll_loop search repl subject pos =
     (case find_from subject search pos of
        None \<Rightarrow> Some subject
      | Some p \<Rightarrow> replaceAll_loop search repl
                    (take p subject @ repl @ drop (p + length search) subject) (p + length repl))"

definition replaceAll :: "string \<Rightarrow> string \<Rightarrow> string \<Rightarrow> string option" where
  "replaceAll subject search repl = replaceAll_loop search repl subject 0"

partial_function (option) replaceAllCopy_loop ::
    "string \<Rightarrow> string \<Rightarrow> string \<Rightarrow> string \<Rightarrow> nat \<Rightarrow> nat \<Rightarrow> string option" where
  "replaceAllCopy_loop search repl subject res pos start_pos =
     (case find_from subject search pos of
        None \<Rightarrow> Some res
      | Some p \<Rightarrow> replaceAllCopy_loop search repl subject
                    (res @ substr subject start_pos (p - start_pos) @ repl)
                    (p + length search) (p + length search))"

definition replaceAllCopy :: "string \<Rightarrow> string \<Rightarrow> string \<Rightarrow> string option" where
  "replaceAllCopy subject search repl = replaceAllCopy_loop search repl subject [] 0 0"

section \<open>Tokenising with a callback\<close>

text \<open>
  The callback takes the state it closes over and returns whether to go on.  A delimiter longer
  than one character would leave \<^verbatim>\<open>begin\<close> inside it; \<^verbatim>\<open>substr\<close> beyond the end of the string
  throws \<^verbatim>\<open>out_of_range\<close>.
\<close>

function tokenize_loop ::
    "string \<Rightarrow> string \<Rightarrow> ('s \<Rightarrow> string \<Rightarrow> bool \<times> 's) \<Rightarrow> nat \<Rightarrow> 's \<Rightarrow> (bool \<times> 's) result" where
  "tokenize_loop s delim cb begin st =
     (case find_from s delim begin of
        Some e \<Rightarrow>
          (let (go, st') = cb st (substr s begin (e - begin))
           in if \<not> go then Inr (False, st') else tokenize_loop s delim cb (e + 1) st')
      | None \<Rightarrow>
          if length s < begin then Inl Out_of_range else Inr (cb st (drop begin s)))"
  by pat_completeness auto
termination
  by (relation "measure (\<lambda>(s, delim, cb, begin, st). Suc (length s) - begin)")
    (auto dest!: find_from_bounds)

declare tokenize_loop.simps [simp del]

definition tokenize :: "string \<Rightarrow> string \<Rightarrow> ('s \<Rightarrow> string \<Rightarrow> bool \<times> 's) \<Rightarrow> 's \<Rightarrow> (bool \<times> 's) result" where
  "tokenize s delim cb st = tokenize_loop s delim cb 0 st"

section \<open>Percent encoding\<close>

definition hex_digit :: "nat \<Rightarrow> char" where
  "hex_digit h = char_of (h + (if h \<le> 9 then 48 else 97 - 10))"

definition hexchar :: "char \<Rightarrow> char \<times> char" where
  "hexchar c = (hex_digit (byte c div 16), hex_digit (byte c mod 16))"

definition url_plain :: "char \<Rightarrow> bool" where
  "url_plain c \<longleftrightarrow> isdigit c \<or> islower c \<or> isupper c \<or>
     c = CHR ''-'' \<or> c = CHR ''_'' \<or> c = CHR ''.'' \<or> c = CHR ''!'' \<or> c = CHR ''~'' \<or>
     c = CHR ''*'' \<or> byte c = 39 \<or> c = CHR ''('' \<or> c = CHR '')''"

fun url_encode :: "string \<Rightarrow> string" where
  "url_encode [] = []"
| "url_encode (c # cs) =
     (if url_plain c then c # url_encode cs
      else if c = CHR '' '' then CHR ''+'' # url_encode cs
      else (let (d1, d2) = hexchar c in CHR ''%'' # d1 # d2 # url_encode cs))"

definition hex_decode :: "char \<Rightarrow> nat" where
  "hex_decode c =
     (let ch = byte (tolower_char c)
      in if 97 \<le> ch \<and> ch \<le> 102 then 10 + ch - 97
         else if 48 \<le> ch \<and> ch \<le> 57 then ch - 48 else 0)"

text \<open>
  The pointer loop over \<^verbatim>\<open>src.c_str()\<close>.  It ends at the first NUL; a \<^verbatim>\<open>%\<close> with fewer than two
  bytes before the end makes it read beyond the terminator.  A decoded zero byte ends the
  C string \<^verbatim>\<open>tmp\<close> and so adds nothing.
\<close>

fun url_decode :: "string \<Rightarrow> string result" where
  "url_decode [] = Inr []"
| "url_decode (c # cs) =
     (if c = NUL then Inr []
      else if c = CHR ''+'' then rmap (\<lambda>r. CHR '' '' # r) (url_decode cs)
      else if c = CHR ''%'' then
        (case cs of
           a # b # ds \<Rightarrow>
             (let v = 16 * hex_decode a + hex_decode b
              in rmap (\<lambda>r. if v = 0 then r else char_of v # r) (url_decode ds))
         | _ \<Rightarrow> Inl Undefined)
      else rmap (\<lambda>r. c # r) (url_decode cs))"


section \<open>Splitting: what the tokens are\<close>

lemma split_loop_acc: "split_loop ds ts t s = ts @ split_loop ds [] t s"
proof (induction s arbitrary: ts t)
  case (Cons c cs)
  show ?case
    using Cons.IH [of "ts @ [t]" "[]"] Cons.IH [of "[t]" "[]"] Cons.IH [of ts "[]"]
      Cons.IH [of ts "t @ [c]"]
    by simp
qed simp

lemma split_loop_token:
  "\<forall>c \<in> set u. \<not> strchr ds c \<Longrightarrow> split_loop ds ts t (u @ s) = split_loop ds ts (t @ u) s"
  by (induction u arbitrary: t) auto

lemma split_loop_parts:
  "(\<forall>c \<in> set t. \<not> strchr ds c) \<Longrightarrow> u \<in> set (split_loop ds [] t s) \<Longrightarrow>
     u \<noteq> [] \<and> (\<forall>c \<in> set u. \<not> strchr ds c)"
proof (induction s arbitrary: t)
  case (Cons c cs)
  show ?case
  proof (cases "strchr ds c")
    case True
    then have "u = t \<and> t \<noteq> [] \<or> u \<in> set (split_loop ds [] [] cs)"
      using Cons.prems split_loop_acc [of ds "[t]" "[]" cs] by (auto split: if_splits)
    with Cons.prems Cons.IH [of "[]"] show ?thesis by auto
  next
    case False
    with Cons.prems show ?thesis by (intro Cons.IH [of "t @ [c]"]) auto
  qed
qed (auto split: if_splits)

lemma split_loop_concat:
  "concat (split_loop ds [] t s) = t @ filter (\<lambda>c. \<not> strchr ds c) s"
proof (induction s arbitrary: t)
  case (Cons c cs)
  then show ?case
    using split_loop_acc [of ds "[t]" "[]" cs] by auto
qed simp

lemma split_parts: "u \<in> set (split s ds) \<Longrightarrow> u \<noteq> [] \<and> (\<forall>c \<in> set u. \<not> strchr ds c)"
  unfolding split_def by (rule split_loop_parts [of "[]"]) auto

lemma concat_split: "concat (split s ds) = filter (\<lambda>c. \<not> strchr ds c) s"
  by (simp add: split_def split_loop_concat)

lemma split_Nil [simp]: "split [] ds = []"
  by (simp add: split_def)

lemma split_token:
  "\<forall>c \<in> set u. \<not> strchr ds c \<Longrightarrow> split u ds = (if u = [] then [] else [u])"
  using split_loop_token [of u ds "[]" "[]" "[]"] by (simp add: split_def)

lemma split_token_delim:
  "\<forall>c \<in> set u. \<not> strchr ds c \<Longrightarrow> strchr ds d \<Longrightarrow>
     split (u @ d # s) ds = (if u = [] then split s ds else u # split s ds)"
  using split_loop_token [of u ds "[]" "[]" "d # s"] split_loop_acc [of ds "[u]" "[]" s]
  by (simp add: split_def)

lemma split_delim: "strchr ds d \<Longrightarrow> split (d # s) ds = split s ds"
  by (simp add: split_def)

definition good_token :: "string \<Rightarrow> string \<Rightarrow> bool" where
  "good_token ds u \<longleftrightarrow> u \<noteq> [] \<and> (\<forall>c \<in> set u. \<not> strchr ds c)"

lemma split_join:
  "\<forall>u \<in> set ts. good_token ds u \<Longrightarrow> strchr ds d \<Longrightarrow> split (join ts [d]) ds = ts"
  by (induction ts "[d]" rule: join.induct)
    (auto simp: good_token_def split_token split_token_delim)

lemma join_empty_iff: "join ts del = [] \<longleftrightarrow> (ts = [] \<or> ts = [[]] \<or> (del = [] \<and> (\<forall>t \<in> set ts. t = [])))"
  by (induction ts del rule: join.induct) auto

lemma set_join: "set (join ts del) \<subseteq> (\<Union>t \<in> set ts. set t) \<union> set del"
  by (induction ts del rule: join.induct) auto

section \<open>Trimming\<close>

lemma find_last_not_of_None: "find_last_not_of s d = None \<longleftrightarrow> set s \<subseteq> set d"
  by (induction s d rule: find_last_not_of.induct) (auto split: option.splits)

lemma find_first_not_of_None: "find_first_not_of s d = None \<longleftrightarrow> set s \<subseteq> set d"
  by (induction s d rule: find_first_not_of.induct) auto

lemma drop_find_first_not_of:
  "find_first_not_of s d = Some b \<Longrightarrow> drop b s = dropWhile (\<lambda>c. c \<in> set d) s"
  by (induction s d arbitrary: b rule: find_first_not_of.induct) (auto split: if_splits)

lemma take_find_last_not_of:
  "find_last_not_of s d = Some e \<Longrightarrow> take (Suc e) s = rev (dropWhile (\<lambda>c. c \<in> set d) (rev s))"
proof (induction s d arbitrary: e rule: find_last_not_of.induct)
  case (2 c cs d)
  show ?case
  proof (cases "find_last_not_of cs d")
    case None
    then have "\<And>x. x \<in> set (rev cs) \<Longrightarrow> x \<in> set d" by (auto simp: find_last_not_of_None)
    then have "dropWhile (\<lambda>c. c \<in> set d) (rev cs @ [c]) = dropWhile (\<lambda>c. c \<in> set d) [c]"
      by (rule dropWhile_append2)
    with None "2.prems" show ?thesis by (simp split: if_splits)
  next
    case (Some i)
    then have "\<not> set cs \<subseteq> set d" using find_last_not_of_None [of cs d] by simp
    then obtain x where "x \<in> set (rev cs)" "x \<notin> set d" by auto
    then have "dropWhile (\<lambda>c. c \<in> set d) (rev cs @ [c]) = dropWhile (\<lambda>c. c \<in> set d) (rev cs) @ [c]"
      by (simp add: dropWhile_append1)
    with Some "2.prems" "2.IH" show ?thesis by auto
  qed
qed simp

text \<open>
  A string of delimiters only is left as it is; every other string loses exactly its leading and
  trailing delimiters.
\<close>

lemma trim_eq:
  "trim s d = (if set s \<subseteq> set d then s
     else rev (dropWhile (\<lambda>c. c \<in> set d) (rev (dropWhile (\<lambda>c. c \<in> set d) s))))"
proof (cases "set s \<subseteq> set d")
  case True
  then show ?thesis
    using find_first_not_of_None [of s d] find_last_not_of_None [of s d]
    by (simp add: trim_def ltrim_def rtrim_def)
next
  case False
  then obtain b where b: "find_first_not_of s d = Some b"
    using find_first_not_of_None [of s d] by (cases "find_first_not_of s d") auto
  from False have "\<not> set (dropWhile (\<lambda>c. c \<in> set d) s) \<subseteq> set d"
    by (metis (mono_tags, lifting) dropWhile_eq_Nil_conv hd_dropWhile hd_in_set subset_iff)
  then obtain e where "find_last_not_of (dropWhile (\<lambda>c. c \<in> set d) s) d = Some e"
    using find_last_not_of_None by (metis not_None_eq)
  with b False show ?thesis
    by (simp add: trim_def ltrim_def rtrim_def drop_find_first_not_of take_find_last_not_of)
qed

lemma trim_clean:
  "s \<noteq> [] \<Longrightarrow> hd s \<notin> set d \<Longrightarrow> last s \<notin> set d \<Longrightarrow> trim s d = s"
proof -
  assume s: "s \<noteq> []" "hd s \<notin> set d" "last s \<notin> set d"
  then have 1: "dropWhile (\<lambda>c. c \<in> set d) s = s" by (cases s) auto
  have 2: "dropWhile (\<lambda>c. c \<in> set d) (rev s) = rev s"
    using s by (cases s rule: rev_cases) auto
  from s have "\<not> set s \<subseteq> set d" by (cases s) auto
  with 1 2 show ?thesis by (simp add: trim_eq)
qed

section \<open>Percent encoding is invertible\<close>

lemma byte_hex_digit: "h < 16 \<Longrightarrow> byte (hex_digit h) = (if h \<le> 9 then h + 48 else h + 87)"
  by (simp add: hex_digit_def)

lemma hex_decode_digit: "h < 16 \<Longrightarrow> hex_decode (hex_digit h) = h"
  by (simp add: hex_decode_def Let_def tolower_char_def isupper_def byte_hex_digit)

lemma hex_digit_plain: "h < 16 \<Longrightarrow> url_plain (hex_digit h)"
  by (simp add: url_plain_def isdigit_def islower_def byte_hex_digit)

lemma url_plain_special:
  "\<not> url_plain NUL" "\<not> url_plain CHR ''+''" "\<not> url_plain CHR ''%''" "\<not> url_plain CHR '' ''"
  "\<not> url_plain CHR ''&''" "\<not> url_plain CHR ''=''" "\<not> url_plain CHR ''/''"
  "\<not> url_plain CHR ''?''" "\<not> url_plain CHR ''#''" "\<not> url_plain CHR '':''"
  by (auto simp: url_plain_def isdigit_def islower_def isupper_def char_eq_byte [of NUL])

lemma url_encode_chars:
  "c \<in> set (url_encode s) \<Longrightarrow> url_plain c \<or> c = CHR ''+'' \<or> c = CHR ''%''"
proof (induction s)
  case (Cons x xs)
  have "url_plain (hex_digit (byte x div 16))" "url_plain (hex_digit (byte x mod 16))"
    using of_char_mod_256 [of x, where 'a = nat]
    by (auto intro!: hex_digit_plain simp: div_less_iff_less_mult)
  with Cons show ?case by (auto simp: hexchar_def split: if_splits)
qed simp

lemma url_decode_encode: "NUL \<notin> set s \<Longrightarrow> url_decode (url_encode s) = Inr s"
proof (induction s)
  case (Cons x xs)
  then have IH: "url_decode (url_encode xs) = Inr xs" and x: "x \<noteq> NUL" by auto
  have lt: "byte x div 16 < 16" "byte x mod 16 < 16"
    using of_char_mod_256 [of x, where 'a = nat] by (auto simp: div_less_iff_less_mult)
  have pos: "byte x \<noteq> 0" using x by (metis byte_controls(1) of_char_eq_iff)
  show ?case
  proof (cases "url_plain x")
    case True
    then have "x \<noteq> NUL" "x \<noteq> CHR ''+''" "x \<noteq> CHR ''%''" using url_plain_special by auto
    with True IH show ?thesis by simp
  next
    case False
    have "CHR ''%'' \<noteq> NUL" "CHR ''+'' \<noteq> NUL" by (auto simp: char_eq_byte [of _ NUL])
    moreover have "\<not> (byte x div 16 = 0 \<and> byte x mod 16 = 0)" using pos by presburger
    ultimately show ?thesis using False IH lt
      by (auto simp: hexchar_def hex_decode_digit Let_def)
  qed
qed simp

section \<open>Replacement terminates and replaces\<close>

fun subst_all :: "string \<Rightarrow> string \<Rightarrow> string \<Rightarrow> string" where
  "subst_all search repl [] = []"
| "subst_all search repl (c # cs) =
     (if search \<noteq> [] \<and> prefix search (c # cs)
      then repl @ subst_all search repl (drop (length search - 1) cs)
      else c # subst_all search repl cs)"

lemma find_aux_shift: "find_aux n i s = map_option (\<lambda>j. i + j) (find_aux n 0 s)"
proof (induction s arbitrary: i)
  case (Cons c cs)
  show ?case
    using Cons.IH [of "Suc i"] Cons.IH [of "Suc 0"] by (auto simp: option.map_comp comp_def)
qed simp

lemma subst_all_None: "search \<noteq> [] \<Longrightarrow> find_aux search i s = None \<Longrightarrow> subst_all search repl s = s"
  by (induction search i s rule: find_aux.induct) (auto split: if_splits)

lemma subst_all_Some:
  "search \<noteq> [] \<Longrightarrow> find_aux search 0 s = Some p \<Longrightarrow>
     subst_all search repl s = take p s @ repl @ subst_all search repl (drop (p + length search) s)"
proof (induction s arbitrary: p)
  case (Cons c cs)
  show ?case
  proof (cases "prefix search (c # cs)")
    case True
    with Cons.prems show ?thesis by (cases search) auto
  next
    case False
    with Cons.prems obtain q where "find_aux search 0 cs = Some q" "p = Suc q"
      using find_aux_shift [of search "Suc 0" cs] by auto
    with Cons False show ?thesis by simp
  qed
qed auto

lemma find_from_append:
  "find_from (out @ rest) search (length out) = map_option (\<lambda>j. length out + j) (find_aux search 0 rest)"
  using find_aux_shift [of search "length out" rest] by (simp add: find_from_def)

lemma length_drop_less:
  "p + length search \<le> length s \<Longrightarrow> search \<noteq> [] \<Longrightarrow> length (drop (p + length search) s) < length s"
  by (cases search) auto

lemma find_aux_fits: "find_aux search 0 s = Some p \<Longrightarrow> p + length search \<le> length s"
  using find_aux_Some [of search 0 s p] prefix_length_le [of search "drop p s"] by auto

lemma replaceAll_loop_spec:
  "search \<noteq> [] \<Longrightarrow>
     replaceAll_loop search repl (out @ rest) (length out) = Some (out @ subst_all search repl rest)"
proof (induction "length rest" arbitrary: out rest rule: less_induct)
  case less
  show ?case
  proof (cases "find_aux search 0 rest")
    case None
    with less.prems show ?thesis
      by (simp add: replaceAll_loop.simps [of search repl "out @ rest"] find_from_append subst_all_None)
  next
    case (Some p)
    let ?out = "out @ take p rest @ repl" and ?rest = "drop (p + length search) rest"
    from find_aux_fits [OF Some] have fits: "p + length search \<le> length rest" .
    from length_drop_less [OF this less.prems] have "length ?rest < length rest" .
    from less.hyps [OF this less.prems, of ?out]
    have "replaceAll_loop search repl (?out @ ?rest) (length ?out) = Some (?out @ subst_all search repl ?rest)" .
    moreover have "length ?out = length out + p + length repl" using fits by simp
    ultimately show ?thesis
      using Some less.prems fits
      by (simp add: replaceAll_loop.simps [of search repl "out @ rest"] find_from_append subst_all_Some
          add.assoc)
  qed
qed

lemma replaceAll_spec: "search \<noteq> [] \<Longrightarrow> replaceAll s search repl = Some (subst_all search repl s)"
  using replaceAll_loop_spec [of search repl "[]" s] by (simp add: replaceAll_def)

lemma find_from_empty: "pos \<le> length s \<Longrightarrow> find_from s [] pos = Some pos"
  by (cases "drop pos s") (auto simp: find_from_def)

lemma replaceAll_loop_empty:
  assumes "replaceAll_loop search repl s pos = Some r" and "pos \<le> length s"
  shows "search \<noteq> []"
proof -
  have "pos \<le> length s \<longrightarrow> search \<noteq> []"
  proof (rule replaceAll_loop.raw_induct
      [where P = "\<lambda>search repl s pos r. pos \<le> length s \<longrightarrow> search \<noteq> []", OF _ assms(1)], intro impI)
    fix f search repl s pos r
    assume IH: "\<And>search repl s pos r. f search repl s pos = Some r \<Longrightarrow> pos \<le> length s \<longrightarrow> search \<noteq> []"
      and eq: "(case find_from s search pos of None \<Rightarrow> Some s
         | Some p \<Rightarrow> f search repl (take p s @ repl @ drop (p + length search) s) (p + length repl)) = Some r"
      and le: "pos \<le> length s"
    show "search \<noteq> []"
    proof
      assume "search = []"
      with eq le have "f [] repl (take pos s @ repl @ drop pos s) (pos + length repl) = Some r"
        by (simp add: find_from_empty)
      from IH [OF this] le show False by simp
    qed
  qed
  with assms(2) show ?thesis by simp
qed

text \<open>What follows the last match.\<close>

function rest_after :: "string \<Rightarrow> string \<Rightarrow> string" where
  "rest_after search s =
     (if search = [] then s
      else case find_aux search 0 s of
        None \<Rightarrow> s
      | Some p \<Rightarrow> rest_after search (drop (p + length search) s))"
  by pat_completeness auto
termination
  by (relation "measure (\<lambda>(search, s). length s)") (auto dest!: find_aux_fits length_drop_less)

declare rest_after.simps [simp del]

lemma replaceAllCopy_loop_spec:
  "search \<noteq> [] \<Longrightarrow>
     \<exists>b. replaceAllCopy_loop search repl (out @ rest) res (length out) (length out) = Some (res @ b) \<and>
         subst_all search repl rest = b @ rest_after search rest"
proof (induction "length rest" arbitrary: out rest res rule: less_induct)
  case less
  show ?case
  proof (cases "find_aux search 0 rest")
    case None
    with less.prems show ?thesis
      by (simp add: replaceAllCopy_loop.simps [of search repl "out @ rest"] find_from_append
          subst_all_None rest_after.simps [of search rest])
  next
    case (Some p)
    let ?out = "out @ take (p + length search) rest" and ?rest = "drop (p + length search) rest"
    from find_aux_fits [OF Some] have fits: "p + length search \<le> length rest" .
    from length_drop_less [OF this less.prems] have "length ?rest < length rest" .
    from less.hyps [OF this less.prems, of ?out "res @ take p rest @ repl"]
    obtain b where b: "replaceAllCopy_loop search repl (?out @ ?rest) (res @ take p rest @ repl)
          (length ?out) (length ?out) = Some ((res @ take p rest @ repl) @ b)"
      "subst_all search repl ?rest = b @ rest_after search ?rest" by blast
    have "length ?out = length out + p + length search" using fits by simp
    with b Some less.prems show ?thesis
      by (intro exI [of _ "take p rest @ repl @ b"])
        (simp add: replaceAllCopy_loop.simps [of search repl "out @ rest" res] find_from_append
          subst_all_Some rest_after.simps [of search rest] substr_def add.assoc)
  qed
qed

section \<open>Tokenising is a fold over the pieces\<close>

text \<open>The pieces between the delimiters, empty ones included.\<close>

fun pieces :: "char \<Rightarrow> string \<Rightarrow> string list" where
  "pieces d [] = [[]]"
| "pieces d (c # cs) =
     (if c = d then [] # pieces d cs
      else (case pieces d cs of p # ps \<Rightarrow> (c # p) # ps | [] \<Rightarrow> [[c]]))"

fun run_cb :: "('s \<Rightarrow> string \<Rightarrow> bool \<times> 's) \<Rightarrow> 's \<Rightarrow> string list \<Rightarrow> bool \<times> 's" where
  "run_cb cb st [] = (True, st)"
| "run_cb cb st [p] = cb st p"
| "run_cb cb st (p # q # ps) =
     (let (go, st') = cb st p in if \<not> go then (False, st') else run_cb cb st' (q # ps))"

lemma pieces_nonempty [simp]: "pieces d s \<noteq> []"
  by (cases s) (auto split: list.splits)

lemma pieces_token: "d \<notin> set u \<Longrightarrow> pieces d u = [u]"
  by (induction u) auto

lemma pieces_token_delim: "d \<notin> set u \<Longrightarrow> pieces d (u @ d # v) = u # pieces d v"
  by (induction u) auto

lemma run_cb_Cons:
  "ps \<noteq> [] \<Longrightarrow> run_cb cb st (p # ps) =
     (let (go, st') = cb st p in if \<not> go then (False, st') else run_cb cb st' ps)"
  by (cases ps) auto

lemma split_at_delim: "d \<in> set s \<Longrightarrow> \<exists>u v. s = u @ d # v \<and> d \<notin> set u"
  by (metis split_list_first)

lemma find_from_delim:
  "d \<notin> set u \<Longrightarrow> find_from (out @ u @ d # v) [d] (length out) = Some (length out + length u)"
  by (simp add: find_from_append find_aux_char takeWhile_append)

lemma tokenize_loop_pieces:
  "tokenize_loop (out @ rest) [d] cb (length out) st = Inr (run_cb cb st (pieces d rest))"
proof (induction "length rest" arbitrary: out rest st rule: less_induct)
  case less
  show ?case
  proof (cases "d \<in> set rest")
    case False
    then show ?thesis
      by (subst tokenize_loop.simps) (simp add: find_from_append find_aux_char pieces_token)
  next
    case True
    from split_at_delim [OF this] obtain u v where rest: "rest = u @ d # v" and u: "d \<notin> set u"
      by (elim exE conjE)
    let ?out = "out @ u @ [d]"
    have IH: "tokenize_loop (?out @ v) [d] cb (length ?out) st' = Inr (run_cb cb st' (pieces d v))" for st'
      by (rule less.hyps) (simp add: rest)
    let ?s = "out @ u @ d # v"
    have found: "find_from ?s [d] (length out) = Some (length out + length u)"
      using u by (rule find_from_delim)
    have tok: "substr ?s (length out) (length out + length u - length out) = u"
      by (simp add: substr_def)
    obtain go st' where cb: "cb st u = (go, st')" by (cases "cb st u")
    have step: "tokenize_loop ?s [d] cb (length out) st =
        (if \<not> go then Inr (False, st') else tokenize_loop ?s [d] cb (length out + length u + 1) st')"
      by (subst tokenize_loop.simps) (simp only: found tok cb prod.case option.case Let_def; simp)
    have "tokenize_loop ?s [d] cb (length out + length u + 1) st' = Inr (run_cb cb st' (pieces d v))"
      using IH [of st'] by simp
    then show ?thesis
      using u by (simp add: rest step pieces_token_delim run_cb_Cons cb)
  qed
qed

lemma tokenize_pieces: "tokenize s [d] cb st = Inr (run_cb cb st (pieces d s))"
  using tokenize_loop_pieces [of "[]" s] by (simp add: tokenize_def)

lemma join_pieces: "join (pieces d s) [d] = s"
proof (induction s)
  case (Cons c cs)
  then show ?case
    by (cases "pieces d cs"; cases "tl (pieces d cs)") (auto split: list.splits)
qed simp

lemma pieces_join:
  "ts \<noteq> [] \<Longrightarrow> \<forall>t \<in> set ts. d \<notin> set t \<Longrightarrow> pieces d (join ts [d]) = ts"
  by (induction ts "[d]" rule: join.induct) (auto simp: pieces_token pieces_token_delim)

section \<open>Properties\<close>

text \<open>C25: Percent decoding undoes percent encoding for every string without a NUL byte; in
  particular the decoder never reads past the end of an encoded string.\<close>

theorem url_roundtrip:
  assumes "NUL \<notin> set s"
  shows "url_decode (url_encode s) = Inr s"
  using assms by (rule url_decode_encode)

theorem url_roundtrip_witness:
  "url_decode (url_encode ''a b&c=d/'') = Inr ''a b&c=d/''"
  by (rule url_roundtrip) (simp add: char_eq_byte)

text \<open>Splitting at any of the delimiters loses nothing but delimiters: no token is empty or
  holds a delimiter, and the tokens in order spell the subject without its delimiters.\<close>

lemma split_tokens:
  "list_all (good_token ds) (split s ds) \<and> concat (split s ds) = filter (\<lambda>c. \<not> strchr ds c) s"
  by (auto simp: list_all_iff good_token_def concat_split dest: split_parts)

text \<open>\<^verbatim>\<open>replaceAll\<close> returns for every non-empty search string, and \<^verbatim>\<open>replaceAllCopy\<close> returns
  the same text without what follows the last match: the copying variant loses the tail of the
  subject.\<close>

lemma replaceAllCopy_loses_tail:
  assumes "search \<noteq> []"
  shows "\<exists>r. replaceAllCopy s search repl = Some r \<and>
             replaceAll s search repl = Some (r @ rest_after search s)"
  using replaceAllCopy_loop_spec [OF assms, of repl "[]" s "[]"] replaceAll_spec [OF assms]
  by (auto simp: replaceAllCopy_def)

lemma replaceAllCopy_loses_tail_witness:
  "\<exists>r. replaceAllCopy ''a-b-c'' ''-'' ''+'' = Some r \<and>
       replaceAll ''a-b-c'' ''-'' ''+'' = Some (r @ rest_after ''-'' ''a-b-c'')"
  by (rule replaceAllCopy_loses_tail) simp

text \<open>Tokenising with a one-character delimiter is the left fold of the callback over the
  pieces between the delimiters (empty pieces included), stopped at the first refusal; it never
  throws.\<close>

lemma tokenize_is_fold:
  "tokenize s [d] cb st = Inr (run_cb cb st (pieces d s)) \<and> join (pieces d s) [d] = s"
  by (simp add: tokenize_pieces join_pieces)

end
