(* ===== verification/Dict.thy ===== *)
theory Dict
  imports Prelude
begin

text \<open>
  \<^verbatim>\<open>std::map<K, V>\<close> as an association list in strictly increasing key order, so that iterating
  over the map is iterating over the list.  \<^verbatim>\<open>dict_set\<close> is \<^verbatim>\<open>m[k] = v\<close>, \<^verbatim>\<open>dict_emplace\<close> is
  \<^verbatim>\<open>m.emplace(k, v)\<close> (an existing entry stays), \<^verbatim>\<open>dict_erase\<close> is \<^verbatim>\<open>m.erase(k)\<close> and
  \<^const>\<open>map_of\<close> is \<^verbatim>\<open>m.find(k)\<close>.  Strings are ordered as \<^verbatim>\<open>std::string\<close> orders them:
  lexicographically by unsigned bytes.  The components use maps through the locale
  \<^verbatim>\<open>dictionary\<close>, which the end of this theory interprets on these definitions.
\<close>

section \<open>The operations\<close>

type_synonym ('k, 'v) smap = "('k \<times> 'v) list"
type_synonym dict = "(string, string) smap"

fun dict_set :: "'k::linorder \<Rightarrow> 'v \<Rightarrow> ('k, 'v) smap \<Rightarrow> ('k, 'v) smap" where
  "dict_set k v [] = [(k, v)]"
| "dict_set k v ((a, b) # m) =
     (if k < a then (k, v) # (a, b) # m
      else if k = a then (k, v) # m
      else (a, b) # dict_set k v m)"

fun dict_emplace :: "'k::linorder \<Rightarrow> 'v \<Rightarrow> ('k, 'v) smap \<Rightarrow> ('k, 'v) smap" where
  "dict_emplace k v [] = [(k, v)]"
| "dict_emplace k v ((a, b) # m) =
     (if k < a then (k, v) # (a, b) # m
      else if k = a then (a, b) # m
      else (a, b) # dict_emplace k v m)"

fun dict_erase :: "'k::linorder \<Rightarrow> ('k, 'v) smap \<Rightarrow> ('k, 'v) smap" where
  "dict_erase k [] = []"
| "dict_erase k ((a, b) # m) = (if k = a then m else (a, b) # dict_erase k m)"

text \<open>\<^verbatim>\<open>it == m.end() ? def : it->second\<close>.\<close>

definition dict_get :: "('k, 'v) smap \<Rightarrow> 'k \<Rightarrow> 'v \<Rightarrow> 'v" where
  "dict_get m k def = (case map_of m k of None \<Rightarrow> def | Some v \<Rightarrow> v)"

definition dict_ok :: "('k::linorder, 'v) smap \<Rightarrow> bool" where
  "dict_ok m \<longleftrightarrow> sorted_wrt (<) (map fst m)"

section \<open>The interface\<close>

locale dictionary =
  fixes empty :: "'m"
    and put :: "'k \<Rightarrow> 'v \<Rightarrow> 'm \<Rightarrow> 'm"
    and emplace :: "'k \<Rightarrow> 'v \<Rightarrow> 'm \<Rightarrow> 'm"
    and erase :: "'k \<Rightarrow> 'm \<Rightarrow> 'm"
    and lookup :: "'m \<Rightarrow> 'k \<Rightarrow> 'v option"
    and ok :: "'m \<Rightarrow> bool"
  assumes ok_empty: "ok empty"
    and ok_put: "ok m \<Longrightarrow> ok (put k v m)"
    and ok_emplace: "ok m \<Longrightarrow> ok (emplace k v m)"
    and ok_erase: "ok m \<Longrightarrow> ok (erase k m)"
    and lookup_empty: "lookup empty k = None"
    and lookup_put: "ok m \<Longrightarrow> lookup (put k v m) = (lookup m)(k \<mapsto> v)"
    and lookup_emplace:
      "ok m \<Longrightarrow> lookup (emplace k v m) = (if lookup m k = None then (lookup m)(k \<mapsto> v) else lookup m)"
    and lookup_erase: "ok m \<Longrightarrow> lookup (erase k m) = (lookup m)(k := None)"
    and extensional: "ok m \<Longrightarrow> ok n \<Longrightarrow> lookup m = lookup n \<Longrightarrow> m = n"
begin

lemma ok_fold_put: "ok m \<Longrightarrow> ok (fold (\<lambda>(k, v). put k v) kvs m)"
  by (induction kvs arbitrary: m) (auto simp: ok_put)

lemma ok_fold_emplace: "ok m \<Longrightarrow> ok (fold (\<lambda>(k, v). emplace k v) kvs m)"
  by (induction kvs arbitrary: m) (auto simp: ok_emplace)

text \<open>Assigning in a loop: the last assignment of a key wins.\<close>

lemma lookup_fold_put:
  "ok m \<Longrightarrow> lookup (fold (\<lambda>(k, v). put k v) kvs m) = lookup m ++ map_of (rev kvs)"
proof (induction kvs arbitrary: m)
  case (Cons kv kvs)
  then show ?case
    by (cases kv) (auto simp: ok_put lookup_put map_add_def fun_eq_iff split: option.splits)
qed simp

text \<open>Emplacing in a loop: the first entry of a key wins, and what was there stays.\<close>

lemma lookup_fold_emplace:
  "ok m \<Longrightarrow> lookup (fold (\<lambda>(k, v). emplace k v) kvs m) = map_of kvs ++ lookup m"
proof (induction kvs arbitrary: m)
  case (Cons kv kvs)
  then show ?case
    by (cases kv) (auto simp: ok_emplace lookup_emplace map_add_def fun_eq_iff split: option.splits)
qed simp

lemma put_overwrites: "ok m \<Longrightarrow> put k v (put k w m) = put k v m"
  by (rule extensional) (auto simp: ok_put lookup_put)

lemma put_commutes: "ok m \<Longrightarrow> j \<noteq> k \<Longrightarrow> put j v (put k w m) = put k w (put j v m)"
  by (rule extensional) (auto simp: ok_put lookup_put fun_upd_twist)

lemma emplace_idem: "ok m \<Longrightarrow> emplace k v (emplace k w m) = emplace k w m"
  by (rule extensional) (auto simp: ok_emplace lookup_emplace)

lemma erase_put: "ok m \<Longrightarrow> erase k (put k v m) = erase k m"
  by (rule extensional) (auto simp: ok_put ok_erase lookup_put lookup_erase)

end

section \<open>The laws of the model\<close>

lemma dict_ok_Nil [simp]: "dict_ok []"
  by (simp add: dict_ok_def)

lemma dict_ok_Cons: "dict_ok ((k, v) # m) \<longleftrightarrow> (\<forall>a \<in> fst ` set m. k < a) \<and> dict_ok m"
  by (auto simp: dict_ok_def)

lemma map_of_dict_set: "map_of (dict_set k v m) = (map_of m)(k \<mapsto> v)"
  by (induction k v m rule: dict_set.induct) auto

lemma map_of_less_None: "\<forall>a \<in> fst ` set m. k < a \<Longrightarrow> map_of m k = None"
  for k :: "'k::linorder"
  by (force simp: map_of_eq_None_iff)

lemma map_of_dict_emplace:
  "dict_ok m \<Longrightarrow> map_of (dict_emplace k v m) =
     (if map_of m k = None then (map_of m)(k \<mapsto> v) else map_of m)"
proof (induction k v m rule: dict_emplace.induct)
  case (2 k v a b m)
  have "k < a \<Longrightarrow> map_of m k = None"
    using "2.prems" by (intro map_of_less_None) (auto simp: dict_ok_Cons intro: less_trans)
  with "2" show ?case by (auto simp: dict_ok_Cons fun_eq_iff)
qed auto

lemma map_of_dict_erase: "dict_ok m \<Longrightarrow> map_of (dict_erase k m) = (map_of m)(k := None)"
proof (induction k m rule: dict_erase.induct)
  case (2 k a b m)
  then show ?case by (auto simp: dict_ok_Cons fun_eq_iff map_of_less_None)
qed auto

lemma fst_set_dict_set: "fst ` set (dict_set k v m) = insert k (fst ` set m)"
  by (induction k v m rule: dict_set.induct) auto

lemma fst_set_dict_emplace: "fst ` set (dict_emplace k v m) = insert k (fst ` set m)"
  by (induction k v m rule: dict_emplace.induct) auto

lemma fst_set_dict_erase: "fst ` set (dict_erase k m) \<subseteq> fst ` set m"
  by (induction k m rule: dict_erase.induct) auto

lemma dict_ok_set: "dict_ok m \<Longrightarrow> dict_ok (dict_set k v m)"
  by (induction k v m rule: dict_set.induct)
    (auto simp: dict_ok_Cons fst_set_dict_set simp del: set_map intro: less_trans)

lemma dict_ok_emplace: "dict_ok m \<Longrightarrow> dict_ok (dict_emplace k v m)"
  by (induction k v m rule: dict_emplace.induct)
    (auto simp: dict_ok_Cons fst_set_dict_emplace simp del: set_map intro: less_trans)

lemma dict_ok_erase: "dict_ok m \<Longrightarrow> dict_ok (dict_erase k m)"
proof (induction k m rule: dict_erase.induct)
  case (2 k a b m)
  from "2.prems" have "\<forall>x \<in> fst ` set m. a < x" "dict_ok m" by (auto simp: dict_ok_Cons)
  then have "\<forall>x \<in> fst ` set (dict_erase k m). a < x" using fst_set_dict_erase [of k m] by blast
  with "2" show ?case by (simp add: dict_ok_Cons)
qed simp

lemma dict_ok_distinct: "dict_ok m \<Longrightarrow> distinct (map fst m)"
  unfolding dict_ok_def by (simp add: strict_sorted_iff)

lemma map_fst_lookup: "distinct (map fst m) \<Longrightarrow> map (\<lambda>k. (k, the (map_of m k))) (map fst m) = m"
  by (auto intro!: map_idI)

lemma dict_ok_ext: "dict_ok m \<Longrightarrow> dict_ok n \<Longrightarrow> map_of m = map_of n \<Longrightarrow> m = n"
proof -
  assume ok: "dict_ok m" "dict_ok n" and eq: "map_of m = map_of n"
  from ok eq have "set m = set n"
    by (metis dict_ok_distinct map_of_inject_set)
  with ok have "map fst m = map fst n"
    by (metis dict_ok_def list.set_map strict_sorted_equal)
  with ok eq show "m = n"
    by (metis dict_ok_distinct map_fst_lookup)
qed

interpretation std_map: dictionary "[]" dict_set dict_emplace dict_erase map_of dict_ok
  by unfold_locales
    (auto simp: dict_ok_set dict_ok_emplace dict_ok_erase map_of_dict_set map_of_dict_emplace
       map_of_dict_erase intro: dict_ok_ext)

lemmas dict_ok_rules [wsrv_dict] = dict_ok_Nil dict_ok_set dict_ok_emplace dict_ok_erase
lemmas dict_lookups [wsrv_dict] = map_of_dict_set map_of_dict_emplace map_of_dict_erase

declare dict_ok_set [simp, intro] dict_ok_emplace [simp, intro] dict_ok_erase [simp, intro]

lemma dict_get_set [simp]: "dict_get (dict_set k v m) j d = (if j = k then v else dict_get m j d)"
  by (simp add: dict_get_def map_of_dict_set)

text \<open>Rebuilding a map from its own entries, in either way, gives the map back.\<close>

lemma fold_set_self: "dict_ok m \<Longrightarrow> fold (\<lambda>(k, v). dict_set k v) m [] = m"
proof (rule std_map.extensional)
  assume ok: "dict_ok m"
  show "map_of (fold (\<lambda>(k, v). dict_set k v) m []) = map_of m"
    using std_map.lookup_fold_put [of "[]" m] dict_ok_distinct [OF ok]
      map_of_inject_set [of "rev m" m]
    by (simp add: rev_map [symmetric])
qed (auto intro: std_map.ok_fold_put)

lemma fold_emplace_self: "dict_ok m \<Longrightarrow> fold (\<lambda>(k, v). dict_emplace k v) m [] = m"
  using std_map.lookup_fold_emplace [of "[]" m]
  by (intro std_map.extensional) (auto intro: std_map.ok_fold_emplace)

end
