(* ===== verification/Base64.thy ===== *)
theory Base64
  imports Prelude "HOL-Library.Word"
begin

text \<open>
  \<^verbatim>\<open>src/base64.cpp\<close>.  The accumulator \<^verbatim>\<open>val\<close> is a 32-bit \<^verbatim>\<open>int\<close> into which every byte is
  shifted, so it overflows on any input of more than four bytes; it is kept as a
  \<^typ>\<open>32 word\<close> here and the lemmas show that the bits read from it are those of the last two
  bytes.  The right shifts are the arithmetic ones of a signed \<^verbatim>\<open>int\<close>.
\<close>

unbundle bit_operations_syntax

section \<open>The code\<close>

definition b64_alphabet :: string where
  "b64_alphabet = ''ABCDEFGHIJKLMNOPQRSTUVWXYZabcdefghijklmnopqrstuvwxyz0123456789+/''"

text \<open>\<^verbatim>\<open>b[(val >> k) & 0x3F]\<close>\<close>

definition b64_char :: "32 word \<Rightarrow> int \<Rightarrow> char" where
  "b64_char val k = b64_alphabet ! unat (signed_drop_bit (nat k) val AND 0x3F)"

function encode_flush :: "32 word \<Rightarrow> int \<Rightarrow> string \<Rightarrow> int \<times> string" where
  "encode_flush val valb out =
     (if 0 \<le> valb then encode_flush val (valb - 6) (out @ [b64_char val valb]) else (valb, out))"
  by pat_completeness auto
termination by (relation "measure (\<lambda>(val, valb, out). nat (valb + 6))") auto

declare encode_flush.simps [simp del]

fun encode_loop :: "string \<Rightarrow> 32 word \<Rightarrow> int \<Rightarrow> string \<Rightarrow> 32 word \<times> int \<times> string" where
  "encode_loop [] val valb out = (val, valb, out)"
| "encode_loop (c # cs) val valb out =
     (let val' = push_bit 8 val + word_of_nat (byte c);
          (valb', out') = encode_flush val' (valb + 8) out
      in encode_loop cs val' valb' out')"

function encode_pad :: "string \<Rightarrow> string" where
  "encode_pad out = (if length out mod 4 \<noteq> 0 then encode_pad (out @ ''='') else out)"
  by pat_completeness auto
termination
  by (relation "measure (\<lambda>out. if length out mod 4 = 0 then 0 else 4 - length out mod 4)")
    (auto simp: mod_Suc intro!: diff_less_mono2)

declare encode_pad.simps [simp del]

definition base64_encode :: "string \<Rightarrow> string" where
  "base64_encode s =
     (let (val, valb, out) = encode_loop s 0 (- 6) [];
          out = (if - 6 < valb then out @ [b64_char (push_bit 8 val) (valb + 8)] else out)
      in encode_pad out)"

definition b64_table :: "int list" where
  "b64_table = fold (\<lambda>i t. t[byte (b64_alphabet ! i) := int i]) [0..<64] (replicate 256 (- 1))"

fun decode_loop :: "string \<Rightarrow> 32 word \<Rightarrow> int \<Rightarrow> string \<Rightarrow> string" where
  "decode_loop [] val valb out = out"
| "decode_loop (c # cs) val valb out =
     (if b64_table ! byte c = - 1 then out
      else
        (let val' = push_bit 6 val + word_of_int (b64_table ! byte c);
             valb' = valb + 6
         in if 0 \<le> valb'
            then decode_loop cs val' (valb' - 8)
                   (out @ [char_of (unat (signed_drop_bit (nat valb') val' AND 0xFF))])
            else decode_loop cs val' valb' out))"

definition base64_decode :: "string \<Rightarrow> string" where
  "base64_decode s = decode_loop s 0 (- 8) []"

section \<open>The bits that are read\<close>

lemma unat_signed_drop_bit_mask:
  "k + n \<le> 32 \<Longrightarrow> unat (signed_drop_bit k (w :: 32 word) AND mask n) = unat w div 2 ^ k mod 2 ^ n"
proof -
  assume kn: "k + n \<le> 32"
  have "signed_drop_bit k w AND mask n = drop_bit k w AND mask n"
    using kn by (intro bit_eqI) (auto simp: bit_simps)
  then have "unat (signed_drop_bit k w AND mask n) = unat (take_bit n (drop_bit k w))"
    by (simp only: take_bit_eq_mask)
  also have "\<dots> = take_bit n (drop_bit k (unat w))"
    by (simp only: unsigned_take_bit_eq unat_drop_bit_eq)
  finally show ?thesis by (simp add: take_bit_eq_mod drop_bit_eq_div)
qed

lemma mask_6: "(0x3F :: 32 word) = mask 6" and mask_8: "(0xFF :: 32 word) = mask 8"
  by (simp_all add: mask_eq_exp_minus_1)

lemma unat_push_add:
  "unat (push_bit n w + word_of_nat c :: 32 word) = (2 ^ n * unat w + c) mod 2 ^ 32"
proof -
  have "push_bit n w + word_of_nat c = (word_of_nat (2 ^ n * unat w + c) :: 32 word)"
    by (simp add: push_bit_eq_mult mult.commute)
  then have "unat (push_bit n w + word_of_nat c :: 32 word) = unat (word_of_nat (2 ^ n * unat w + c) :: 32 word)"
    by (simp only:)
  then show ?thesis by (simp only: unat_of_nat len_num1 len_bit0 len_bit1) simp
qed


lemma b64_char_eq: "nat k \<le> 26 \<Longrightarrow> b64_char w k = b64_alphabet ! (unat w div 2 ^ nat k mod 64)"
  using unat_signed_drop_bit_mask [of "nat k" 6 w] by (simp add: b64_char_def mask_6)

text \<open>A window of at most two bytes forgets everything but the byte before.\<close>

lemma window:
  "k + m \<le> 32 \<Longrightarrow>
     unat (push_bit n w + word_of_nat c :: 32 word) div 2 ^ k mod 2 ^ m =
       (2 ^ n * unat w + c) div 2 ^ k mod 2 ^ m"
proof -
  assume km: "k + m \<le> 32"
  have "take_bit m (drop_bit k (take_bit 32 x)) = take_bit m (drop_bit k x)" for x :: nat
    using km by (intro bit_eqI) (auto simp: bit_simps)
  then show ?thesis
    by (simp only: unat_push_add take_bit_eq_mod drop_bit_eq_div)
qed

lemma low_byte: "unat (push_bit 8 w + word_of_nat (byte c) :: 32 word) mod 256 = byte c"
  using window [of 0 8 8 w "byte c"] by simp

lemmas flush = encode_flush.simps

lemma flush_values:
  "encode_flush v 2 out = (- 4, out @ [b64_char v 2])"
  "encode_flush v 4 out = (- 2, out @ [b64_char v 4])"
  "encode_flush v 6 out = (- 6, out @ [b64_char v 6, b64_char v 0])"
  by (simp_all add: flush [of v 2] flush [of v "- 4"] flush [of v 4] flush [of v "- 2"]
      flush [of v 6] flush [of v 0] flush [of v "- 6"])

lemma shift_window:
  fixes u x :: nat
  assumes "j + k = b" "j \<le> n" "x < 2 ^ b"
  shows "(2 ^ b * u + x) div 2 ^ k mod 2 ^ n = u mod 2 ^ (n - j) * 2 ^ j + x div 2 ^ k"
proof -
  have p: "(2 :: nat) ^ b = 2 ^ j * 2 ^ k" using assms(1) by (simp flip: power_add)
  have y: "x div 2 ^ k < 2 ^ j" using assms(3) p by (simp add: div_less_iff_less_mult)
  have "(2 ^ b * u + x) div 2 ^ k = 2 ^ j * u + x div 2 ^ k"
    by (simp only: p mult.commute [of "2 ^ j"] mult.assoc) simp
  moreover have "(2 ^ j * u + x div 2 ^ k) mod (2 ^ j * 2 ^ (n - j)) =
      2 ^ j * (u mod 2 ^ (n - j)) + x div 2 ^ k"
    using y by (simp add: mod_mult2_eq div_mult_self4 mult.commute)
  moreover have "(2 :: nat) ^ n = 2 ^ j * 2 ^ (n - j)"
    using assms(2) by (simp flip: power_add)
  ultimately show ?thesis by (simp add: mult.commute)
qed

lemma b64_char_window:
  assumes "j + nat k = 8" "j \<le> 6"
  shows "b64_char (push_bit 8 v + word_of_nat (byte c)) k =
    b64_alphabet ! (unat v mod 256 mod 2 ^ (6 - j) * 2 ^ j + byte c div 2 ^ nat k)"
proof -
  let ?w = "push_bit 8 v + word_of_nat (byte c) :: 32 word"
  have "b64_char ?w k = b64_alphabet ! (unat ?w div 2 ^ nat k mod 2 ^ 6)"
    using b64_char_eq [of k ?w] assms by simp
  also have "unat ?w div 2 ^ nat k mod 2 ^ 6 = (2 ^ 8 * unat v + byte c) div 2 ^ nat k mod 2 ^ 6"
    using assms by (intro window) simp
  also have "\<dots> = unat v mod 2 ^ (6 - j) * 2 ^ j + byte c div 2 ^ nat k"
    using assms by (intro shift_window) simp_all
  also have "unat v mod 2 ^ (6 - j) = unat v mod 2 ^ 8 mod 2 ^ (6 - j)"
    by (rule mod_mod_cancel [symmetric]) (rule le_imp_power_dvd, simp)
  finally show ?thesis by simp
qed

lemma b64_char_low:
  "b64_char (push_bit 8 v + word_of_nat (byte c)) 0 = b64_alphabet ! (byte c mod 64)"
proof -
  let ?w = "push_bit 8 v + word_of_nat (byte c) :: 32 word"
  have "b64_char ?w 0 = b64_alphabet ! (unat ?w div 2 ^ 0 mod 2 ^ 6)"
    using b64_char_eq [of 0 ?w] by simp
  also have "unat ?w div 2 ^ 0 mod 2 ^ 6 = unat ?w mod 256 mod 2 ^ 6"
    using mod_mod_cancel [of "2 ^ 6" 256 "unat ?w"] by simp
  finally show ?thesis by (simp only: low_byte) simp
qed

lemmas chars_of_byte =
  b64_char_window [of 6 2, simplified] b64_char_window [of 4 4, simplified]
  b64_char_window [of 2 6, simplified] b64_char_low

section \<open>The encoder against RFC 4648\<close>

abbreviation sextet :: "nat \<Rightarrow> char" where
  "sextet n \<equiv> b64_alphabet ! n"

fun rfc4648 :: "string \<Rightarrow> string" where
  "rfc4648 [] = []"
| "rfc4648 [a] = [sextet (byte a div 4), sextet (byte a mod 4 * 16), CHR ''='', CHR ''='']"
| "rfc4648 [a, b] =
     [sextet (byte a div 4), sextet (byte a mod 4 * 16 + byte b div 16),
      sextet (byte b mod 16 * 4), CHR ''='']"
| "rfc4648 (a # b # c # cs) =
     sextet (byte a div 4) # sextet (byte a mod 4 * 16 + byte b div 16) #
     sextet (byte b mod 16 * 4 + byte c div 64) # sextet (byte c mod 64) # rfc4648 cs"

lemma pad_values:
  "length out mod 4 = 0 \<Longrightarrow> encode_pad out = out"
  "length out mod 4 = 2 \<Longrightarrow> encode_pad out = out @ ''==''"
  "length out mod 4 = 3 \<Longrightarrow> encode_pad out = out @ ''=''"
  by (simp_all add: encode_pad.simps [of out] encode_pad.simps [of "out @ x" for x] mod_Suc)

definition encode_finish :: "32 word \<times> int \<times> string \<Rightarrow> string" where
  "encode_finish st =
     (case st of (val, valb, out) \<Rightarrow>
        encode_pad (if - 6 < valb then out @ [b64_char (push_bit 8 val) (valb + 8)] else out))"

lemma b64_char_last:
  "b64_char (push_bit 8 v) 4 = sextet (unat v mod 256 mod 4 * 16)"
  "b64_char (push_bit 8 v) 6 = sextet (unat v mod 256 mod 16 * 4)"
  using chars_of_byte(2,3) [of v NUL] by simp_all

lemma encode_loop_rfc4648:
  "length out mod 4 = 0 \<Longrightarrow> encode_finish (encode_loop s v (- 6) out) = out @ rfc4648 s"
proof (induction s arbitrary: v out rule: rfc4648.induct)
  case 1
  then show ?case by (simp add: encode_finish_def pad_values)
next
  case (2 a)
  then show ?case
    by (simp add: encode_finish_def flush_values chars_of_byte b64_char_last low_byte pad_values mod_Suc)
next
  case (3 a b)
  then show ?case
    by (simp add: encode_finish_def flush_values chars_of_byte b64_char_last low_byte pad_values mod_Suc)
next
  case (4 a b c cs)
  let ?out = "out @ [sextet (byte a div 4), sextet (byte a mod 4 * 16 + byte b div 16),
      sextet (byte b mod 16 * 4 + byte c div 64), sextet (byte c mod 64)]"
  have "length ?out mod 4 = 0" using "4.prems" by (simp add: mod_Suc)
  from "4.IH" [OF this] show ?case
    by (simp add: flush_values chars_of_byte low_byte)
qed

lemma base64_encode_rfc4648: "base64_encode s = rfc4648 s"
  using encode_loop_rfc4648 [of "[]" s 0]
  by (simp add: base64_encode_def encode_finish_def split: prod.splits)

section \<open>The decoder\<close>

lemma nth_fold_update:
  "distinct (map k is) \<Longrightarrow> j \<in> set is \<Longrightarrow> k j < length t \<Longrightarrow>
     fold (\<lambda>i t. t[k i := v i]) is t ! k j = v j"
proof (induction "is" arbitrary: t)
  case (Cons i js)
  have keep: "k i \<notin> k ` set ns \<Longrightarrow> fold (\<lambda>i t. t[k i := v i]) ns u ! k i = u ! k i" for ns u i
    by (induction ns arbitrary: u) auto
  show ?case
  proof (cases "j \<in> set js")
    case True
    with Cons show ?thesis by simp
  next
    case False
    with Cons.prems show ?thesis using keep [of j js] by auto
  qed
qed simp

lemma nth_fold_other:
  "n \<notin> k ` set is \<Longrightarrow> fold (\<lambda>i t. t[k i := v i]) is t ! n = t ! n"
  by (induction "is" arbitrary: t) auto

lemma alphabet_distinct: "distinct b64_alphabet" and alphabet_length: "length b64_alphabet = 64"
  by (simp_all add: b64_alphabet_def)

lemma table_sextet: "n < 64 \<Longrightarrow> b64_table ! byte (sextet n) = int n"
proof -
  assume n: "n < 64"
  have "distinct (map (\<lambda>i. byte (sextet i)) [0..<64])"
  proof (subst distinct_map, intro conjI inj_onI)
    fix i j assume "i \<in> set [0..<64]" "j \<in> set [0..<64]" "byte (sextet i) = byte (sextet j)"
    then have "i < 64" "j < 64" "sextet i = sextet j" by (simp_all only: set_upt atLeastLessThan_iff of_char_eq_iff)
    then show "i = j"
      using nth_eq_iff_index_eq [OF alphabet_distinct] by (simp only: alphabet_length)
  qed (rule distinct_upt)
  moreover have "n \<in> set [0..<64]" using n by (simp only: set_upt atLeastLessThan_iff) simp
  ultimately show ?thesis
    unfolding b64_table_def by (rule nth_fold_update) (simp only: length_replicate byte_less)
qed

lemma table_pad: "b64_table ! byte (CHR ''='') = - 1"
proof -
  have notin: "CHR ''='' \<notin> set b64_alphabet" by (simp add: b64_alphabet_def)
  have mem: "sextet i \<in> set b64_alphabet" if "i \<in> set [0..<64]" for i
    using that by (simp only: set_upt atLeastLessThan_iff) (simp only: nth_mem alphabet_length)
  have ne: "sextet i \<noteq> CHR ''=''" if "i \<in> set [0..<64]" for i
  proof
    assume "sextet i = CHR ''=''"
    with mem [OF that] have "CHR ''='' \<in> set b64_alphabet" by (simp only:)
    with notin show False by (rule notE)
  qed
  have "byte (CHR ''='') \<notin> (\<lambda>i. byte (sextet i)) ` set [0..<64]"
  proof
    assume "byte (CHR ''='') \<in> (\<lambda>i. byte (sextet i)) ` set [0..<64]"
    then obtain i where i: "i \<in> set [0..<64]" and eq: "byte (CHR ''='') = byte (sextet i)"
      by (rule imageE)
    from eq have "sextet i = CHR ''=''" by (simp only: of_char_eq_iff)
    with ne [OF i] show False by (rule notE)
  qed
  note other = nth_fold_other [OF this]
  show ?thesis
    unfolding b64_table_def by (rule trans [OF other]) (simp only: nth_replicate byte_less)
qed

text \<open>What one step of the decoder puts into the accumulator and the output.\<close>

definition sextet_step :: "32 word \<Rightarrow> nat \<Rightarrow> 32 word" where
  "sextet_step v n = push_bit 6 v + word_of_nat n"

lemma decode_loop_sextet:
  "n < 64 \<Longrightarrow> decode_loop (sextet n # cs) v valb out =
     (if 0 \<le> valb + 6
      then decode_loop cs (sextet_step v n) (valb - 2)
             (out @ [char_of (unat (signed_drop_bit (nat (valb + 6)) (sextet_step v n) AND 0xFF))])
      else decode_loop cs (sextet_step v n) (valb + 6) out)"
  by (simp add: table_sextet sextet_step_def Let_def)

lemma step_window:
  "k + 8 \<le> 32 \<Longrightarrow> unat (signed_drop_bit k (sextet_step v n) AND 0xFF) =
     (2 ^ 6 * unat v + n) div 2 ^ k mod 2 ^ 8"
  using unat_signed_drop_bit_mask [of k 8] window [of k 8 6 v n]
  by (simp only: mask_8 sextet_step_def)

lemma step_byte:
  "j + k = 6 \<Longrightarrow> n < 64 \<Longrightarrow>
     unat (signed_drop_bit k (sextet_step v n) AND 0xFF) = unat v mod 2 ^ (8 - j) * 2 ^ j + n div 2 ^ k"
  using step_window [of k v n] shift_window [of j k 6 8 n "unat v"] by simp

lemma step_low: "n < 64 \<Longrightarrow> unat (sextet_step v n) mod 64 = n"
  using window [of 0 6 6 v n] by (simp add: sextet_step_def)

lemma step_lower: "n < 64 \<Longrightarrow> unat (sextet_step v n) mod 16 = n mod 16"
    "n < 64 \<Longrightarrow> unat (sextet_step v n) mod 4 = n mod 4"
  using step_low [of n v] mod_mod_cancel [of 16 64 "unat (sextet_step v n)"]
    mod_mod_cancel [of 4 64 "unat (sextet_step v n)"] by simp_all

lemmas step_bytes =
  step_byte [of 2 4, simplified] step_byte [of 4 2, simplified] step_byte [of 6 0, simplified]

lemmas sextet_rules = decode_loop_sextet step_bytes step_low step_lower

lemma decode_group4:
  assumes "k < 64" "l < 64" "m < 64" "n < 64"
  shows "\<exists>v'. decode_loop (sextet k # sextet l # sextet m # sextet n # cs) v (- 8) out =
     decode_loop cs v' (- 8)
       (out @ [char_of (k * 4 + l div 16), char_of (l mod 16 * 16 + m div 4), char_of (m mod 4 * 64 + n)])"
  using assms by (simp add: sextet_rules del: decode_loop.simps) blast

lemma decode_loop_pad: "decode_loop (CHR ''='' # cs) v valb out = out"
  using table_pad by (subst decode_loop.simps) (rule if_P)

lemma decode_group2:
  assumes "k < 64" "l < 64"
  shows "decode_loop (sextet k # sextet l # CHR ''='' # cs) v (- 8) out = out @ [char_of (k * 4 + l div 16)]"
  using assms by (simp add: sextet_rules decode_loop_pad del: decode_loop.simps)

lemma decode_group3:
  assumes "k < 64" "l < 64" "m < 64"
  shows "decode_loop (sextet k # sextet l # sextet m # CHR ''='' # cs) v (- 8) out =
     out @ [char_of (k * 4 + l div 16), char_of (l mod 16 * 16 + m div 4)]"
  using assms by (simp add: sextet_rules decode_loop_pad del: decode_loop.simps)

text \<open>Cutting three bytes into four sextets and putting them together again.\<close>

lemma recombine:
  fixes a b c :: nat
  assumes "a < 256" "b < 256" "c < 256"
  shows "a div 4 * 4 + (a mod 4 * 16 + b div 16) div 16 = a"
    and "(a mod 4 * 16 + b div 16) mod 16 * 16 + (b mod 16 * 4 + c div 64) div 4 = b"
    and "(b mod 16 * 4 + c div 64) mod 4 * 64 + c mod 64 = c"
proof -
  have b: "b div 16 < 16" and c: "c div 64 < 4" using assms by (simp_all add: div_less_iff_less_mult)
  show "a div 4 * 4 + (a mod 4 * 16 + b div 16) div 16 = a" using b by simp
  show "(a mod 4 * 16 + b div 16) mod 16 * 16 + (b mod 16 * 4 + c div 64) div 4 = b"
    using b c by simp
  show "(b mod 16 * 4 + c div 64) mod 4 * 64 + c mod 64 = c" using c by simp
qed

lemma sextet_bounds:
  fixes a b c :: nat
  assumes "a < 256" "b < 256" "c < 256"
  shows "a div 4 < 64" "a mod 4 * 16 + b div 16 < 64" "b mod 16 * 4 + c div 64 < 64" "c mod 64 < 64"
proof -
  have "b div 16 < 16" "c div 64 < 4" "a mod 4 < 4" "b mod 16 < 16"
    using assms by (simp_all add: div_less_iff_less_mult)
  then show "a mod 4 * 16 + b div 16 < 64" "b mod 16 * 4 + c div 64 < 64" by linarith+
qed (use assms in \<open>simp_all add: div_less_iff_less_mult\<close>)

lemma decode_rfc4648: "decode_loop (rfc4648 s) v (- 8) out = out @ s"
proof (induction s arbitrary: v out rule: rfc4648.induct)
  case (2 a)
  have "byte a div 4 < 64" "byte a mod 4 * 16 < 64"
    using sextet_bounds [of "byte a" 0 0] by simp_all
  from decode_group2 [OF this] show ?case
    using recombine(1) [of "byte a" 0 0] by simp
next
  case (3 a b)
  have bnd: "byte a div 4 < 64" "byte a mod 4 * 16 + byte b div 16 < 64" "byte b mod 16 * 4 < 64"
    using sextet_bounds [of "byte a" "byte b" 0] by simp_all
  show ?case
    using recombine(1,2) [of "byte a" "byte b" 0] decode_group3 [OF bnd] by simp
next
  case (4 a b c cs)
  note bnd = sextet_bounds [of "byte a" "byte b" "byte c", OF byte_less byte_less byte_less]
  note rec = recombine [of "byte a" "byte b" "byte c", OF byte_less byte_less byte_less]
  obtain v' where "decode_loop (rfc4648 (a # b # c # cs)) v (- 8) out =
      decode_loop (rfc4648 cs) v' (- 8) (out @ [a, b, c])"
    using decode_group4 [OF bnd, of "rfc4648 cs" v out] unfolding rec by (auto simp del: decode_loop.simps)
  then show ?case using "4.IH" by (simp del: decode_loop.simps rfc4648.simps)
qed simp

lemma length_rfc4648: "length (rfc4648 s) = 4 * ((length s + 2) div 3)"
proof (induction s rule: rfc4648.induct)
  case (4 a b c cs)
  have "(length (a # b # c # cs) + 2) div 3 = Suc ((length cs + 2) div 3)"
    by (simp only: length_Cons)
  with 4 show ?case by simp
qed simp_all

section \<open>Properties\<close>

text \<open>C28: The encoder computes the Base64 encoding of RFC 4648 (groups of three bytes, padded with
  \<^verbatim>\<open>=\<close>) although its accumulator overflows, and the decoder gives the input back.\<close>

theorem base64_roundtrip:
  "base64_encode s = rfc4648 s \<and> base64_decode (base64_encode s) = s \<and>
   length (base64_encode s) = 4 * ((length s + 2) div 3)"
  by (simp add: base64_encode_rfc4648 base64_decode_def decode_rfc4648 length_rfc4648
      del: decode_loop.simps rfc4648.simps)

end
