(* ===== verification/Url.thy ===== *)
theory Url
  imports Util Dict
begin

text \<open>
  \<^verbatim>\<open>src/url.cpp\<close> and \<^verbatim>\<open>include/wsrv/url.hpp\<close>: the \<^verbatim>\<open>URL\<close> class (parsing, printing, path
  normalisation) and \<^verbatim>\<open>URLBuilder\<close>.  Parsing can throw (\<^verbatim>\<open>std::stoi\<close>) and reads \<^verbatim>\<open>tokens[0]\<close> of
  a vector that is empty when the authority is, which is undefined.
\<close>

section \<open>The classes\<close>

record url =
  url_protocol :: string
  url_host :: string
  url_fragment :: string
  url_path_member :: string
  url_port :: int
  url_params :: dict
  url_segments :: "string list"

definition empty_url :: url where
  "empty_url = \<lparr>url_protocol = [], url_host = [], url_fragment = [], url_path_member = [],
     url_port = - 1, url_params = [], url_segments = []\<rparr>"

section \<open>Printing\<close>

definition makeQueryString :: "bool \<Rightarrow> url \<Rightarrow> string" where
  "makeQueryString encoded u =
     snd (foldl (\<lambda>(first, res) (k, v).
       (False,
        (if \<not> first then res @ ''&'' else res) @
        (if encoded then url_encode k else k) @ ''='' @ (if encoded then url_encode v else v)))
       (True, []) (url_params u))"

definition makePathString :: "bool \<Rightarrow> url \<Rightarrow> string" where
  "makePathString encoded u =
     snd (foldl (\<lambda>(first, res) s.
       (False, (if \<not> first then res @ ''/'' else res) @ (if encoded then url_encode s else s)))
       (True, []) (url_segments u))"

definition url_file :: "bool \<Rightarrow> url \<Rightarrow> string" where
  "url_file encoded u =
     (let res = makePathString encoded u;
          query = makeQueryString encoded u;
          res = (if query \<noteq> [] then res @ ''?'' @ query else res)
      in if url_fragment u \<noteq> []
         then res @ ''#'' @ (if encoded then url_encode (url_fragment u) else url_fragment u)
         else res)"

definition url_str :: "bool \<Rightarrow> url \<Rightarrow> string" where
  "url_str encoded u =
     (if url_protocol u \<noteq> [] then url_protocol u @ ''://'' else []) @
     url_host u @
     (if 0 < url_port u then '':'' @ int_str (url_port u) else []) @
     ''/'' @ url_file encoded u"

definition hasQueryParam :: "url \<Rightarrow> string \<Rightarrow> bool" where
  "hasQueryParam u p \<longleftrightarrow> map_of (url_params u) p \<noteq> None"

definition queryParam :: "url \<Rightarrow> string \<Rightarrow> string \<Rightarrow> string" where
  "queryParam u p def = dict_get (url_params u) p def"

section \<open>Path normalisation\<close>

fun normalize_segments :: "string list \<Rightarrow> string list \<Rightarrow> string list" where
  "normalize_segments [] dst = dst"
| "normalize_segments (seg # segs) dst =
     (if seg = [] then normalize_segments segs dst
      else if seg = ''.'' then normalize_segments segs dst
      else if seg = ''..'' then normalize_segments segs (if dst \<noteq> [] then butlast dst else dst)
      else normalize_segments segs (dst @ [seg]))"

definition normalizePath :: "url \<Rightarrow> url" where
  "normalizePath u =
     (if url_segments u = [] then u
      else u\<lparr>url_segments := normalize_segments (url_segments u) []\<rparr>)"

section \<open>Parsing\<close>

fun decode_segments :: "string list \<Rightarrow> string list result" where
  "decode_segments [] = Inr []"
| "decode_segments (s # ss) =
     (if s \<noteq> [] then rbind (url_decode s) (\<lambda>d. rmap (\<lambda>ds. d # ds) (decode_segments ss))
      else decode_segments ss)"

definition parsePath :: "string \<Rightarrow> url \<Rightarrow> url result" where
  "parsePath p u =
     (if p = [] then Inr u
      else rmap (\<lambda>ds. u\<lparr>url_segments := url_segments u @ ds\<rparr>) (decode_segments (split p ''/'')))"

fun parse_params :: "string list \<Rightarrow> dict \<Rightarrow> dict result" where
  "parse_params [] ps = Inr ps"
| "parse_params (t # ts) ps =
     (case split t ''='' of
        [k, v] \<Rightarrow>
          rbind (url_decode k) (\<lambda>k'. rbind (url_decode v) (\<lambda>v'. parse_params ts (dict_emplace k' v' ps)))
      | _ \<Rightarrow> parse_params ts ps)"

text \<open>\<^verbatim>\<open>URL::parse\<close>, from the authority on: \<^verbatim>\<open>cursor\<close> is the position after \<^verbatim>\<open>://\<close>.\<close>

definition parse_file :: "string \<Rightarrow> nat \<Rightarrow> url \<Rightarrow> url result" where
  "parse_file s cursor u =
     (case find_from s ''?'' cursor of
        None \<Rightarrow> parsePath (drop cursor s) u
      | Some pos \<Rightarrow>
          rbind (parsePath (substr s cursor (pos - cursor)) u) (\<lambda>u.
          rmap (\<lambda>ps. u\<lparr>url_params := ps\<rparr>) (parse_params (split (drop (pos + 1) s) ''&'') (url_params u))))"

definition parse_authority :: "string \<Rightarrow> nat \<Rightarrow> url \<Rightarrow> url result" where
  "parse_authority s cursor u =
     (let pos = find_from s ''/'' cursor;
          auth = (case pos of None \<Rightarrow> drop cursor s | Some p \<Rightarrow> substr s cursor (p - cursor))
      in case split auth '':'' of
           [] \<Rightarrow> Inl Undefined
         | host # toks \<Rightarrow>
             rbind (case toks of [] \<Rightarrow> Inr (url_port u) | p # _ \<Rightarrow> stoi p) (\<lambda>port.
               let u = u\<lparr>url_host := host, url_port := port\<rparr>
               in case pos of None \<Rightarrow> Inr u | Some p \<Rightarrow> parse_file s (p + 1) u))"

definition parse_url :: "string \<Rightarrow> url \<Rightarrow> url result" where
  "parse_url s u =
     (case find_from s ''://'' 0 of
        None \<Rightarrow> parse_authority s 0 u
      | Some pos \<Rightarrow> parse_authority s (pos + 3) (u\<lparr>url_protocol := substr s 0 pos\<rparr>))"

text \<open>The constructor \<^verbatim>\<open>URL(const std::string &)\<close>.\<close>

definition URL :: "string \<Rightarrow> url result" where
  "URL s = parse_url s empty_url"

section \<open>The builder\<close>

record url_builder =
  ub_protocol :: string
  ub_host :: string
  ub_fragment :: string
  ub_params :: dict
  ub_segments :: "string list"
  ub_port :: int

definition empty_builder :: url_builder where
  "empty_builder = \<lparr>ub_protocol = [], ub_host = [], ub_fragment = [], ub_params = [],
     ub_segments = [], ub_port = - 1\<rparr>"

definition builder_of_url :: "url \<Rightarrow> url_builder" where
  "builder_of_url u = \<lparr>ub_protocol = url_protocol u, ub_host = url_host u,
     ub_fragment = url_fragment u, ub_params = url_params u, ub_segments = url_segments u,
     ub_port = url_port u\<rparr>"

definition builder_of_string :: "string \<Rightarrow> url_builder result" where
  "builder_of_string s = rmap builder_of_url (URL s)"

definition setProtocol :: "string \<Rightarrow> url_builder \<Rightarrow> url_builder" where
  "setProtocol pr b = b\<lparr>ub_protocol := pr\<rparr>"

definition setPort :: "int \<Rightarrow> url_builder \<Rightarrow> url_builder" where
  "setPort p b = b\<lparr>ub_port := p\<rparr>"

definition setHost :: "string \<Rightarrow> url_builder \<Rightarrow> url_builder" where
  "setHost h b = b\<lparr>ub_host := h\<rparr>"

definition builder_parsePath :: "string \<Rightarrow> url_builder \<Rightarrow> url_builder" where
  "builder_parsePath p b =
     b\<lparr>ub_segments := ub_segments b @ filter (\<lambda>t. t \<noteq> []) (split p ''/'')\<rparr>"

definition setPath :: "string \<Rightarrow> url_builder \<Rightarrow> url_builder" where
  "setPath p b = builder_parsePath p b"

definition setPathSegments :: "string list \<Rightarrow> url_builder \<Rightarrow> url_builder" where
  "setPathSegments segs b = b\<lparr>ub_segments := segs\<rparr>"

definition addPathSegment :: "string \<Rightarrow> url_builder \<Rightarrow> url_builder" where
  "addPathSegment seg b = b\<lparr>ub_segments := ub_segments b @ [seg]\<rparr>"

definition setFragment :: "string \<Rightarrow> url_builder \<Rightarrow> url_builder" where
  "setFragment f b = b\<lparr>ub_fragment := f\<rparr>"

definition addQueryParam :: "string \<Rightarrow> string \<Rightarrow> url_builder \<Rightarrow> url_builder" where
  "addQueryParam k v b = b\<lparr>ub_params := dict_emplace k v (ub_params b)\<rparr>"

definition build :: "url_builder \<Rightarrow> url" where
  "build b = empty_url\<lparr>url_host := ub_host b, url_port := ub_port b, url_protocol := ub_protocol b,
     url_segments := ub_segments b, url_params := ub_params b, url_fragment := ub_fragment b\<rparr>"

section \<open>Printing as joining\<close>

lemma foldl_join:
  "foldl (\<lambda>(first, res) x. (False, (if \<not> first then res @ d else res) @ f x)) (False, acc) xs =
     (False, acc @ concat (map (\<lambda>x. d @ f x) xs))"
  by (induction xs arbitrary: acc) auto

lemma join_Cons: "join (x # xs) d = x @ concat (map (\<lambda>y. d @ y) xs)"
  by (induction xs arbitrary: x) auto

lemma foldl_first:
  "snd (foldl (\<lambda>(first, res) x. (False, (if \<not> first then res @ d else res) @ f x)) (True, []) xs) =
     join (map f xs) d"
  by (cases xs) (auto simp: foldl_join [simplified] join_Cons comp_def)

lemma makePathString_join:
  "makePathString e u = join (map (\<lambda>s. if e then url_encode s else s) (url_segments u)) ''/''"
  unfolding makePathString_def by (rule foldl_first)

definition param_str :: "bool \<Rightarrow> string \<times> string \<Rightarrow> string" where
  "param_str e kv = (if e then url_encode (fst kv) else fst kv) @ ''='' @
     (if e then url_encode (snd kv) else snd kv)"

lemma makeQueryString_join:
  "makeQueryString e u = join (map (param_str e) (url_params u)) ''&''"
proof -
  have "(\<lambda>(first, res) (k, v). (False, (if \<not> first then res @ ''&'' else res) @
        (if e then url_encode k else k) @ ''='' @ (if e then url_encode v else v))) =
      (\<lambda>(first, res) x. (False, (if \<not> first then res @ ''&'' else res) @ param_str e x))"
    by (auto simp: param_str_def fun_eq_iff)
  then show ?thesis
    unfolding makeQueryString_def by (simp only: foldl_first)
qed

section \<open>Parsing what was printed\<close>

definition clean :: "string \<Rightarrow> bool" where
  "clean s \<longleftrightarrow> s \<noteq> [] \<and> NUL \<notin> set s"

definition url_ok :: "url \<Rightarrow> bool" where
  "url_ok u \<longleftrightarrow>
     url_protocol u \<noteq> [] \<and> CHR '':'' \<notin> set (url_protocol u) \<and>
     clean (url_host u) \<and> CHR '':'' \<notin> set (url_host u) \<and> CHR ''/'' \<notin> set (url_host u) \<and>
     (url_port u = - 1 \<or> 0 < url_port u \<and> url_port u < 2 ^ 31) \<and>
     dict_ok (url_params u) \<and> (\<forall>(k, v) \<in> set (url_params u). clean k \<and> clean v) \<and>
     (\<forall>s \<in> set (url_segments u). clean s) \<and>
     url_fragment u = [] \<and> url_path_member u = []"

lemma url_encode_nonempty: "s \<noteq> [] \<Longrightarrow> url_encode s \<noteq> []"
  by (cases s) (auto simp: hexchar_def)

lemma url_encode_not:
  "\<not> url_plain c \<Longrightarrow> c \<noteq> CHR ''+'' \<Longrightarrow> c \<noteq> CHR ''%'' \<Longrightarrow> c \<notin> set (url_encode s)"
  using url_encode_chars by blast

lemma url_encode_free:
  "NUL \<notin> set (url_encode s)" "CHR ''/'' \<notin> set (url_encode s)" "CHR ''?'' \<notin> set (url_encode s)"
  "CHR ''&'' \<notin> set (url_encode s)" "CHR ''='' \<notin> set (url_encode s)" "CHR '':'' \<notin> set (url_encode s)"
  by (rule url_encode_not; simp add: url_plain_special char_eq_byte [of NUL])+

lemma strchr_single: "strchr [d] c \<longleftrightarrow> c = d \<or> c = NUL"
  by (auto simp: strchr_def)

lemma good_token_single: "good_token [d] u \<longleftrightarrow> u \<noteq> [] \<and> d \<notin> set u \<and> NUL \<notin> set u"
  by (auto simp: good_token_def strchr_single)

lemma split_join_single:
  "\<forall>u \<in> set ts. u \<noteq> [] \<and> d \<notin> set u \<and> NUL \<notin> set u \<Longrightarrow> split (join ts [d]) [d] = ts"
  by (rule split_join) (auto simp: good_token_single strchr_single)

lemma decode_segments_encoded:
  "\<forall>s \<in> set ss. clean s \<Longrightarrow> decode_segments (map url_encode ss) = Inr ss"
  by (induction ss) (auto simp: clean_def url_encode_nonempty url_decode_encode)

lemma split_param:
  "clean k \<Longrightarrow> clean v \<Longrightarrow> split (param_str True (k, v)) ''='' = [url_encode k, url_encode v]"
  using split_join_single [of "[url_encode k, url_encode v]" "CHR ''=''"]
  by (auto simp: param_str_def clean_def url_encode_nonempty url_encode_free)

lemma parse_params_encoded:
  "\<forall>(k, v) \<in> set kvs. clean k \<and> clean v \<Longrightarrow>
     parse_params (map (param_str True) kvs) ps = Inr (fold (\<lambda>(k, v). dict_emplace k v) kvs ps)"
  by (induction kvs arbitrary: ps) (auto simp: split_param url_decode_encode clean_def)

lemma parse_file_append: "parse_file (out @ f) (length out) u = parse_file f 0 u"
  using find_from_append [of out f "''?''"] find_from_append [of "[]" f "''?''"]
  by (cases "find_aux ''?'' 0 f") (simp_all add: parse_file_def substr_def)

lemma parsePath_join:
  assumes "\<forall>s \<in> set ss. clean s"
  shows "parsePath (join (map url_encode ss) ''/'') u = Inr (u\<lparr>url_segments := url_segments u @ ss\<rparr>)"
proof (cases "ss = []")
  case False
  have "join (map url_encode ss) ''/'' \<noteq> []"
    using False assms by (cases ss) (auto simp: join_Cons clean_def url_encode_nonempty)
  moreover have "split (join (map url_encode ss) ''/'') ''/'' = map url_encode ss"
    using assms by (intro split_join_single) (auto simp: clean_def url_encode_nonempty url_encode_free)
  ultimately show ?thesis
    using decode_segments_encoded [OF assms] by (simp add: parsePath_def)
qed (simp add: parsePath_def)

lemma query_split:
  assumes "\<forall>(k, v) \<in> set kvs. clean k \<and> clean v"
  shows "split (join (map (param_str True) kvs) ''&'') ''&'' = map (param_str True) kvs"
  by (intro split_join_single)
    (auto simp: param_str_def url_encode_free char_eq_byte [of NUL] char_eq_byte [of _ NUL])

lemma path_no_query: "CHR ''?'' \<notin> set (join (map url_encode ss) ''/'')"
  using set_join [of "map url_encode ss" "''/''"] url_encode_free by auto

lemma parse_file_printed:
  assumes "\<forall>s \<in> set ss. clean s" "\<forall>(k, v) \<in> set kvs. clean k \<and> clean v" "dict_ok kvs"
    and "url_params u = []" "url_segments u = []"
  defines "path \<equiv> join (map url_encode ss) ''/''" and "query \<equiv> join (map (param_str True) kvs) ''&''"
  shows "parse_file (if query \<noteq> [] then path @ ''?'' @ query else path) 0 u =
    Inr (u\<lparr>url_segments := ss, url_params := kvs\<rparr>)"
proof (cases "kvs = []")
  case True
  then have "query = []" by (simp add: query_def)
  moreover have "find_from path ''?'' 0 = None"
    using path_no_query [of ss] by (simp add: find_from_def find_aux_char path_def)
  ultimately show ?thesis
    using True assms by (simp add: parse_file_def parsePath_join)
next
  case False
  then have "query \<noteq> []" by (cases kvs) (auto simp: query_def join_Cons param_str_def)
  moreover have "find_from (path @ CHR ''?'' # query) ''?'' 0 = Some (length path)"
    using find_from_delim [of "CHR ''?''" path "[]" query] path_no_query [of ss] by (simp add: path_def)
  moreover have "split query ''&'' = map (param_str True) kvs"
    using assms(2) query_split by (simp add: query_def)
  ultimately show ?thesis
    using assms parse_params_encoded [OF assms(2), of "[]"] fold_emplace_self [OF assms(3)]
    by (simp add: parse_file_def substr_def parsePath_join)
qed

lemma find_scheme: "c \<notin> set p \<Longrightarrow> find_aux (c # n) i (p @ c # n @ t) = Some (i + length p)"
  by (induction p arbitrary: i) auto

definition port_str :: "int \<Rightarrow> string" where
  "port_str p = (if 0 < p then '':'' @ int_str p else [])"

lemma int_str_pos: "0 < p \<Longrightarrow> int_str p = nat_digits (nat p)"
  by (simp add: int_str_def)

lemma nat_digits_not: "\<not> isdigit c \<Longrightarrow> c \<notin> set (nat_digits n)"
  using nat_digits_isdigit by blast

lemma parse_authority_printed:
  assumes "clean h" "CHR '':'' \<notin> set h" "CHR ''/'' \<notin> set h"
    and "p = - 1 \<or> 0 < p \<and> p < 2 ^ 31" "url_port u = - 1"
  shows "parse_authority (out @ h @ port_str p @ ''/'' @ f) (length out) u =
     parse_file f 0 (u\<lparr>url_host := h, url_port := p\<rparr>)"
proof -
  let ?auth = "h @ port_str p" and ?s = "out @ (h @ port_str p) @ CHR ''/'' # f"
  have digits: "CHR ''/'' \<notin> set (nat_digits n)" "CHR '':'' \<notin> set (nat_digits n)"
    "NUL \<notin> set (nat_digits n)" for n
    by (rule nat_digits_not, simp add: isdigit_def)+
  have "CHR ''/'' \<notin> set ?auth"
    using assms(3) digits by (simp add: port_str_def int_str_pos)
  then have pos: "find_from ?s ''/'' (length out) = Some (length out + length ?auth)"
    by (rule find_from_delim)
  have auth: "substr ?s (length out) (length out + length ?auth - length out) = ?auth"
    by (simp add: substr_def)
  have fil: "parse_file ?s (length out + length ?auth + 1) v = parse_file f 0 v" for v
    using parse_file_append [of "out @ ?auth @ ''/''" f v] by simp
  have toks: "split ?auth '':'' = (if 0 < p then [h, nat_digits (nat p)] else [h])"
    using split_join_single [of "[h]" "CHR '':''"] assms(1,2)
      split_join_single [of "[h, nat_digits (nat p)]" "CHR '':''"] digits
    by (auto simp: port_str_def int_str_pos clean_def)
  have "0 < p \<Longrightarrow> stoi (nat_digits (nat p)) = Inr p"
    using assms(4) stoi_nat_digits [of "nat p"] by auto
  then have "parse_authority ?s (length out) u = parse_file f 0 (u\<lparr>url_host := h, url_port := p\<rparr>)"
    unfolding parse_authority_def Let_def pos option.case auth toks fil
    using assms(4,5) by auto
  then show ?thesis by simp
qed

lemma parse_printed:
  assumes "url_ok u"
  shows "parse_url (url_str True u) empty_url = Inr u"
proof -
  note ok = assms [unfolded url_ok_def]
  let ?p = "url_protocol u" and ?f = "url_file True u"
  let ?rest = "url_host u @ port_str (url_port u) @ ''/'' @ ?f"
  have s: "url_str True u = (?p @ ''://'') @ ?rest"
    using ok by (simp add: url_str_def port_str_def)
  have scheme: "find_from (url_str True u) ''://'' 0 = Some (length ?p)"
    using ok find_scheme [of "CHR '':''" ?p "''//''" 0 ?rest] by (simp add: s find_from_def)
  have "parse_url (url_str True u) empty_url =
      parse_authority ((?p @ ''://'') @ ?rest) (length (?p @ ''://'')) (empty_url\<lparr>url_protocol := ?p\<rparr>)"
    unfolding parse_url_def scheme option.case by (simp add: substr_def s numeral_3_eq_3)
  also have "\<dots> = parse_file ?f 0 (empty_url\<lparr>url_protocol := ?p, url_host := url_host u, url_port := url_port u\<rparr>)"
    using ok by (subst parse_authority_printed) (auto simp: empty_url_def)
  also have "?f = (if join (map (param_str True) (url_params u)) ''&'' \<noteq> []
      then join (map url_encode (url_segments u)) ''/'' @ ''?'' @ join (map (param_str True) (url_params u)) ''&''
      else join (map url_encode (url_segments u)) ''/'')"
    using ok by (simp add: url_file_def makePathString_join makeQueryString_join Let_def)
  also have "parse_file \<dots> 0 (empty_url\<lparr>url_protocol := ?p, url_host := url_host u, url_port := url_port u\<rparr>) =
      Inr (empty_url\<lparr>url_protocol := ?p, url_host := url_host u, url_port := url_port u,
         url_segments := url_segments u, url_params := url_params u\<rparr>)"
    using ok by (subst parse_file_printed) (auto simp: empty_url_def)
  finally show ?thesis using ok by (simp add: empty_url_def)
qed

section \<open>Normal paths\<close>

definition normal_segment :: "string \<Rightarrow> bool" where
  "normal_segment s \<longleftrightarrow> s \<noteq> [] \<and> s \<noteq> ''.'' \<and> s \<noteq> ''..''"

lemma list_all_butlast: "list_all P xs \<Longrightarrow> list_all P (butlast xs)"
  by (auto simp: list_all_iff dest: in_set_butlastD)

lemma normalize_segments_normal:
  "list_all normal_segment dst \<Longrightarrow> list_all normal_segment (normalize_segments segs dst)"
proof (induction segs dst rule: normalize_segments.induct)
  case (2 seg segs dst)
  show ?case
  proof (cases "normal_segment seg")
    case True
    with "2.prems" have "list_all normal_segment (dst @ [seg])" by simp
    with True "2.IH" show ?thesis unfolding normal_segment_def by simp
  next
    case False
    then consider "seg = []" | "seg = ''.''" | "seg = ''..''" by (auto simp: normal_segment_def)
    then show ?thesis using "2" list_all_butlast [OF "2.prems"] by cases simp_all
  qed
qed simp

lemma normalize_segments_id:
  "\<forall>s \<in> set segs. normal_segment s \<Longrightarrow> normalize_segments segs dst = dst @ segs"
  by (induction segs arbitrary: dst) (auto simp: normal_segment_def)

lemma normalize_segments_append:
  "normalize_segments (as @ bs) dst = normalize_segments bs (normalize_segments as dst)"
  by (induction as arbitrary: dst) auto

lemma normalize_segments_set: "set (normalize_segments segs dst) \<subseteq> set segs \<union> set dst"
proof (induction segs arbitrary: dst)
  case (Cons seg segs)
  have "set (butlast dst) \<subseteq> set dst" by (auto dest: in_set_butlastD)
  then show ?case
    using Cons.IH [of dst] Cons.IH [of "butlast dst"] Cons.IH [of "dst @ [seg]"] by auto
qed simp

text \<open>A parent reference takes back the segment before it, whatever precedes the pair.\<close>

lemma normalize_segments_parent:
  "normal_segment s \<Longrightarrow>
     normalize_segments (as @ s # ''..'' # bs) dst = normalize_segments (as @ bs) dst"
  by (simp add: normalize_segments_append normal_segment_def)

section \<open>Properties\<close>


definition sample_url :: url where
  "sample_url = empty_url\<lparr>url_protocol := ''https'', url_host := ''h.org'', url_port := 8080,
     url_params := [(''q'', ''a b''), (''r'', ''c/d'')], url_segments := [''x y'', ''..'']\<rparr>"


text \<open>Path normalisation leaves no empty, \<^verbatim>\<open>.\<close> or \<^verbatim>\<open>..\<close> segment, invents no segment, drops
  each segment a \<^verbatim>\<open>..\<close> follows and is the identity on what it returns.\<close>

lemma normalizePath_canonical:
  "list_all normal_segment (url_segments (normalizePath u)) \<and>
   set (url_segments (normalizePath u)) \<subseteq> set (url_segments u) \<and>
   normalizePath (normalizePath u) = normalizePath u \<and>
   normalizePath (u\<lparr>url_segments := as @ [''a'', ''..''] @ [''b''] @ bs\<rparr>) =
     normalizePath (u\<lparr>url_segments := as @ [''b''] @ bs\<rparr>)"
proof -
  let ?segs = "url_segments u"
  have "list_all normal_segment (normalize_segments ?segs [])"
    by (rule normalize_segments_normal) simp
  then have normal: "\<forall>s \<in> set (normalize_segments ?segs []). normal_segment s"
    by (simp add: list_all_iff)
  have "normalize_segments (as @ ''a'' # ''..'' # ''b'' # bs) [] = normalize_segments (as @ ''b'' # bs) []"
    by (rule normalize_segments_parent) (simp add: normal_segment_def)
  with normal show ?thesis
    using normalize_segments_set [of ?segs "[]"]
    by (auto simp: normalizePath_def list_all_iff normalize_segments_id)
qed

text \<open>A URL whose authority is empty (as in \<^verbatim>\<open>file:///x\<close>) makes the parser read the first
  element of an empty vector, and a port that is no number makes it throw.\<close>

lemma url_parse_faults:
  assumes "CHR '':'' \<notin> set p" "clean h" "CHR '':'' \<notin> set h" "CHR ''/'' \<notin> set h"
    and "clean d" "CHR '':'' \<notin> set d" "CHR ''/'' \<notin> set d" "stoi d = Inl e"
  shows "URL (p @ '':///'' @ f) = Inl Undefined \<and> URL (p @ ''://'' @ h @ '':'' @ d @ ''/'' @ f) = Inl e"
proof -
  have scheme: "find_from (p @ ''://'' @ r) ''://'' 0 = Some (length p)" for r
    using assms(1) find_scheme [of "CHR '':''" p "''//''" 0 r] by (simp add: find_from_def)
  have url: "URL (p @ ''://'' @ r) =
      parse_authority ((p @ ''://'') @ r) (length (p @ ''://'')) (empty_url\<lparr>url_protocol := p\<rparr>)" for r
    unfolding URL_def parse_url_def scheme option.case by (simp add: substr_def numeral_3_eq_3)
  have auth: "parse_authority ((p @ ''://'') @ a @ ''/'' @ f) (length (p @ ''://'')) u =
      (case split a '':'' of
         [] \<Rightarrow> Inl Undefined
       | host # toks \<Rightarrow>
           rbind (case toks of [] \<Rightarrow> Inr (url_port u) | q # _ \<Rightarrow> stoi q) (\<lambda>port.
             parse_file ((p @ ''://'') @ a @ ''/'' @ f) (length (p @ ''://'') + length a + 1)
               (u\<lparr>url_host := host, url_port := port\<rparr>)))" if "CHR ''/'' \<notin> set a" for a u
    using find_from_delim [OF that, of "p @ ''://''" f]
    by (simp add: parse_authority_def substr_def Let_def split: list.splits)
  have "split (h @ '':'' @ d) '':'' = [h, d]"
    using split_join_single [of "[h, d]" "CHR '':''"] assms by (auto simp: clean_def)
  then show ?thesis
    using url [of "''/'' @ f"] auth [of "[]"] url [of "(h @ '':'' @ d) @ ''/'' @ f"]
      auth [of "h @ '':'' @ d"] assms
    by simp
qed

lemma url_parse_faults_witness:
  "URL (''file'' @ '':///'' @ ''x'') = Inl Undefined \<and>
   URL (''http'' @ ''://'' @ ''h'' @ '':'' @ ''x1'' @ ''/'' @ ''i'') = Inl Invalid_argument"
  using url_parse_faults [of "''file''" "''h''" "''x1''" Invalid_argument "''x''"]
    url_parse_faults [of "''http''" "''h''" "''x1''" Invalid_argument "''i''"]
  by (simp add: clean_def char_eq_byte [of NUL] stoi_def strip_sign_def isdigit_def isspace_def)

end
