(* ===== verification/Regex.thy ===== *)
theory Regex
  imports Prelude
begin

text \<open>
  The part of \<^verbatim>\<open>std::regex\<close> (ECMAScript syntax) the program uses: alternation, groups, look-ahead,
  greedy and lazy quantifiers, character classes and anchors.  A pattern is cut into tokens,
  the tokens are read by a machine with an explicit stack of open groups, and the matcher
  enumerates the ways to match in order of preference, as the backtracking search does.  Back
  references, word boundaries, counted repetition, POSIX classes and numeric escapes are outside the
  subset and are refused as a malformed pattern is.
\<close>

section \<open>Syntax\<close>

datatype class_item =
    Range char char
  | Digit
  | NotDigit
  | Space
  | NotSpace
  | Wordc
  | NotWordc

datatype re =
    Empty
  | Any
  | Lit char
  | Class bool "class_item list"
  | Seq re re
  | Alt re re
  | Star bool re
  | Opt bool re
  | Plus bool re
  | Group nat re
  | Look bool re
  | Bol
  | Eol

text \<open>The flag of a class says that it is negated, that of a quantifier that it is greedy, and that
  of a look-ahead that it is positive.\<close>

datatype tok =
    TAtom re
  | TOpen
  | TOpenNC
  | TLook bool
  | TClose
  | TBar
  | TStar bool
  | TPlus bool
  | TOpt bool

definition regex_error :: fault where
  "regex_error = Runtime_error ''regex_error''"

definition class_escape :: "char \<Rightarrow> class_item option" where
  "class_escape c =
     (if c = CHR ''d'' then Some Digit
      else if c = CHR ''D'' then Some NotDigit
      else if c = CHR ''s'' then Some Space
      else if c = CHR ''S'' then Some NotSpace
      else if c = CHR ''w'' then Some Wordc
      else if c = CHR ''W'' then Some NotWordc
      else None)"

definition char_escape :: "char \<Rightarrow> char result" where
  "char_escape c =
     (if c = CHR ''t'' then Inr TAB
      else if c = CHR ''n'' then Inr LF
      else if c = CHR ''r'' then Inr CR
      else if c = CHR ''f'' then Inr FF
      else if c = CHR ''v'' then Inr VT
      else if isalnum c then Inl regex_error
      else Inr c)"

definition lazy :: "string \<Rightarrow> bool" where
  "lazy s \<longleftrightarrow> (case s of c # _ \<Rightarrow> c = CHR ''?'' | [] \<Rightarrow> False)"

definition quant :: "(bool \<Rightarrow> tok) \<Rightarrow> string \<Rightarrow> tok" where
  "quant f s = f (\<not> lazy s)"

fun lex :: "string \<Rightarrow> tok list result"
and lex_class :: "bool \<Rightarrow> class_item list \<Rightarrow> string \<Rightarrow> tok list result" where
  "lex [] = Inr []"
| "lex (c # s) =
     (if byte c = 92 then
        (case s of
           [] \<Rightarrow> Inl regex_error
         | d # s' \<Rightarrow>
             (case class_escape d of
                Some it \<Rightarrow> rmap (Cons (TAtom (Class False [it]))) (lex s')
              | None \<Rightarrow> rbind (char_escape d) (\<lambda>e. rmap (Cons (TAtom (Lit e))) (lex s'))))
      else if c = CHR ''['' then
        (case s of
           d # s' \<Rightarrow> if d = CHR ''^'' then lex_class True [] s' else lex_class False [] s
         | [] \<Rightarrow> Inl regex_error)
      else if c = CHR ''('' then
        (case s of
           d # e # s' \<Rightarrow>
             if d = CHR ''?'' then
               (if e = CHR '':'' then rmap (Cons TOpenNC) (lex s')
                else if e = CHR ''='' then rmap (Cons (TLook True)) (lex s')
                else if e = CHR ''!'' then rmap (Cons (TLook False)) (lex s')
                else Inl regex_error)
             else rmap (Cons TOpen) (lex s)
         | _ \<Rightarrow> rmap (Cons TOpen) (lex s))
      else if c = CHR '')'' then rmap (Cons TClose) (lex s)
      else if c = CHR ''|'' then rmap (Cons TBar) (lex s)
      else if c = CHR ''*'' then rmap (Cons (quant TStar s)) (lex (if lazy s then tl s else s))
      else if c = CHR ''+'' then rmap (Cons (quant TPlus s)) (lex (if lazy s then tl s else s))
      else if c = CHR ''?'' then rmap (Cons (quant TOpt s)) (lex (if lazy s then tl s else s))
      else if c = CHR ''{'' \<or> c = CHR ''}'' then Inl regex_error
      else if c = CHR ''.'' then rmap (Cons (TAtom Any)) (lex s)
      else if c = CHR ''^'' then rmap (Cons (TAtom Bol)) (lex s)
      else if c = CHR ''$'' then rmap (Cons (TAtom Eol)) (lex s)
      else rmap (Cons (TAtom (Lit c))) (lex s))"
| "lex_class neg items [] = Inl regex_error"
| "lex_class neg items (c # s) =
     (if c = CHR '']'' then rmap (Cons (TAtom (Class neg items))) (lex s)
      else if byte c = 92 then
        (case s of
           [] \<Rightarrow> Inl regex_error
         | d # s' \<Rightarrow>
             (case class_escape d of
                Some it \<Rightarrow> lex_class neg (items @ [it]) s'
              | None \<Rightarrow> rbind (char_escape d) (\<lambda>e. lex_class neg (items @ [Range e e]) s')))
      else if c = CHR ''['' \<and> s \<noteq> [] \<and> hd s \<in> set '':.='' then Inl regex_error
      else
        (case s of
           d # e # s' \<Rightarrow>
             if d = CHR ''-'' \<and> e \<noteq> CHR '']'' then
               (if byte e = 92 \<or> byte e < byte c then Inl regex_error
                else lex_class neg (items @ [Range c e]) s')
             else lex_class neg (items @ [Range c c]) s
         | _ \<Rightarrow> lex_class neg (items @ [Range c c]) s))"

text \<open>
  The reader: a frame is an open group, its finished alternatives and the terms of the one being
  read, both latest first.
\<close>

datatype gkind = KTop | KCap nat | KNC | KLook bool

type_synonym frame = "gkind \<times> re list \<times> re list"

fun seq_of :: "re list \<Rightarrow> re" where
  "seq_of [] = Empty"
| "seq_of [r] = r"
| "seq_of (r # rs) = Seq r (seq_of rs)"

fun alt_of :: "re list \<Rightarrow> re" where
  "alt_of [] = Empty"
| "alt_of [r] = r"
| "alt_of (r # rs) = Alt r (alt_of rs)"

definition close_frame :: "frame \<Rightarrow> re" where
  "close_frame f =
     (case f of (k, alts, cur) \<Rightarrow>
        (let r = alt_of (rev (seq_of (rev cur) # alts))
         in case k of KCap n \<Rightarrow> Group n r | KLook b \<Rightarrow> Look b r | _ \<Rightarrow> r))"

definition quantifiable :: "re \<Rightarrow> bool" where
  "quantifiable r = (case r of Bol \<Rightarrow> False | Eol \<Rightarrow> False | Look _ _ \<Rightarrow> False | _ \<Rightarrow> True)"

fun quantify :: "(re \<Rightarrow> re) \<Rightarrow> frame \<Rightarrow> frame result" where
  "quantify f (k, alts, []) = Inl regex_error"
| "quantify f (k, alts, r # cur) =
     (if quantifiable r then Inr (k, alts, f r # cur) else Inl regex_error)"

fun read_toks :: "tok list \<Rightarrow> nat \<Rightarrow> frame list \<Rightarrow> frame \<Rightarrow> re result" where
  "read_toks [] n [] f = Inr (close_frame f)"
| "read_toks [] n (g # st) f = Inl regex_error"
| "read_toks (TAtom r # ts) n st (k, alts, cur) = read_toks ts n st (k, alts, r # cur)"
| "read_toks (TOpen # ts) n st f = read_toks ts (Suc n) (f # st) (KCap n, [], [])"
| "read_toks (TOpenNC # ts) n st f = read_toks ts n (f # st) (KNC, [], [])"
| "read_toks (TLook b # ts) n st f = read_toks ts n (f # st) (KLook b, [], [])"
| "read_toks (TClose # ts) n [] f = Inl regex_error"
| "read_toks (TClose # ts) n ((k, alts, cur) # st) f = read_toks ts n st (k, alts, close_frame f # cur)"
| "read_toks (TBar # ts) n st (k, alts, cur) = read_toks ts n st (k, seq_of (rev cur) # alts, [])"
| "read_toks (TStar g # ts) n st f = rbind (quantify (Star g) f) (read_toks ts n st)"
| "read_toks (TPlus g # ts) n st f = rbind (quantify (Plus g) f) (read_toks ts n st)"
| "read_toks (TOpt g # ts) n st f = rbind (quantify (Opt g) f) (read_toks ts n st)"

text \<open>\<^verbatim>\<open>std::regex rx(s)\<close>\<close>

definition regex :: "string \<Rightarrow> re result" where
  "regex s = rbind (lex s) (\<lambda>ts. read_toks ts 1 [] (KTop, [], []))"

section \<open>Matching\<close>

text \<open>
  A state of the search is the position in the subject, what is left of the subject, and the
  captures so far.
\<close>

type_synonym caps = "nat \<Rightarrow> string option"
type_synonym mstate = "nat \<times> string \<times> caps"

fun item_matches :: "class_item \<Rightarrow> char \<Rightarrow> bool" where
  "item_matches (Range a b) c \<longleftrightarrow> byte a \<le> byte c \<and> byte c \<le> byte b"
| "item_matches Digit c \<longleftrightarrow> isdigit c"
| "item_matches NotDigit c \<longleftrightarrow> \<not> isdigit c"
| "item_matches Space c \<longleftrightarrow> isspace c"
| "item_matches NotSpace c \<longleftrightarrow> \<not> isspace c"
| "item_matches Wordc c \<longleftrightarrow> isalnum c \<or> c = CHR ''_''"
| "item_matches NotWordc c \<longleftrightarrow> \<not> (isalnum c \<or> c = CHR ''_'')"

definition step_char :: "(char \<Rightarrow> bool) \<Rightarrow> mstate \<Rightarrow> mstate list" where
  "step_char P st =
     (case st of (i, s, cs) \<Rightarrow>
        (case s of c # s' \<Rightarrow> if P c then [(Suc i, s', cs)] else [] | [] \<Rightarrow> []))"

text \<open>Repetition: an iteration that consumes nothing ends it, so as many rounds as there are
  characters left are enough.\<close>

fun repeat :: "nat \<Rightarrow> bool \<Rightarrow> (mstate \<Rightarrow> mstate list) \<Rightarrow> mstate \<Rightarrow> mstate list" where
  "repeat 0 greedy f st = [st]"
| "repeat (Suc n) greedy f st =
     (let more = concat (map (repeat n greedy f) (filter (\<lambda>st'. fst st < fst st') (f st)))
      in if greedy then more @ [st] else st # more)"

fun search :: "re \<Rightarrow> mstate \<Rightarrow> mstate list" where
  "search Empty st = [st]"
| "search Any st = step_char (\<lambda>c. c \<noteq> LF \<and> c \<noteq> CR) st"
| "search (Lit a) st = step_char (\<lambda>c. c = a) st"
| "search (Class neg items) st = step_char (\<lambda>c. (\<exists>it \<in> set items. item_matches it c) \<noteq> neg) st"
| "search (Seq r q) st = concat (map (search q) (search r st))"
| "search (Alt r q) st = search r st @ search q st"
| "search (Star g r) st = repeat (length (fst (snd st))) g (search r) st"
| "search (Opt g r) st = (if g then search r st @ [st] else st # search r st)"
| "search (Plus g r) st =
     concat (map (\<lambda>st'. repeat (length (fst (snd st'))) g (search r) st') (search r st))"
| "search (Group n r) st =
     map (\<lambda>(i, s, cs). (i, s, cs(n \<mapsto> take (i - fst st) (fst (snd st))))) (search r st)"
| "search (Look pos r) st =
     (if pos then (case search r st of [] \<Rightarrow> [] | (_, _, cs) # _ \<Rightarrow> [(fst st, fst (snd st), cs)])
      else (if search r st = [] then [st] else []))"
| "search Bol st = (if fst st = 0 then [st] else [])"
| "search Eol st = (if fst (snd st) = [] then [st] else [])"

definition no_caps :: caps where
  "no_caps = (\<lambda>_. None)"

text \<open>\<^verbatim>\<open>regex_match(s, results, rx)\<close>: the captures of the preferred match of the whole subject;
  \<^verbatim>\<open>results[k].str()\<close> is empty for a group that took no part.\<close>

definition regex_match :: "re \<Rightarrow> string \<Rightarrow> caps option" where
  "regex_match r s =
     (case filter (\<lambda>(i, t, cs). t = []) (search r (0, s, no_caps)) of
        [] \<Rightarrow> None
      | (_, _, cs) # _ \<Rightarrow> Some (cs(0 \<mapsto> s)))"

definition sub :: "caps \<Rightarrow> nat \<Rightarrow> string" where
  "sub cs k = (case cs k of None \<Rightarrow> [] | Some t \<Rightarrow> t)"

text \<open>\<^verbatim>\<open>regex_search\<close> from a position on: position and length of the leftmost match.\<close>

fun search_from :: "re \<Rightarrow> nat \<Rightarrow> string \<Rightarrow> (nat \<times> nat) option" where
  "search_from r i [] =
     (case search r (i, [], no_caps) of (j, _) # _ \<Rightarrow> Some (i, j - i) | [] \<Rightarrow> None)"
| "search_from r i (c # s) =
     (case search r (i, c # s, no_caps) of
        (j, _) # _ \<Rightarrow> Some (i, j - i)
      | [] \<Rightarrow> search_from r (Suc i) s)"

text \<open>
  \<^verbatim>\<open>sregex_token_iterator(s.begin(), s.end(), rx, -1)\<close> for an expression that matches no empty
  string: the pieces between the matches, the last one only when it is not empty.
\<close>

function regex_split_from :: "re \<Rightarrow> nat \<Rightarrow> string \<Rightarrow> string list" where
  "regex_split_from r i s =
     (case search_from r i s of
        Some (p, n) \<Rightarrow>
          if n = 0 \<or> p < i \<or> s = [] then [s]
          else (let rest = drop (p - i + n) s
                in take (p - i) s # (if rest = [] then [] else regex_split_from r (p + n) rest))
      | None \<Rightarrow> [s])"
  by pat_completeness auto
termination
  by (relation "measure (\<lambda>(r, i, s). length s)") auto

declare regex_split_from.simps [simp del]

definition regex_split :: "re \<Rightarrow> string \<Rightarrow> string list" where
  "regex_split r s = regex_split_from r 0 s"

section \<open>What the matcher returns\<close>

text \<open>Every match ends further on in the same subject, so no round of a repetition is cut short by
  the bound on the rounds.\<close>

definition follows :: "mstate \<Rightarrow> mstate \<Rightarrow> bool" where
  "follows st st' \<longleftrightarrow>
     fst st \<le> fst st' \<and> fst st' - fst st \<le> length (fst (snd st)) \<and>
     fst (snd st') = drop (fst st' - fst st) (fst (snd st))"

lemma follows_refl [simp]: "follows st st"
  by (simp add: follows_def)

lemma follows_trans: "follows a b \<Longrightarrow> follows b c \<Longrightarrow> follows a c"
  by (auto simp: follows_def)

lemma step_char_follows: "st' \<in> set (step_char P st) \<Longrightarrow> follows st st'"
  by (auto simp: step_char_def follows_def split: prod.splits list.splits if_splits)

lemma repeat_follows:
  assumes f: "\<And>a b. b \<in> set (f a) \<Longrightarrow> follows a b"
  shows "st' \<in> set (repeat n g f st) \<Longrightarrow> follows st st'"
proof (induction n arbitrary: st)
  case (Suc n)
  then consider "st' = st"
    | st1 where "st1 \<in> set (f st)" "st' \<in> set (repeat n g f st1)"
    by (auto simp: Let_def split: if_splits)
  then show ?case
  proof cases
    case 2
    from f [OF 2(1)] Suc.IH [OF 2(2)] show ?thesis by (rule follows_trans)
  qed simp
qed simp

lemma search_follows: "st' \<in> set (search r st) \<Longrightarrow> follows st st'"
proof (induction r arbitrary: st st')
  case (Seq r q)
  then obtain st1 where "st1 \<in> set (search r st)" "st' \<in> set (search q st1)" by auto
  with Seq.IH show ?case using follows_trans by blast
next
  case (Group n r)
  from Group.prems obtain i s cs where "(i, s, cs) \<in> set (search r st)"
    and st': "st' = (i, s, cs(n \<mapsto> take (i - fst st) (fst (snd st))))" by auto
  from Group.IH [OF this(1)] show ?case by (simp add: st' follows_def)
next
  case (Look pos r)
  then show ?case by (auto simp: follows_def split: if_splits list.splits)
next
  case (Star g r)
  from Star.prems have "st' \<in> set (repeat (length (fst (snd st))) g (search r) st)" by simp
  with Star.IH show ?case by (rule repeat_follows)
next
  case (Plus g r)
  then obtain st1 where 1: "st1 \<in> set (search r st)"
    and 2: "st' \<in> set (repeat (length (fst (snd st1))) g (search r) st1)" by auto
  from Plus.IH 2 have "follows st1 st'" by (rule repeat_follows)
  with Plus.IH [OF 1] show ?case by (rule follows_trans)
next
  case (Opt g r)
  from Opt.prems have "st' = st \<or> st' \<in> set (search r st)" by (auto split: if_splits)
  with Opt.IH [of st' st] show ?case by (metis follows_refl)
next
  case (Alt r q)
  from Alt.prems have "st' \<in> set (search r st) \<or> st' \<in> set (search q st)" by simp
  with Alt.IH(1) [of st' st] Alt.IH(2) [of st' st] show ?case by blast
qed (simp_all add: step_char_follows split: if_splits)

lemma repeat_enough:
  assumes "\<And>a b. b \<in> set (f a) \<Longrightarrow> follows a b" and "length (fst (snd st)) \<le> n"
  shows "repeat n g f st = repeat (length (fst (snd st))) g f st"
  using assms(2)
proof (induction "length (fst (snd st))" arbitrary: st n rule: less_induct)
  case less
  let ?next = "filter (\<lambda>st'. fst st < fst st') (f st)"
  show ?case
  proof (cases "fst (snd st) = []")
    case True
    have "?next = []"
      using assms(1) [of _ st] True by (force simp: filter_empty_conv follows_def)
    then show ?thesis using True by (cases n) (auto simp: Let_def)
  next
    case False
    then obtain m where m: "length (fst (snd st)) = Suc m" by (cases "fst (snd st)") auto
    with less.prems obtain k where k: "n = Suc k" "m \<le> k" by (cases n) auto
    have "repeat k g f st' = repeat m g f st'" if "st' \<in> set ?next" for st'
    proof -
      from that assms(1) have "follows st st'" "fst st < fst st'" by auto
      with m have "length (fst (snd st')) \<le> m" by (auto simp: follows_def)
      with less.hyps [of st' k] less.hyps [of st' m] k m show ?thesis by simp
    qed
    then have "map (repeat k g f) ?next = map (repeat m g f) ?next" by simp
    then show ?thesis by (simp only: m k repeat.simps)
  qed
qed

section \<open>Runs of one class\<close>

lemma search_seq_of: "search (seq_of (r # rs)) st = concat (map (search (seq_of rs)) (search r st))"
proof (cases rs)
  case Nil
  have "search Empty = (\<lambda>st. [st])" by (simp add: fun_eq_iff)
  with Nil show ?thesis by simp
qed simp

lemma repeat_char:
  "length s \<le> n \<Longrightarrow>
     repeat n True (step_char P) (i, s, cs) =
       map (\<lambda>k. (i + k, drop k s, cs)) (rev [0..<Suc (length (takeWhile P s))])"
proof (induction n arbitrary: i s)
  case (Suc n)
  show ?case
  proof (cases s)
    case (Cons c t)
    show ?thesis
    proof (cases "P c")
      case True
      then have "repeat (Suc n) True (step_char P) (i, s, cs) =
          repeat n True (step_char P) (Suc i, t, cs) @ [(i, s, cs)]"
        by (simp add: Cons step_char_def)
      also have "\<dots> = map (\<lambda>k. (Suc i + k, drop k t, cs)) (rev [0..<Suc (length (takeWhile P t))]) @ [(i, s, cs)]"
        using Suc Cons by simp
      also have "\<dots> = map (\<lambda>k. (i + k, drop k s, cs)) (rev (0 # map Suc [0..<Suc (length (takeWhile P t))]))"
        by (simp add: Cons rev_map)
      also have "0 # map Suc [0..<Suc (length (takeWhile P t))] = [0..<Suc (length (takeWhile P s))]"
        using True Cons by (simp add: map_Suc_upt upt_conv_Cons del: upt_Suc)
      finally show ?thesis .
    qed (simp add: Cons step_char_def)
  qed (simp add: step_char_def)
qed simp

lemma repeat_char_simple:
  "repeat (length s) True (step_char P) (i, s, cs) =
     map (\<lambda>k. (i + k, drop k s, cs)) (rev [0..<Suc (length (takeWhile P s))])"
  by (rule repeat_char) simp

end
