(* ===== verification/Route.thy ===== *)
theory Route
  imports Regex Dict Util
begin

text \<open>
  \<^verbatim>\<open>src/route.cpp\<close> and \<^verbatim>\<open>include/wsrv/route.hpp\<close>: route patterns are cut into elements by a
  state machine, the elements are turned into one regular expression, and matching a path reads
  the parameters from the captures.  A failed \<^verbatim>\<open>assert\<close> is a fault, so this is the program built
  without \<^verbatim>\<open>NDEBUG\<close>.
\<close>

section \<open>Elements\<close>

record route_element =
  re_name :: string
  re_pattern :: string
  re_optional :: bool
  re_idx :: int

definition RouteElement :: "string \<Rightarrow> string \<Rightarrow> bool \<Rightarrow> int \<Rightarrow> route_element" where
  "RouteElement name pat opt idx =
     \<lparr>re_name = name, re_pattern = pat, re_optional = opt, re_idx = idx\<rparr>"

datatype route_state = Token | Element | Param | RegexSt

text \<open>
  The loop of \<^verbatim>\<open>RouteImpl::parse\<close>: it returns whether the pattern is well formed and the elements
  emplaced so far.  \<^verbatim>\<open>cursor--\<close> is the call that hands the same character to the next state.
\<close>

function parse_loop :: "route_state \<Rightarrow> string \<Rightarrow> string \<Rightarrow> bool \<Rightarrow> int \<Rightarrow> route_element list \<Rightarrow> string
    \<Rightarrow> bool \<times> route_element list" where
  "parse_loop state name pat opt idx els [] = (True, els)"
| "parse_loop state name pat opt idx els (c # cs) =
     (case state of
        Token \<Rightarrow>
          if c = CHR ''/'' \<or> cs = [] then
            (if name = []
             then parse_loop Element [] [] False idx (els @ [RouteElement name pat opt (- 1)]) cs
             else parse_loop Element [] [] False (idx + 1) (els @ [RouteElement name pat opt (idx + 1)]) cs)
          else if c = CHR ''?'' then parse_loop Token name pat True idx els cs
          else (False, els)
      | Param \<Rightarrow>
          if c = CHR '':'' then parse_loop RegexSt name pat opt idx els cs
          else if c = CHR ''}'' then parse_loop Token name pat opt idx els cs
          else if isalnum c \<or> c = CHR ''_'' \<or> c = CHR ''-''
          then parse_loop Param (name @ [c]) pat opt idx els cs
          else (False, els)
      | RegexSt \<Rightarrow>
          if c = CHR ''}'' then parse_loop Token name pat opt idx els cs
          else parse_loop RegexSt name (pat @ [c]) opt idx els cs
      | Element \<Rightarrow>
          if c = CHR ''{'' then
            (if pat \<noteq> [] then (False, els) else parse_loop Param name pat opt idx els cs)
          else if cs = [] then parse_loop Element name pat opt idx (els @ [RouteElement name pat opt (- 1)]) cs
          else if c = CHR ''/'' then parse_loop Token name pat opt idx els (c # cs)
          else parse_loop Element name (pat @ [c]) opt idx els cs)"
  by pat_completeness auto
termination
  by (relation "measure (\<lambda>(state, name, pat, opt, idx, els, s).
        2 * length s + (if state = Element then 1 else 0))") auto

definition parse_route :: "string \<Rightarrow> bool \<times> route_element list" where
  "parse_route pattern =
     parse_loop Element [] [] False 0 []
       (case pattern of c # cs \<Rightarrow> if c = CHR ''/'' then cs else pattern | [] \<Rightarrow> [])"

section \<open>The regular expression of a route\<close>

definition element_pattern :: "route_element \<Rightarrow> string" where
  "element_pattern e =
     (let pattern = (if re_pattern e = [] then ''[^'' @ [BSL] @ ''/]+'' else re_pattern e)
      in if re_name e \<noteq> [] then ''('' @ pattern @ '')'' else ''(?:'' @ pattern @ '')'')"

fun number_captures :: "int \<Rightarrow> route_element list \<Rightarrow> route_element list" where
  "number_captures n [] = []"
| "number_captures n (e # es) =
     (if re_name e \<noteq> [] then e\<lparr>re_idx := n\<rparr> # number_captures (n + 1) es
      else e # number_captures n es)"

definition route_regex_string :: "route_element list \<Rightarrow> string" where
  "route_regex_string els =
     ''^'' @ [BSL] @ ''/'' @
     concat (map (\<lambda>e. if re_optional e then ''(?:'' @ element_pattern e @ [BSL] @ ''/)?''
                      else ''(?:'' @ element_pattern e @ [BSL] @ ''/)'') els) @
     ''$''"

record route_impl =
  ri_elements :: "route_element list"
  ri_pattern :: string
  ri_rx :: "re option"

text \<open>A malformed expression is reported and leaves the default expression, which matches nothing.\<close>

definition makeRegexFromPattern :: "route_impl \<Rightarrow> route_impl" where
  "makeRegexFromPattern ri =
     (let els = number_captures 1 (ri_elements ri)
      in ri\<lparr>ri_elements := els,
            ri_rx := (case regex (route_regex_string els) of Inr rx \<Rightarrow> Some rx | Inl _ \<Rightarrow> ri_rx ri)\<rparr>)"

definition RouteImpl :: "string \<Rightarrow> route_impl result" where
  "RouteImpl pattern =
     (if pattern = [] then Inl Undefined
      else
        (let pat = (if last pattern = CHR ''/'' then pattern else pattern @ ''/'');
             (ok, els) = parse_route pat
         in if \<not> ok then Inl Aborted
            else Inr (makeRegexFromPattern \<lparr>ri_elements = els, ri_pattern = pat, ri_rx = None\<rparr>)))"

section \<open>Matching and reverse routing\<close>

definition match_vars :: "caps \<Rightarrow> route_element list \<Rightarrow> dict \<Rightarrow> dict" where
  "match_vars results els vars =
     fold (\<lambda>e vars.
       if 0 < re_idx e
       then (let val = sub results (nat (re_idx e))
             in if val \<noteq> [] then dict_set (re_name e) val vars else vars)
       else vars) els vars"

definition route_impl_match :: "route_impl \<Rightarrow> string \<Rightarrow> dict \<Rightarrow> bool \<times> dict" where
  "route_impl_match ri path vars =
     (case ri_rx ri of
        None \<Rightarrow> (False, vars)
      | Some rx \<Rightarrow>
          (case regex_match rx path of
             None \<Rightarrow> (False, vars)
           | Some results \<Rightarrow> (True, match_vars results (ri_elements ri) vars)))"

fun url_loop :: "dict \<Rightarrow> string \<Rightarrow> route_element list \<Rightarrow> string" where
  "url_loop params res [] = res"
| "url_loop params res (e # es) =
     (if re_name e = [] then url_loop params (res @ re_pattern e @ ''/'') es
      else
        (case map_of params (re_name e) of
           None \<Rightarrow> if re_optional e then res else url_loop params res es
         | Some v \<Rightarrow> url_loop params (res @ v @ ''/'') es))"

definition route_impl_url :: "route_impl \<Rightarrow> dict \<Rightarrow> bool \<Rightarrow> string" where
  "route_impl_url ri params relative =
     url_loop params (if \<not> relative then ''/'' else []) (ri_elements ri)"

record route =
  r_impl :: route_impl
  r_name :: string

definition Route :: "string \<Rightarrow> route result" where
  "Route pattern = rmap (\<lambda>ri. \<lparr>r_impl = ri, r_name = []\<rparr>) (RouteImpl pattern)"

definition setName :: "string \<Rightarrow> route \<Rightarrow> route" where
  "setName n r = r\<lparr>r_name := n\<rparr>"

definition get_clean_path :: "string \<Rightarrow> string result" where
  "get_clean_path path =
     (if path = [] then Inl Undefined
      else if last path \<noteq> CHR ''/'' then Inr (path @ ''/'') else Inr path)"

definition route_matches :: "route \<Rightarrow> string \<Rightarrow> dict \<Rightarrow> (bool \<times> dict) result" where
  "route_matches r path vars = rmap (\<lambda>p. route_impl_match (r_impl r) p vars) (get_clean_path path)"

definition route_matches_only :: "route \<Rightarrow> string \<Rightarrow> bool result" where
  "route_matches_only r path = rmap fst (route_matches r path [])"

definition route_url :: "route \<Rightarrow> dict \<Rightarrow> bool \<Rightarrow> string" where
  "route_url r params relative = route_impl_url (r_impl r) params relative"

section \<open>Routes of literals and plain parameters\<close>

text \<open>
  The specification: a route is a list of segments, a path a list of strings without slashes, and
  they match element by element.
\<close>

datatype seg = SLit string | SPar string

definition name_char :: "char \<Rightarrow> bool" where
  "name_char c \<longleftrightarrow> isalnum c \<or> c = CHR ''_'' \<or> c = CHR ''-''"

fun seg_str :: "seg \<Rightarrow> string" where
  "seg_str (SLit l) = l"
| "seg_str (SPar n) = ''{'' @ n @ ''}''"

fun seg_ok :: "seg \<Rightarrow> bool" where
  "seg_ok (SLit l) \<longleftrightarrow> l \<noteq> [] \<and> list_all name_char l"
| "seg_ok (SPar n) \<longleftrightarrow> n \<noteq> [] \<and> list_all name_char n"

definition slashed :: "string list \<Rightarrow> string" where
  "slashed ps = concat (map (\<lambda>p. p @ ''/'') ps)"

definition pattern_of :: "seg list \<Rightarrow> string" where
  "pattern_of segs = ''/'' @ slashed (map seg_str segs)"

definition path_of :: "string list \<Rightarrow> string" where
  "path_of ps = ''/'' @ slashed ps"

fun bind_segs :: "seg list \<Rightarrow> string list \<Rightarrow> (string \<times> string) list option" where
  "bind_segs [] [] = Some []"
| "bind_segs (SLit l # ss) (p # ps) = (if p = l then bind_segs ss ps else None)"
| "bind_segs (SPar n # ss) (p # ps) =
     (if p \<noteq> [] then map_option (\<lambda>b. (n, p) # b) (bind_segs ss ps) else None)"
| "bind_segs _ _ = None"

lemma slashed_simps [simp]: "slashed [] = []" "slashed (p # ps) = p @ CHR ''/'' # slashed ps"
  by (simp_all add: slashed_def)

subsection \<open>Cutting the pattern\<close>

fun elems_of :: "int \<Rightarrow> seg list \<Rightarrow> route_element list" where
  "elems_of n [] = []"
| "elems_of n (SLit l # ss) = RouteElement [] l False (- 1) # elems_of n ss"
| "elems_of n (SPar x # ss) = RouteElement x [] False (n + 1) # elems_of (n + 1) ss"

lemma name_char_not:
  "name_char c \<Longrightarrow> c \<noteq> CHR ''{'' \<and> c \<noteq> CHR ''}'' \<and> c \<noteq> CHR ''/'' \<and> c \<noteq> CHR '':'' \<and> c \<noteq> CHR ''?''"
  by (auto simp: name_char_def char_class_defs)

lemma parse_literal:
  "list_all name_char l \<Longrightarrow>
     parse_loop Element [] pat False n els (l @ CHR ''/'' # s) =
     parse_loop Element [] [] False n (els @ [RouteElement [] (pat @ l) False (- 1)]) s"
proof (induction l arbitrary: pat)
  case Nil
  then show ?case by (cases s) simp_all
next
  case (Cons c l)
  then have "parse_loop Element [] pat False n els ((c # l) @ CHR ''/'' # s) =
      parse_loop Element [] (pat @ [c]) False n els (l @ CHR ''/'' # s)"
    using name_char_not [of c] by simp
  with Cons show ?case by simp
qed

lemma parse_param_name:
  "list_all name_char x \<Longrightarrow>
     parse_loop Param name [] False n els (x @ CHR ''}'' # s) = parse_loop Token (name @ x) [] False n els s"
proof (induction x arbitrary: name)
  case (Cons c x)
  then have "parse_loop Param name [] False n els ((c # x) @ CHR ''}'' # s) =
      parse_loop Param (name @ [c]) [] False n els (x @ CHR ''}'' # s)"
    using name_char_not [of c] by (simp add: name_char_def)
  with Cons show ?case by simp
qed simp

lemma parse_segs:
  "list_all seg_ok segs \<Longrightarrow>
     parse_loop Element [] [] False n els (slashed (map seg_str segs)) = (True, els @ elems_of n segs)"
proof (induction segs arbitrary: n els)
  case (Cons sg segs)
  show ?case
  proof (cases sg)
    case (SLit l)
    with Cons show ?thesis using parse_literal [of l "[]"] by simp
  next
    case (SPar x)
    have "parse_loop Element [] [] False n els (CHR ''{'' # x @ CHR ''}'' # CHR ''/'' # s) =
        parse_loop Element [] [] False (n + 1) (els @ [RouteElement x [] False (n + 1)]) s" for s
      using Cons.prems SPar parse_param_name [of x "[]" n els "CHR ''/'' # s"] by simp
    with Cons SPar show ?thesis by simp
  qed
qed simp

lemma number_captures_elems:
  "list_all seg_ok segs \<Longrightarrow> number_captures (n + 1) (elems_of n segs) = elems_of n segs"
proof (induction segs arbitrary: n)
  case (Cons sg segs)
  then show ?case using Cons.IH [of "n + 1"] by (cases sg) (simp_all add: RouteElement_def)
qed simp

lemma elems_ordinary: "e \<in> set (elems_of n segs) \<Longrightarrow> \<not> re_optional e"
  by (induction n segs rule: elems_of.induct) (auto simp: RouteElement_def)

subsection \<open>Reading the expression\<close>

fun seg_toks :: "seg \<Rightarrow> tok list" where
  "seg_toks (SLit l) =
     [TOpenNC, TOpenNC] @ map (\<lambda>c. TAtom (Lit c)) l @ [TClose, TAtom (Lit (CHR ''/'')), TClose]"
| "seg_toks (SPar n) =
     [TOpenNC, TOpen, TAtom (Class True [Range (CHR ''/'') (CHR ''/'')]), TPlus True, TClose,
      TAtom (Lit (CHR ''/'')), TClose]"

lemma rmap_rmap [simp]: "rmap f (rmap g r) = rmap (\<lambda>x. f (g x)) r"
  by (cases r) simp_all

lemma lex_lit: "name_char c \<Longrightarrow> lex (c # s) = rmap (Cons (TAtom (Lit c))) (lex s)"
proof -
  assume "name_char c"
  then have "byte c \<noteq> 92 \<and> c \<noteq> CHR ''['' \<and> c \<noteq> CHR ''('' \<and> c \<noteq> CHR '')'' \<and> c \<noteq> CHR ''|'' \<and>
      c \<noteq> CHR ''*'' \<and> c \<noteq> CHR ''+'' \<and> c \<noteq> CHR ''?'' \<and> c \<noteq> CHR ''{'' \<and> c \<noteq> CHR ''}'' \<and>
      c \<noteq> CHR ''.'' \<and> c \<noteq> CHR ''^'' \<and> c \<noteq> CHR ''$''"
    by (auto simp: name_char_def char_class_defs)
  then show ?thesis by simp
qed

lemma lex_lits:
  "list_all name_char l \<Longrightarrow> lex (l @ s) = rmap (\<lambda>ts. map (\<lambda>c. TAtom (Lit c)) l @ ts) (lex s)"
proof (induction l)
  case Nil
  show ?case by (cases "lex s") simp_all
next
  case (Cons c l)
  then show ?case using lex_lit [of c "l @ s"] by (simp del: lex.simps)
qed

lemma lex_slash: "lex (BSL # CHR ''/'' # s) = rmap (Cons (TAtom (Lit (CHR ''/'')))) (lex s)"
  by (simp add: class_escape_def char_escape_def char_class_defs)

lemma lex_open_close:
  "lex (CHR ''('' # CHR ''?'' # CHR '':'' # s) = rmap (Cons TOpenNC) (lex s)"
  "lex (CHR '')'' # s) = rmap (Cons TClose) (lex s)"
  by simp_all

lemma lex_noslash:
  "lex (CHR ''('' # CHR ''['' # CHR ''^'' # BSL # CHR ''/'' # CHR '']'' # CHR ''+'' # CHR '')'' # s) =
     rmap (\<lambda>ts. TOpen # TAtom (Class True [Range (CHR ''/'') (CHR ''/'')]) # TPlus True # TClose # ts) (lex s)"
  by (simp add: class_escape_def char_escape_def char_class_defs quant_def lazy_def char_eq_byte [of BSL])

definition element_regex :: "route_element \<Rightarrow> string" where
  "element_regex e = ''(?:'' @ element_pattern e @ [BSL] @ ''/)''"

lemma lex_segs:
  "list_all seg_ok segs \<Longrightarrow>
     lex (concat (map element_regex (elems_of n segs)) @ s) =
     rmap (\<lambda>ts. concat (map seg_toks segs) @ ts) (lex s)"
proof (induction segs arbitrary: n)
  case Nil
  show ?case by (cases "lex s") simp_all
next
  case (Cons sg segs)
  show ?case
  proof (cases sg)
    case (SLit l)
    with Cons show ?thesis
      by (simp add: element_regex_def element_pattern_def RouteElement_def lex_open_close lex_lits
          lex_slash del: lex.simps)
  next
    case (SPar x)
    with Cons show ?thesis
      by (simp add: element_regex_def element_pattern_def RouteElement_def lex_open_close lex_noslash
          lex_slash del: lex.simps)
  qed
qed


fun seg_re :: "nat \<Rightarrow> seg \<Rightarrow> re" where
  "seg_re n (SLit l) = Seq (seq_of (map Lit l)) (Lit (CHR ''/''))"
| "seg_re n (SPar x) =
     Seq (Group n (Plus True (Class True [Range (CHR ''/'') (CHR ''/'')]))) (Lit (CHR ''/''))"

fun seg_res :: "nat \<Rightarrow> seg list \<Rightarrow> re list" where
  "seg_res n [] = []"
| "seg_res n (SLit l # ss) = seg_re n (SLit l) # seg_res n ss"
| "seg_res n (SPar x # ss) = seg_re n (SPar x) # seg_res (Suc n) ss"

lemma read_lits:
  "read_toks (map (\<lambda>c. TAtom (Lit c)) l @ ts) n st (k, alts, cur) =
     read_toks ts n st (k, alts, rev (map Lit l) @ cur)"
  by (induction l arbitrary: cur) auto

lemma read_segs:
  "read_toks (concat (map seg_toks segs) @ ts) n st (k, alts, cur) =
     read_toks ts (n + length (filter (\<lambda>sg. case sg of SPar _ \<Rightarrow> True | _ \<Rightarrow> False) segs)) st
       (k, alts, rev (seg_res n segs) @ cur)"
proof (induction segs arbitrary: n cur)
  case (Cons sg segs)
  show ?case
  proof (cases sg)
    case (SLit l)
    with Cons show ?thesis by (simp add: read_lits close_frame_def)
  next
    case (SPar x)
    with Cons show ?thesis by (simp add: close_frame_def quantifiable_def)
  qed
qed simp

definition segs_re :: "nat \<Rightarrow> seg list \<Rightarrow> re" where
  "segs_re n segs = seq_of (seg_res n segs @ [Eol])"

lemma route_regex:
  assumes "list_all seg_ok segs"
  shows "regex (route_regex_string (elems_of 0 segs)) = Inr (seq_of ([Bol, Lit (CHR ''/'')] @ seg_res 1 segs @ [Eol]))"
proof -
  have body: "concat (map (\<lambda>e. if re_optional e then ''(?:'' @ element_pattern e @ [BSL] @ ''/)?''
      else ''(?:'' @ element_pattern e @ [BSL] @ ''/)'') (elems_of 0 segs)) =
      concat (map element_regex (elems_of 0 segs))"
    by (intro arg_cong [where f = concat] map_cong) (auto simp: element_regex_def dest: elems_ordinary)
  have "lex ''$'' = Inr [TAtom Eol]" by simp
  then have "lex (concat (map element_regex (elems_of 0 segs)) @ ''$'') =
      Inr (concat (map seg_toks segs) @ [TAtom Eol])"
    using lex_segs [OF assms, of 0 "''$''"] by (simp del: lex.simps)
  then have "lex (route_regex_string (elems_of 0 segs)) =
      Inr ([TAtom Bol, TAtom (Lit (CHR ''/''))] @ concat (map seg_toks segs) @ [TAtom Eol])"
    using lex_slash [of "concat (map element_regex (elems_of 0 segs)) @ ''$''"]
    by (simp add: route_regex_string_def body [simplified])
  then show ?thesis
    by (simp add: regex_def read_segs close_frame_def)
qed

subsection \<open>Matching the path\<close>

lemma search_lits:
  "search (seq_of (map Lit l)) (i, s, cs) =
     (if prefix l s then [(i + length l, drop (length l) s, cs)] else [])"
proof (induction l arbitrary: i s)
  case (Cons a l)
  show ?case
  proof (cases s)
    case (Cons c t)
    then show ?thesis using Cons.IH [of "Suc i" t] by (simp add: search_seq_of step_char_def)
  qed (simp add: search_seq_of step_char_def)
qed simp

lemma prefix_to_slash:
  "CHR ''/'' \<notin> set p \<Longrightarrow> CHR ''/'' \<notin> set l \<Longrightarrow>
     prefix l (p @ CHR ''/'' # t) \<and> (\<exists>u. drop (length l) (p @ CHR ''/'' # t) = CHR ''/'' # u) \<longleftrightarrow> l = p"
proof (induction l arbitrary: p)
  case Nil
  then show ?case by (cases p) auto
next
  case (Cons a l)
  then show ?case by (cases p) auto
qed

lemma search_lit_seg:
  assumes "CHR ''/'' \<notin> set p" "CHR ''/'' \<notin> set l"
  shows "search (seg_re n (SLit l)) (i, p @ CHR ''/'' # t, cs) =
    (if p = l then [(Suc (i + length l), t, cs)] else [])"
  using prefix_to_slash [OF assms, of t]
  by (auto simp: search_lits step_char_def split: list.splits)

lemma pick_one: "concat (map (\<lambda>k. if k = m then [x] else []) (rev [0..<Suc m])) = [x]"
proof -
  have "concat (map (\<lambda>k. if k = m then [x] else []) (rev [0..<m])) = []" by simp
  then show ?thesis by simp
qed

lemma step_slash_drop:
  assumes "CHR ''/'' \<notin> set p" "k \<le> length p"
  shows "step_char (\<lambda>c. c = CHR ''/'') (i, drop k (p @ CHR ''/'' # t), cs) =
    (if k = length p then [(Suc i, t, cs)] else [])"
proof (cases "k = length p")
  case False
  with assms(2) obtain c u where "drop k p = c # u" by (cases "drop k p") auto
  moreover from this have "c \<in> set p" by (metis in_set_dropD list.set_intros(1))
  ultimately show ?thesis using assms False by (auto simp: step_char_def)
qed (simp add: step_char_def)

lemma search_par_seg:
  assumes "CHR ''/'' \<notin> set p"
  shows "search (seg_re n (SPar x)) (i, p @ CHR ''/'' # t, cs) =
    (if p \<noteq> [] then [(Suc (i + length p), t, cs(n \<mapsto> p))] else [])"
proof (cases p)
  case Nil
  then show ?thesis by (simp add: step_char_def)
next
  case (Cons c q)
  let ?P = "\<lambda>c. (\<exists>it \<in> set [Range (CHR ''/'') (CHR ''/'')]. item_matches it c) \<noteq> True"
  let ?u = "q @ CHR ''/'' # t"
  have P: "?P d \<longleftrightarrow> d \<noteq> CHR ''/''" for d by (auto simp: char_eq_byte)
  from Cons assms have c: "c \<noteq> CHR ''/''" and q: "CHR ''/'' \<notin> set q" by auto
  have run: "takeWhile ?P ?u = q"
    using q by (simp only: P) (simp add: takeWhile_append)
  have plus: "search (Plus True (Class True [Range (CHR ''/'') (CHR ''/'')])) (i, p @ CHR ''/'' # t, cs) =
      map (\<lambda>k. (Suc i + k, drop k ?u, cs)) (rev [0..<Suc (length q)])"
  proof -
    have cls: "search (Class True [Range (CHR ''/'') (CHR ''/'')]) = step_char ?P"
      by (rule ext) (simp only: search.simps)
    have "step_char ?P (i, p @ CHR ''/'' # t, cs) = [(Suc i, ?u, cs)]"
      using c Cons by (simp only: P) (simp add: step_char_def)
    then have "search (Plus True (Class True [Range (CHR ''/'') (CHR ''/'')])) (i, p @ CHR ''/'' # t, cs) =
        repeat (length ?u) True (step_char ?P) (Suc i, ?u, cs)"
      by (simp only: search.simps(9) cls list.map concat.simps append_Nil2 fst_conv snd_conv)
    also have "\<dots> = map (\<lambda>k. (Suc i + k, drop k ?u, cs)) (rev [0..<Suc (length (takeWhile ?P ?u))])"
      by (rule repeat_char_simple)
    finally show ?thesis by (simp only: run)
  qed
  have "search (seg_re n (SPar x)) (i, p @ CHR ''/'' # t, cs) =
      concat (map (\<lambda>k. step_char (\<lambda>c. c = CHR ''/'')
        (Suc i + k, drop k ?u, cs(n \<mapsto> take (Suc k) (p @ CHR ''/'' # t)))) (rev [0..<Suc (length q)]))"
    by (simp add: plus comp_def del: search.simps(9) upt_Suc)
  also have "\<dots> = concat (map (\<lambda>k. if k = length q then [(Suc (Suc i + length q), t, cs(n \<mapsto> p))] else [])
      (rev [0..<Suc (length q)]))"
  proof (intro arg_cong [where f = concat] map_cong refl)
    fix k assume "k \<in> set (rev [0..<Suc (length q)])"
    then have "k \<le> length q" by auto
    from step_slash_drop [OF q this, of "Suc i + k" t] show
      "step_char (\<lambda>c. c = CHR ''/'') (Suc i + k, drop k ?u, cs(n \<mapsto> take (Suc k) (p @ CHR ''/'' # t))) =
        (if k = length q then [(Suc (Suc i + length q), t, cs(n \<mapsto> p))] else [])"
      by (simp add: Cons)
  qed
  also have "\<dots> = [(Suc (Suc i + length q), t, cs(n \<mapsto> p))]" by (rule pick_one)
  finally show ?thesis by (simp add: Cons)
qed


fun caps_segs :: "nat \<Rightarrow> seg list \<Rightarrow> string list \<Rightarrow> caps \<Rightarrow> caps" where
  "caps_segs n (SLit l # ss) (p # ps) cs = caps_segs n ss ps cs"
| "caps_segs n (SPar x # ss) (p # ps) cs = caps_segs (Suc n) ss ps (cs(n \<mapsto> p))"
| "caps_segs n _ _ cs = cs"

lemma seg_slash_free:
  "seg_ok (SLit l) \<Longrightarrow> CHR ''/'' \<notin> set l"
  using name_char_not by (auto simp: list_all_iff)

lemma search_segs_end:
  "seg_ok sg \<Longrightarrow> search (seq_of (seg_res n (sg # ss) @ [Eol])) (i, [], cs) = []"
  by (cases sg) (auto simp: search_seq_of search_lits step_char_def)

lemma search_segs:
  assumes "list_all seg_ok segs" "\<forall>p \<in> set ps. CHR ''/'' \<notin> set p"
  shows "search (seq_of (seg_res n segs @ [Eol])) (i, slashed ps, cs) =
    (if bind_segs segs ps = None then []
     else [(i + length (slashed ps), [], caps_segs n segs ps cs)])"
  using assms
proof (induction segs ps arbitrary: n i cs rule: bind_segs.induct)
  case (2 l ss p ps)
  have "CHR ''/'' \<notin> set l" using seg_slash_free "2.prems" by simp
  with "2" show ?case by (auto simp: search_seq_of search_lit_seg simp del: seg_re.simps)
next
  case (3 x ss p ps)
  then show ?case by (auto simp: search_seq_of search_par_seg simp del: seg_re.simps)
qed (simp_all add: search_segs_end search_seq_of del: seg_res.simps(2,3))

lemma caps_segs_below: "k < n \<Longrightarrow> caps_segs n segs ps cs k = cs k"
  by (induction n segs ps cs rule: caps_segs.induct) auto

lemma match_vars_simps:
  "match_vars r [] vars = vars"
  "match_vars r (e # es) vars = match_vars r es
     (if 0 < re_idx e \<and> sub r (nat (re_idx e)) \<noteq> []
      then dict_set (re_name e) (sub r (nat (re_idx e))) vars else vars)"
  by (simp_all add: match_vars_def Let_def)

lemma match_vars_segs:
  assumes "bind_segs segs ps = Some b" "list_all seg_ok segs"
  shows "match_vars ((caps_segs (Suc n) segs ps cs)(0 \<mapsto> s)) (elems_of (int n) segs) vars =
    fold (\<lambda>(k, v). dict_set k v) b vars"
  using assms
proof (induction segs ps arbitrary: b n cs vars rule: bind_segs.induct)
  case (2 l ss p ps)
  then show ?case by (auto simp: match_vars_simps RouteElement_def split: if_splits)
next
  case (3 x ss p ps)
  then obtain b' where b: "b = (x, p) # b'" "bind_segs ss ps = Some b'" and p: "p \<noteq> []"
    by (auto split: if_splits)
  let ?r = "(caps_segs (Suc (Suc n)) ss ps (cs(Suc n \<mapsto> p)))(0 \<mapsto> s)"
  have val: "sub ?r (Suc n) = p" by (simp add: sub_def caps_segs_below)
  have idx: "nat (int n + 1) = Suc n" "int n + 1 = int (Suc n)" by simp_all
  have step: "match_vars ?r (elems_of (int n) (SPar x # ss)) vars =
      match_vars ?r (elems_of (int (Suc n)) ss) (dict_set x p vars)"
    by (simp add: match_vars_simps RouteElement_def idx val p del: of_nat_Suc fun_upd_apply)
  have "match_vars ?r (elems_of (int (Suc n)) ss) (dict_set x p vars) =
      fold (\<lambda>(k, v). dict_set k v) b' (dict_set x p vars)"
    by (rule "3.IH" [OF p b(2)]) (use "3.prems" in simp)
  then show ?case unfolding caps_segs.simps step by (simp add: b)
qed (simp_all add: match_vars_simps)

lemma last_slashed: "ps \<noteq> [] \<Longrightarrow> last (slashed ps) = CHR ''/''"
  by (induction ps) (auto simp: slashed_def)

lemma slashed_nonempty: "slashed ps = [] \<longleftrightarrow> ps = []"
  by (cases ps) auto

lemma last_path: "last (pattern_of segs) = CHR ''/''" "last (path_of ps) = CHR ''/''"
  using last_slashed [of "map seg_str segs"] last_slashed [of ps]
  by (auto simp: pattern_of_def path_of_def slashed_nonempty)

lemma Route_pattern:
  assumes "list_all seg_ok segs"
  shows "Route (pattern_of segs) =
    Inr \<lparr>r_impl = \<lparr>ri_elements = elems_of 0 segs, ri_pattern = pattern_of segs,
           ri_rx = Some (seq_of ([Bol, Lit (CHR ''/'')] @ seg_res 1 segs @ [Eol]))\<rparr>, r_name = []\<rparr>"
proof -
  have "parse_route (pattern_of segs) = (True, elems_of 0 segs)"
    using parse_segs [OF assms, of 0 "[]"] by (simp add: parse_route_def pattern_of_def)
  moreover have "pattern_of segs \<noteq> []" by (simp add: pattern_of_def)
  ultimately show ?thesis
    using number_captures_elems [OF assms, of 0] route_regex [OF assms]
    by (simp add: Route_def RouteImpl_def last_path makeRegexFromPattern_def Let_def)
qed

lemma path_match:
  assumes "list_all seg_ok segs" "\<forall>p \<in> set ps. CHR ''/'' \<notin> set p"
  shows "regex_match (seq_of ([Bol, Lit (CHR ''/'')] @ seg_res 1 segs @ [Eol])) (path_of ps) =
    (if bind_segs segs ps = None then None
     else Some ((caps_segs 1 segs ps no_caps)(0 \<mapsto> path_of ps)))"
proof -
  have "search (seq_of ([Bol, Lit (CHR ''/'')] @ seg_res 1 segs @ [Eol])) (0, path_of ps, no_caps) =
      search (seq_of (seg_res 1 segs @ [Eol])) (1, slashed ps, no_caps)"
    by (simp add: search_seq_of path_of_def step_char_def del: seq_of.simps)
  then show ?thesis using search_segs [OF assms, of 1 1 no_caps] by (simp add: regex_match_def)
qed

lemma match_pattern:
  assumes "list_all seg_ok segs" "\<forall>p \<in> set ps. CHR ''/'' \<notin> set p" "Route (pattern_of segs) = Inr r"
  shows "route_matches r (path_of ps) vars =
      Inr (case bind_segs segs ps of
             None \<Rightarrow> (False, vars)
           | Some b \<Rightarrow> (True, fold (\<lambda>(k, v). dict_set k v) b vars))"
proof -
  have "get_clean_path (path_of ps) = Inr (path_of ps)"
    using last_path(2) [of ps] by (simp add: get_clean_path_def path_of_def)
  then show ?thesis
    using assms(1,3) Route_pattern [OF assms(1)] path_match [OF assms(1,2)]
      match_vars_segs [of segs ps _ 0 no_caps "path_of ps" vars]
    unfolding route_matches_def
    by (cases "bind_segs segs ps") (auto simp: route_impl_match_def)
qed

text \<open>The two ways a path names its elements: with the trailing slash, and without it when the last element
  is not empty.\<close>

definition names_path :: "string \<Rightarrow> string list \<Rightarrow> bool" where
  "names_path path ps \<longleftrightarrow>
     (\<forall>p \<in> set ps. CHR ''/'' \<notin> set p) \<and>
     (path = path_of ps \<or> ps \<noteq> [] \<and> last ps \<noteq> [] \<and> path = butlast (path_of ps))"

lemma get_clean_path_names:
  assumes "names_path path ps"
  shows "get_clean_path path = Inr (path_of ps)"
proof (cases "path = path_of ps")
  case True
  then show ?thesis using last_path(2) [of ps] by (simp add: get_clean_path_def path_of_def)
next
  case False
  with assms have ne: "ps \<noteq> []" "last ps \<noteq> []" and path: "path = butlast (path_of ps)"
    and free: "\<forall>p \<in> set ps. CHR ''/'' \<notin> set p"
    by (auto simp: names_path_def)
  obtain qs q where ps: "ps = qs @ [q]" using \<open>ps \<noteq> []\<close> by (cases ps rule: rev_cases) auto
  have whole: "path_of ps = (''/'' @ slashed qs @ q) @ ''/''" by (simp add: ps path_of_def slashed_def)
  have "q \<noteq> []" "CHR ''/'' \<notin> set q" using ne free ps by auto
  then have "last (''/'' @ slashed qs @ q) \<noteq> CHR ''/''"
    by (metis append_is_Nil_conv last_appendR last_in_set)
  then show ?thesis unfolding path whole butlast_snoc by (simp add: get_clean_path_def)
qed

lemma match_named:
  assumes "list_all seg_ok segs" "names_path path ps" "Route (pattern_of segs) = Inr r"
  shows "route_matches r path vars =
      Inr (case bind_segs segs ps of
             None \<Rightarrow> (False, vars)
           | Some b \<Rightarrow> (True, fold (\<lambda>(k, v). dict_set k v) b vars))"
proof -
  have free: "\<forall>p \<in> set ps. CHR ''/'' \<notin> set p" using assms(2) by (simp add: names_path_def)
  then have "names_path (path_of ps) ps" by (simp add: names_path_def)
  then show ?thesis
    using match_pattern [OF assms(1) free assms(3), of vars] get_clean_path_names [OF assms(2)]
      get_clean_path_names [of "path_of ps" ps] by (simp add: route_matches_def)
qed

section \<open>Properties\<close>



fun params_of :: "seg list \<Rightarrow> string list" where
  "params_of [] = []"
| "params_of (SLit l # ss) = params_of ss"
| "params_of (SPar x # ss) = x # params_of ss"

fun fill :: "dict \<Rightarrow> seg list \<Rightarrow> string list" where
  "fill params [] = []"
| "fill params (SLit l # ss) = l # fill params ss"
| "fill params (SPar x # ss) = the (map_of params x) # fill params ss"

definition supplies :: "dict \<Rightarrow> seg list \<Rightarrow> bool" where
  "supplies params segs \<longleftrightarrow>
     list_all (\<lambda>x. case map_of params x of None \<Rightarrow> False | Some v \<Rightarrow> v \<noteq> [] \<and> CHR ''/'' \<notin> set v) (params_of segs)"

lemma supplies_Par:
  "supplies params (SPar x # ss) \<Longrightarrow>
     \<exists>v. map_of params x = Some v \<and> v \<noteq> [] \<and> CHR ''/'' \<notin> set v \<and> supplies params ss"
  by (auto simp: supplies_def split: option.splits)

lemma url_loop_fill:
  "list_all seg_ok segs \<Longrightarrow> supplies params segs \<Longrightarrow>
     url_loop params res (elems_of n segs) = res @ slashed (fill params segs)"
proof (induction params segs arbitrary: res n rule: fill.induct)
  case (2 params l ss)
  then show ?case by (simp add: RouteElement_def supplies_def)
next
  case (3 params x ss)
  then show ?case using supplies_Par [of params x ss] by (auto simp: RouteElement_def)
qed simp

lemma bind_fill:
  "list_all seg_ok segs \<Longrightarrow> supplies params segs \<Longrightarrow>
     bind_segs segs (fill params segs) = Some (map (\<lambda>x. (x, the (map_of params x))) (params_of segs)) \<and>
     (\<forall>p \<in> set (fill params segs). CHR ''/'' \<notin> set p)"
proof (induction params segs rule: fill.induct)
  case (2 params l ss)
  then show ?case using seg_slash_free [of l] by (simp add: supplies_def)
next
  case (3 params x ss)
  then show ?case using supplies_Par [of params x ss] by auto
qed simp

lemma map_of_params:
  "map_of (map (\<lambda>x. (x, the (map_of params x))) xs) n = (if n \<in> set xs then Some (the (map_of params n)) else None)"
  by (induction xs) auto



end
