(* ===== verification/Request.thy ===== *)
theory Request
  imports Route
begin

text \<open>
  \<^verbatim>\<open>include/wsrv/request.hpp\<close>, \<^verbatim>\<open>src/request.cpp\<close> and \<^verbatim>\<open>include/wsrv/middleware_data.hpp\<close>: the
  request object the parser fills and the handlers read.  The middleware data, a map from types to
  shared pointers, is a record with one slot for each type the program stores: the CSRF token, the
  resolved locale and the authenticated user, of whom only \<^verbatim>\<open>getUniqueId()\<close> is ever asked.
\<close>

record middleware_data =
  mw_csrf :: "string option"
  mw_locale :: "string option"
  mw_user :: "string option"

definition no_middleware_data :: middleware_data where
  "no_middleware_data = \<lparr>mw_csrf = None, mw_locale = None, mw_user = None\<rparr>"

text \<open>\<^verbatim>\<open>set\<close> ignores a null pointer; \<^verbatim>\<open>get\<close> returns a null pointer for a missing entry.\<close>

definition mw_set_csrf :: "string option \<Rightarrow> middleware_data \<Rightarrow> middleware_data" where
  "mw_set_csrf p d = (case p of None \<Rightarrow> d | Some t \<Rightarrow> d\<lparr>mw_csrf := Some t\<rparr>)"

definition mw_set_locale :: "string option \<Rightarrow> middleware_data \<Rightarrow> middleware_data" where
  "mw_set_locale p d = (case p of None \<Rightarrow> d | Some t \<Rightarrow> d\<lparr>mw_locale := Some t\<rparr>)"

definition mw_set_user :: "string option \<Rightarrow> middleware_data \<Rightarrow> middleware_data" where
  "mw_set_user p d = (case p of None \<Rightarrow> d | Some t \<Rightarrow> d\<lparr>mw_user := Some t\<rparr>)"

definition mw_remove_user :: "middleware_data \<Rightarrow> middleware_data" where
  "mw_remove_user d = d\<lparr>mw_user := None\<rparr>"

record uploaded_file =
  uf_id :: string
  uf_name :: string
  uf_path :: string
  uf_mime :: string
  uf_size :: nat
  uf_data :: string

record request =
  rq_server :: dict
  rq_get :: dict
  rq_post :: dict
  rq_cookie :: dict
  rq_route :: dict
  rq_files :: "uploaded_file list"
  rq_mw :: middleware_data
  rq_content :: string
  rq_content_type :: string
  rq_method :: string
  rq_path :: string
  rq_query :: string
  rq_protocol :: string
  rq_session_valid :: bool
  rq_session_id :: string

definition empty_request :: request where
  "empty_request = \<lparr>rq_server = [], rq_get = [], rq_post = [], rq_cookie = [], rq_route = [],
     rq_files = [], rq_mw = no_middleware_data, rq_content = [], rq_content_type = [],
     rq_method = [], rq_path = [], rq_query = [], rq_protocol = [], rq_session_valid = False,
     rq_session_id = []\<rparr>"

definition getServerAttribute :: "request \<Rightarrow> string \<Rightarrow> string \<Rightarrow> string" where
  "getServerAttribute r key def = dict_get (rq_server r) key def"

definition getQueryAttribute :: "request \<Rightarrow> string \<Rightarrow> string \<Rightarrow> string" where
  "getQueryAttribute r key def = dict_get (rq_get r) key def"

definition getPostAttribute :: "request \<Rightarrow> string \<Rightarrow> string \<Rightarrow> string" where
  "getPostAttribute r key def = dict_get (rq_post r) key def"

definition getRouteAttribute :: "request \<Rightarrow> string \<Rightarrow> string \<Rightarrow> string" where
  "getRouteAttribute r key def = dict_get (rq_route r) key def"

definition getCookie :: "request \<Rightarrow> string \<Rightarrow> string \<Rightarrow> string" where
  "getCookie r key def = dict_get (rq_cookie r) key def"

definition request_toString :: "request \<Rightarrow> string" where
  "request_toString r =
     getServerAttribute r ''REMOTE_ADDR'' ''127.0.0.1'' @ '': '' @ [DQ] @ rq_method r @ '' '' @
     rq_path r @ (if rq_query r = [] then [] else ''?'' @ rq_query r) @ '' '' @
     rq_protocol r @ [DQ]"

definition supportsGzip :: "request \<Rightarrow> bool" where
  "supportsGzip r =
     (let enc = getServerAttribute r ''Accept-Encoding'' []
      in enc \<noteq> [] \<and> find_from enc ''gzip'' 0 \<noteq> None)"

text \<open>The expression \<^verbatim>\<open>[\s|]+\<close> of \<^verbatim>\<open>matchesMethod\<close>.\<close>

definition method_separator :: re where
  "method_separator = Plus True (Class False [Space, Range (CHR ''|'') (CHR ''|'')])"

lemma method_separator_regex: "regex (''['' @ [BSL] @ ''s|]+'') = Inr method_separator"
  by (simp add: regex_def class_escape_def char_eq_byte [of BSL] quant_def lazy_def close_frame_def
      quantifiable_def method_separator_def)

definition matchesMethod :: "request \<Rightarrow> string \<Rightarrow> bool" where
  "matchesMethod r method \<longleftrightarrow> rq_method r \<in> set (regex_split method_separator method)"

text \<open>The overloads of \<^verbatim>\<open>matches\<close>: with a compiled route and with a pattern.\<close>

definition request_matches :: "request \<Rightarrow> string \<Rightarrow> route \<Rightarrow> dict \<Rightarrow> (bool \<times> dict) result" where
  "request_matches r method pat attrs =
     (if matchesMethod r method then route_matches pat (rq_path r) attrs else Inr (False, attrs))"

definition request_matches_pattern :: "request \<Rightarrow> string \<Rightarrow> string \<Rightarrow> dict \<Rightarrow> (bool \<times> dict) result" where
  "request_matches_pattern r method pattern attrs =
     (if matchesMethod r method
      then rbind (Route pattern) (\<lambda>pat. route_matches pat (rq_path r) attrs)
      else Inr (False, attrs))"

section \<open>Methods separated by one bar\<close>

definition method_char :: "char \<Rightarrow> bool" where
  "method_char c \<longleftrightarrow> \<not> isspace c \<and> c \<noteq> CHR ''|''"

lemma sep_class:
  "search (Class False [Space, Range (CHR ''|'') (CHR ''|'')]) = step_char (\<lambda>c. \<not> method_char c)"
proof
  fix st :: mstate
  have "(\<exists>it \<in> set [Space, Range (CHR ''|'') (CHR ''|'')]. item_matches it c) \<noteq> False \<longleftrightarrow> \<not> method_char c" for c
    by (auto simp: method_char_def char_eq_byte)
  then show "search (Class False [Space, Range (CHR ''|'') (CHR ''|'')]) st = step_char (\<lambda>c. \<not> method_char c) st"
    by (simp only: search.simps)
qed

lemma sep_search:
  "search method_separator st =
     concat (map (\<lambda>st'. repeat (length (fst (snd st'))) True (step_char (\<lambda>c. \<not> method_char c)) st')
       (step_char (\<lambda>c. \<not> method_char c) st))"
  unfolding method_separator_def by (simp only: search.simps(9) sep_class)

lemma sep_search_from:
  assumes "list_all method_char u"
  shows "search_from method_separator i u = None"
    and "v = [] \<or> method_char (hd v) \<Longrightarrow>
      search_from method_separator i (u @ CHR ''|'' # v) = Some (i + length u, 1)"
proof -
  show "search_from method_separator i u = None"
    using assms by (induction u arbitrary: i) (simp_all add: sep_search step_char_def)
  assume v: "v = [] \<or> method_char (hd v)"
  have bar: "\<not> method_char (CHR ''|'')" by (simp add: method_char_def)
  have "takeWhile (\<lambda>c. \<not> method_char c) v = []" using v by (cases v) auto
  then have "search method_separator (i, CHR ''|'' # v, cs) = [(Suc i, v, cs)]" for i cs
    using bar by (simp add: sep_search step_char_def [of _ "(i, CHR ''|'' # v, cs)"] repeat_char_simple)
  then show "search_from method_separator i (u @ CHR ''|'' # v) = Some (i + length u, 1)"
    using assms by (induction u arbitrary: i) (simp_all add: sep_search [of "(i, c # w, cs)" for i c w cs] step_char_def)
qed

lemma regex_split_bars:
  "ms \<noteq> [] \<Longrightarrow> \<forall>m \<in> set ms. m \<noteq> [] \<and> list_all method_char m \<Longrightarrow>
     regex_split_from method_separator i (join ms ''|'') = ms"
proof (induction ms "''|''" arbitrary: i rule: join.induct)
  case (2 m)
  then show ?case by (simp add: regex_split_from.simps [of _ i m] sep_search_from(1))
next
  case (3 m n ms)
  let ?v = "join (n # ms) ''|''"
  have v: "?v \<noteq> []" "method_char (hd ?v)" using "3.prems" by (cases n; cases ms; simp)+
  then have "search_from method_separator i (m @ CHR ''|'' # ?v) = Some (i + length m, 1)"
    using "3.prems" by (intro sep_search_from(2)) auto
  then have "regex_split_from method_separator i (m @ CHR ''|'' # ?v) =
      m # regex_split_from method_separator (i + length m + 1) ?v"
    using v by (subst regex_split_from.simps) simp
  with "3" show ?case by simp
qed simp

text \<open>A route registered for \<^verbatim>\<open>"GET|POST"\<close> answers requests of exactly the methods named.\<close>

lemma matchesMethod_bars:
  "ms \<noteq> [] \<Longrightarrow> \<forall>m \<in> set ms. m \<noteq> [] \<and> list_all method_char m \<Longrightarrow>
     matchesMethod r (join ms ''|'') \<longleftrightarrow> rq_method r \<in> set ms"
  by (simp add: matchesMethod_def regex_split_def regex_split_bars)

end
