(* ===== verification/HttpUrl.thy ===== *)
theory HttpUrl
  imports Prelude "HOL-Library.Word"
begin

text \<open>
  The URL parser of \<^verbatim>\<open>src/http_parser.c\<close>, \<^verbatim>\<open>http_parser_parse_url\<close>, which the request parser calls on the target of a
  request: the state machine over the characters, the fields it marks and the second pass over the host.  The
  structure it fills is not initialised by the caller, and its offsets and lengths have 16 bits.
\<close>

unbundle bit_operations_syntax

section \<open>Character classes\<close>

text \<open>The macros, with \<^verbatim>\<open>HTTP_PARSER_STRICT\<close>, the default.\<close>

definition LOWER :: "char \<Rightarrow> 8 word" where
  "LOWER c = of_nat (byte c) OR 0x20"

definition IS_ALPHA :: "char \<Rightarrow> bool" where
  "IS_ALPHA c \<longleftrightarrow> 0x61 \<le> LOWER c \<and> LOWER c \<le> 0x7a"

definition IS_NUM :: "char \<Rightarrow> bool" where
  "IS_NUM c \<longleftrightarrow> isdigit c"

definition IS_ALPHANUM :: "char \<Rightarrow> bool" where
  "IS_ALPHANUM c \<longleftrightarrow> IS_ALPHA c \<or> IS_NUM c"

definition IS_HEX :: "char \<Rightarrow> bool" where
  "IS_HEX c \<longleftrightarrow> IS_NUM c \<or> (0x61 \<le> LOWER c \<and> LOWER c \<le> 0x66)"

definition IS_MARK :: "char \<Rightarrow> bool" where
  "IS_MARK c \<longleftrightarrow> c \<in> {CHR ''-'', CHR ''_'', CHR ''.'', CHR ''!'', CHR ''~'', CHR ''*'', CHR 0x27, CHR ''('', CHR '')''}"

definition IS_USERINFO_CHAR :: "char \<Rightarrow> bool" where
  "IS_USERINFO_CHAR c \<longleftrightarrow>
     IS_ALPHANUM c \<or> IS_MARK c \<or>
     c \<in> {CHR ''%'', CHR '';'', CHR '':'', CHR ''&'', CHR ''='', CHR ''+'', CHR ''$'', CHR '',''}"

definition normal_url_char :: "8 word list" where
  "normal_url_char =
     [0, 0, 0, 0, 246, 255, 255, 127, 255, 255, 255, 255, 255, 255, 255, 127] @ replicate 16 0"

definition IS_URL_CHAR :: "char \<Rightarrow> bool" where
  "IS_URL_CHAR c \<longleftrightarrow> bit (normal_url_char ! (byte c div 8)) (byte c mod 8)"

definition IS_HOST_CHAR :: "char \<Rightarrow> bool" where
  "IS_HOST_CHAR c \<longleftrightarrow> IS_ALPHANUM c \<or> c = CHR ''.'' \<or> c = CHR ''-''"

section \<open>The state machine\<close>

datatype url_state =
    S_dead | S_req_spaces_before_url | S_req_schema | S_req_schema_slash | S_req_schema_slash_slash
  | S_req_server_start | S_req_server | S_req_server_with_at | S_req_path
  | S_req_query_string_start | S_req_query_string | S_req_fragment_start | S_req_fragment

definition server_char :: "char \<Rightarrow> url_state" where
  "server_char ch =
     (if ch = CHR ''/'' then S_req_path
      else if ch = CHR ''?'' then S_req_query_string_start
      else if ch = CHR ''@'' then S_req_server_with_at
      else if IS_USERINFO_CHAR ch \<or> ch = CHR ''['' \<or> ch = CHR '']'' then S_req_server
      else S_dead)"

definition parse_url_char :: "url_state \<Rightarrow> char \<Rightarrow> url_state" where
  "parse_url_char s ch =
     (if ch = CHR '' '' \<or> ch = CR \<or> ch = LF then S_dead
      else if ch = TAB \<or> ch = FF then S_dead
      else case s of
        S_req_spaces_before_url \<Rightarrow>
          if ch = CHR ''/'' \<or> ch = CHR ''*'' then S_req_path
          else if IS_ALPHA ch then S_req_schema else S_dead
      | S_req_schema \<Rightarrow>
          if IS_ALPHA ch then s else if ch = CHR '':'' then S_req_schema_slash else S_dead
      | S_req_schema_slash \<Rightarrow> if ch = CHR ''/'' then S_req_schema_slash_slash else S_dead
      | S_req_schema_slash_slash \<Rightarrow> if ch = CHR ''/'' then S_req_server_start else S_dead
      | S_req_server_with_at \<Rightarrow> if ch = CHR ''@'' then S_dead else server_char ch
      | S_req_server_start \<Rightarrow> server_char ch
      | S_req_server \<Rightarrow> server_char ch
      | S_req_path \<Rightarrow>
          if IS_URL_CHAR ch then s
          else if ch = CHR ''?'' then S_req_query_string_start
          else if ch = CHR ''#'' then S_req_fragment_start else S_dead
      | S_req_query_string_start \<Rightarrow>
          if IS_URL_CHAR ch then S_req_query_string
          else if ch = CHR ''?'' then S_req_query_string
          else if ch = CHR ''#'' then S_req_fragment_start else S_dead
      | S_req_query_string \<Rightarrow>
          if IS_URL_CHAR ch then S_req_query_string
          else if ch = CHR ''?'' then S_req_query_string
          else if ch = CHR ''#'' then S_req_fragment_start else S_dead
      | S_req_fragment_start \<Rightarrow>
          if IS_URL_CHAR ch then S_req_fragment
          else if ch = CHR ''?'' then S_req_fragment
          else if ch = CHR ''#'' then s else S_dead
      | S_req_fragment \<Rightarrow>
          if IS_URL_CHAR ch then s
          else if ch = CHR ''?'' \<or> ch = CHR ''#'' then s else S_dead
      | S_dead \<Rightarrow> S_dead)"

section \<open>Fields\<close>

datatype url_field = UF_SCHEMA | UF_HOST | UF_PORT | UF_PATH | UF_QUERY | UF_FRAGMENT | UF_USERINFO

text \<open>Offset and length of a field, and none for one whose bit in \<^verbatim>\<open>field_set\<close> is not set; its data is then
  indeterminate.\<close>

type_synonym field_data = "url_field \<Rightarrow> (16 word \<times> 16 word) option"

record http_parser_url =
  hu_field :: field_data
  hu_port :: "16 word"

text \<open>What the switch over the state says of a character: the URL is refused, the character is a delimiter, or it
  belongs to a field.  The initial state is not among the cases.\<close>

datatype url_char_kind = Refused | Delimiter | In_field url_field | Unexpected

fun kind_of :: "url_state \<Rightarrow> url_char_kind" where
  "kind_of S_dead = Refused"
| "kind_of S_req_schema_slash = Delimiter"
| "kind_of S_req_schema_slash_slash = Delimiter"
| "kind_of S_req_server_start = Delimiter"
| "kind_of S_req_query_string_start = Delimiter"
| "kind_of S_req_fragment_start = Delimiter"
| "kind_of S_req_schema = In_field UF_SCHEMA"
| "kind_of S_req_server_with_at = In_field UF_HOST"
| "kind_of S_req_server = In_field UF_HOST"
| "kind_of S_req_path = In_field UF_PATH"
| "kind_of S_req_query_string = In_field UF_QUERY"
| "kind_of S_req_fragment = In_field UF_FRAGMENT"
| "kind_of S_req_spaces_before_url = Unexpected"

text \<open>One more character of a field: \<^verbatim>\<open>len++\<close> on 16 bits.\<close>

definition grow :: "url_field \<Rightarrow> field_data \<Rightarrow> field_data" where
  "grow uf fd = fd(uf := map_option (\<lambda>(off, len). (off, len + 1)) (fd uf))"

section \<open>The scan\<close>

text \<open>The loop from position \<^verbatim>\<open>p\<close> on: the fields and \<^verbatim>\<open>found_at\<close>, or none when the URL is refused.\<close>

fun url_loop_at :: "nat \<Rightarrow> string \<Rightarrow> url_state \<Rightarrow> url_field option \<Rightarrow> field_data \<Rightarrow> bool \<Rightarrow> (field_data \<times> bool) option result" where
  "url_loop_at p [] s old_uf fd found_at = Inr (Some (fd, found_at))"
| "url_loop_at p (ch # cs) s old_uf fd found_at =
     (let s' = parse_url_char s ch;
          found_at' = (found_at \<or> s' = S_req_server_with_at)
      in case kind_of s' of
           Refused \<Rightarrow> Inr None
         | Delimiter \<Rightarrow> url_loop_at (p + 1) cs s' old_uf fd found_at'
         | Unexpected \<Rightarrow> Inl Aborted
         | In_field uf \<Rightarrow>
             if Some uf = old_uf then url_loop_at (p + 1) cs s' old_uf (grow uf fd) found_at'
             else url_loop_at (p + 1) cs s' (Some uf) (fd(uf \<mapsto> (of_nat p, 1))) found_at')"

section \<open>The host\<close>

datatype host_state =
    H_dead | H_userinfo_start | H_userinfo | H_host_start | H_host_v6_start | H_host | H_host_v6 | H_host_v6_end
  | H_host_port_start | H_host_port

definition http_parse_host_char :: "host_state \<Rightarrow> char \<Rightarrow> host_state" where
  "http_parse_host_char s ch =
     (case s of
        H_userinfo \<Rightarrow> if ch = CHR ''@'' then H_host_start else if IS_USERINFO_CHAR ch then H_userinfo else H_dead
      | H_userinfo_start \<Rightarrow> if ch = CHR ''@'' then H_host_start else if IS_USERINFO_CHAR ch then H_userinfo else H_dead
      | H_host_start \<Rightarrow> if ch = CHR ''['' then H_host_v6_start else if IS_HOST_CHAR ch then H_host else H_dead
      | H_host \<Rightarrow> if IS_HOST_CHAR ch then H_host else if ch = CHR '':'' then H_host_port_start else H_dead
      | H_host_v6_end \<Rightarrow> if ch = CHR '':'' then H_host_port_start else H_dead
      | H_host_v6 \<Rightarrow>
          if ch = CHR '']'' then H_host_v6_end
          else if IS_HEX ch \<or> ch = CHR '':'' \<or> ch = CHR ''.'' then H_host_v6 else H_dead
      | H_host_v6_start \<Rightarrow> if IS_HEX ch \<or> ch = CHR '':'' \<or> ch = CHR ''.'' then H_host_v6 else H_dead
      | H_host_port \<Rightarrow> if IS_NUM ch then H_host_port else H_dead
      | H_host_port_start \<Rightarrow> if IS_NUM ch then H_host_port else H_dead
      | H_dead \<Rightarrow> H_dead)"

text \<open>The bodies of the switch over the new state.  The host keeps its data when it is entered again, only the
  offset moves.\<close>

definition host_mark :: "nat \<Rightarrow> host_state \<Rightarrow> host_state \<Rightarrow> field_data \<Rightarrow> field_data" where
  "host_mark p s new_s fd =
     (let enter_host = fd(UF_HOST := map_option (\<lambda>(off, len). (of_nat p, len)) (fd UF_HOST))
      in if new_s = H_host then grow UF_HOST (if s \<noteq> H_host then enter_host else fd)
         else if new_s = H_host_v6 then grow UF_HOST (if s \<noteq> H_host_v6 then enter_host else fd)
         else if new_s = H_host_port then grow UF_PORT (if s \<noteq> H_host_port then fd(UF_PORT \<mapsto> (of_nat p, 0)) else fd)
         else if new_s = H_userinfo then grow UF_USERINFO (if s \<noteq> H_userinfo then fd(UF_USERINFO \<mapsto> (of_nat p, 0)) else fd)
         else fd)"

fun host_loop :: "nat \<Rightarrow> string \<Rightarrow> host_state \<Rightarrow> field_data \<Rightarrow> (host_state \<times> field_data) option" where
  "host_loop p [] s fd = Some (s, fd)"
| "host_loop p (ch # cs) s fd =
     (let new_s = http_parse_host_char s ch
      in if new_s = H_dead then None else host_loop (p + 1) cs new_s (host_mark p s new_s fd))"

text \<open>Without a host the data of the field is what was in memory.\<close>

definition http_parse_host :: "string \<Rightarrow> field_data \<Rightarrow> bool \<Rightarrow> field_data option result" where
  "http_parse_host buf fd found_at =
     (case fd UF_HOST of
        None \<Rightarrow> Inl Undefined
      | Some (off, len) \<Rightarrow>
          (case host_loop (unat off) (take (unat len) (drop (unat off) buf))
                  (if found_at then H_userinfo_start else H_host_start) (fd(UF_HOST \<mapsto> (off, 0))) of
             None \<Rightarrow> Inr None
           | Some (s, fd') \<Rightarrow>
               if s \<in> {H_host_start, H_host_v6_start, H_host_v6, H_host_port_start, H_userinfo, H_userinfo_start}
               then Inr None else Inr (Some fd')))"

text \<open>\<^verbatim>\<open>strtoul\<close> with base ten, on 64 bits.\<close>

definition strtoul10 :: "string \<Rightarrow> nat" where
  "strtoul10 s =
     (let (sg, t) = strip_sign (dropWhile isspace s); v = digits_value (takeWhile isdigit t)
      in if 2 ^ 64 \<le> v then 2 ^ 64 - 1 else if sg < 0 then (2 ^ 64 - v) mod 2 ^ 64 else v)"

section \<open>\<^verbatim>\<open>http_parser_parse_url\<close>\<close>

definition url_port :: "string \<Rightarrow> field_data \<Rightarrow> http_parser_url option" where
  "url_port buf fd =
     (case fd UF_PORT of
        None \<Rightarrow> Some \<lparr>hu_field = fd, hu_port = 0\<rparr>
      | Some (off, len) \<Rightarrow>
          (let v = strtoul10 (drop (unat off) buf)
           in if 0xffff < v then None else Some \<lparr>hu_field = fd, hu_port = of_nat v\<rparr>))"

definition only_host_and_port :: "field_data \<Rightarrow> bool" where
  "only_host_and_port fd \<longleftrightarrow>
     fd UF_HOST \<noteq> None \<and> fd UF_PORT \<noteq> None \<and> fd UF_SCHEMA = None \<and> fd UF_PATH = None \<and> fd UF_QUERY = None \<and>
     fd UF_FRAGMENT = None \<and> fd UF_USERINFO = None"

text \<open>The result is none when the function returns 1.\<close>

definition http_parser_parse_url :: "string \<Rightarrow> bool \<Rightarrow> http_parser_url option result" where
  "http_parser_parse_url buf is_connect =
     rbind (url_loop_at 0 buf (if is_connect then S_req_server_start else S_req_spaces_before_url) None (\<lambda>uf. None) False)
       (\<lambda>scanned. case scanned of
          None \<Rightarrow> Inr None
        | Some (fd, found_at) \<Rightarrow>
            rbind (if fd UF_SCHEMA \<noteq> None \<or> fd UF_HOST \<noteq> None then http_parse_host buf fd found_at else Inr (Some fd))
              (\<lambda>hosted. case hosted of
                 None \<Rightarrow> Inr None
               | Some fd' \<Rightarrow>
                   if is_connect \<and> \<not> only_host_and_port fd' then Inr None else Inr (url_port buf fd')))"

section \<open>Fields lie in the buffer\<close>

text \<open>Every field of \<^verbatim>\<open>F\<close> that is set ends at or before position \<^verbatim>\<open>p\<close>.\<close>

definition within :: "url_field set \<Rightarrow> nat \<Rightarrow> field_data \<Rightarrow> bool" where
  "within F p fd \<longleftrightarrow> (\<forall>uf \<in> F. \<forall>off len. fd uf = Some (off, len) \<longrightarrow> unat off + unat len \<le> p)"

lemma withinI: "(\<And>uf off len. uf \<in> F \<Longrightarrow> fd uf = Some (off, len) \<Longrightarrow> unat off + unat len \<le> p) \<Longrightarrow> within F p fd"
  by (auto simp: within_def)

lemma withinD: "within F p fd \<Longrightarrow> uf \<in> F \<Longrightarrow> fd uf = Some (off, len) \<Longrightarrow> unat off + unat len \<le> p"
  by (auto simp: within_def)

lemma unat_plus_one: "unat (w + 1 :: 16 word) \<le> unat w + 1"
  by (simp add: unat_word_ariths)

lemma unat_of_nat_16: "unat (of_nat p :: 16 word) \<le> p"
  using mod_less_eq_dividend [of p "65536"] by (simp add: unat_of_nat)

lemma within_mono: "within F p fd \<Longrightarrow> p \<le> q \<Longrightarrow> within F q fd"
  by (fastforce simp: within_def)

lemma within_grow: "within F p fd \<Longrightarrow> within F (p + 1) (grow uf fd)"
proof (rule withinI)
  fix g off len
  assume w: "within F p fd" "g \<in> F" "grow uf fd g = Some (off, len)"
  then obtain len0 where "fd g = Some (off, len0)" "len = len0 \<or> len = len0 + 1"
    by (auto simp: grow_def split: if_splits)
  then show "unat off + unat len \<le> p + 1"
    using withinD [OF w(1,2)] unat_plus_one [of len0] by fastforce
qed

lemma within_set: "within F p fd \<Longrightarrow> unat off + unat len \<le> p \<Longrightarrow> within F p (fd(uf \<mapsto> (off, len)))"
  by (auto simp: within_def)

lemma within_enter: "within F p fd \<Longrightarrow> within F (p + 1) (fd(uf \<mapsto> (of_nat p, 1)))"
  using unat_of_nat_16 [of p] by (intro within_set) (auto intro: within_mono)

lemma url_loop_within:
  "url_loop_at p cs s old fd at = Inr (Some (fd', at')) \<Longrightarrow> within F p fd \<Longrightarrow> within F (p + length cs) fd'"
proof (induction cs arbitrary: p s old fd at)
  case (Cons c cs)
  have w: "within F (p + 1) fd" using Cons.prems(2) by (rule within_mono) simp
  show ?case
    using Cons.prems(1) Cons.IH [OF _ w] Cons.IH [OF _ within_grow [OF Cons.prems(2)]] Cons.IH [OF _ within_enter [OF Cons.prems(2)]]
    by (auto simp: Let_def simp del: fun_upd_apply split: url_char_kind.splits if_splits)
qed simp

text \<open>The scan marks neither a port nor user information; the second pass does.\<close>

lemma kind_of_field: "kind_of s = In_field uf \<Longrightarrow> uf \<notin> {UF_PORT, UF_USERINFO}"
  by (cases s) auto

lemma url_loop_no_port:
  "url_loop_at p cs s old fd at = Inr (Some (fd', at')) \<Longrightarrow> g \<in> {UF_PORT, UF_USERINFO} \<Longrightarrow> fd g = None \<Longrightarrow> fd' g = None"
proof (induction cs arbitrary: p s old fd at)
  case (Cons c cs)
  show ?case
  proof (cases "kind_of (parse_url_char s c)")
    case (In_field uf)
    then have "g \<noteq> uf" using kind_of_field Cons.prems(2) by blast
    then show ?thesis using In_field Cons.prems Cons.IH by (auto simp: Let_def grow_def split: if_splits)
  qed (use Cons.prems Cons.IH in \<open>auto simp: Let_def\<close>)
qed simp

text \<open>In the second pass the host is entered once, with no character read; the fields of the host end at or before
  the position reached, the others in the buffer.\<close>

definition host_fields :: "url_field set" where
  "host_fields = {UF_HOST, UF_PORT, UF_USERINFO}"

definition host_fresh :: "host_state \<Rightarrow> bool" where
  "host_fresh s \<longleftrightarrow> s \<in> {H_userinfo_start, H_userinfo, H_host_start, H_host_v6_start}"

definition host_inv :: "nat \<Rightarrow> nat \<Rightarrow> host_state \<Rightarrow> field_data \<Rightarrow> bool" where
  "host_inv n q s fd \<longleftrightarrow>
     within (- host_fields) n fd \<and> within host_fields q fd \<and>
     (host_fresh s \<longrightarrow> (\<forall>off len. fd UF_HOST = Some (off, len) \<longrightarrow> len = 0))"

lemma host_char_from:
  "http_parse_host_char s c = H_host \<Longrightarrow> s = H_host \<or> host_fresh s"
  "http_parse_host_char s c = H_host_v6 \<Longrightarrow> s = H_host_v6 \<or> host_fresh s"
  "host_fresh (http_parse_host_char s c) \<Longrightarrow> host_fresh s"
  by (auto simp: http_parse_host_char_def host_fresh_def split: host_state.splits if_splits)

lemma within_enter_host:
  assumes "host_inv n q s fd" "host_fresh s"
  shows "within host_fields q (fd(UF_HOST := map_option (\<lambda>(off, len). (of_nat q, len)) (fd UF_HOST)))"
proof (rule withinI)
  fix uf off len
  assume uf: "uf \<in> host_fields" "(fd(UF_HOST := map_option (\<lambda>(off, len). (of_nat q, len)) (fd UF_HOST))) uf = Some (off, len)"
  show "unat off + unat len \<le> q"
  proof (cases "uf = UF_HOST")
    case True
    then show ?thesis using uf(2) assms unat_of_nat_16 [of q] by (auto simp: host_inv_def)
  next
    case False
    then show ?thesis using uf assms(1) withinD [of host_fields q fd uf off len] by (simp add: host_inv_def)
  qed
qed

lemma host_mark_within:
  assumes "host_inv n q s fd" "new_s = http_parse_host_char s c"
  shows "within host_fields (q + 1) (host_mark q s new_s fd)"
proof -
  have w: "within host_fields q fd" using assms(1) by (simp add: host_inv_def)
  have entered: "within host_fields q (fd(g \<mapsto> (of_nat q, 0)))" for g
    using w unat_of_nat_16 [of q] by (intro within_set) simp_all
  have host: "within host_fields q (if s \<noteq> t then fd(UF_HOST := map_option (\<lambda>(off, len). (of_nat q, len)) (fd UF_HOST)) else fd)"
    if "s = t \<or> host_fresh s" for t
    using that w within_enter_host [OF assms(1)] by auto
  consider "new_s = H_host" | "new_s = H_host_v6" | "new_s = H_host_port" | "new_s = H_userinfo"
    | "new_s \<notin> {H_host, H_host_v6, H_host_port, H_userinfo}" by blast
  then show ?thesis
  proof cases
    case 1
    then show ?thesis
      using within_grow [OF host [OF host_char_from(1) [of s c]]] assms(2) by (simp add: host_mark_def Let_def)
  next
    case 2
    then show ?thesis
      using within_grow [OF host [OF host_char_from(2) [of s c]]] assms(2) by (simp add: host_mark_def Let_def)
  next
    case 3
    then show ?thesis using within_grow [OF w] within_grow [OF entered] by (simp add: host_mark_def Let_def)
  next
    case 4
    then show ?thesis using within_grow [OF w] within_grow [OF entered] by (simp add: host_mark_def Let_def)
  next
    case 5
    then show ?thesis using within_mono [OF w] by (simp add: host_mark_def Let_def)
  qed
qed

lemma host_mark_inv:
  assumes "host_inv n q s fd" "new_s = http_parse_host_char s c"
  shows "host_inv n (q + 1) new_s (host_mark q s new_s fd)"
proof -
  have "host_mark q s new_s fd uf = fd uf" if "uf \<notin> host_fields" for uf
    using that by (simp add: host_mark_def grow_def Let_def host_fields_def)
  then have "within (- host_fields) n (host_mark q s new_s fd)"
    using assms(1) by (simp add: host_inv_def within_def)
  moreover have "host_mark q s new_s fd UF_HOST = fd UF_HOST" if "host_fresh new_s"
    using that by (auto simp: host_mark_def grow_def Let_def host_fresh_def)
  ultimately show ?thesis
    using host_mark_within [OF assms] assms host_char_from(3) [of s c] by (auto simp: host_inv_def)
qed

lemma host_loop_inv:
  "host_loop q cs s fd = Some (s', fd') \<Longrightarrow> host_inv n q s fd \<Longrightarrow> host_inv n (q + length cs) s' fd'"
proof (induction cs arbitrary: q s fd)
  case (Cons c cs)
  then show ?case
    using Cons.IH [OF _ host_mark_inv [OF Cons.prems(2) refl]] by (auto simp: Let_def split: if_splits)
qed simp

lemma http_parse_host_within:
  assumes "http_parse_host buf fd at = Inr (Some fd')" "within UNIV (length buf) fd" "fd UF_PORT = None" "fd UF_USERINFO = None"
  shows "within UNIV (length buf) fd'"
proof -
  obtain off len s where host: "fd UF_HOST = Some (off, len)"
    "host_loop (unat off) (take (unat len) (drop (unat off) buf))
      (if at then H_userinfo_start else H_host_start) (fd(UF_HOST \<mapsto> (off, 0))) = Some (s, fd')"
    using assms(1) by (auto simp: http_parse_host_def split: option.splits if_splits)
  have len: "unat off + unat len \<le> length buf" using withinD [OF assms(2) UNIV_I host(1)] .
  have "host_inv (length buf) (unat off) (if at then H_userinfo_start else H_host_start) (fd(UF_HOST \<mapsto> (off, 0)))"
    using assms(2-4) by (auto simp: host_inv_def within_def host_fields_def)
  from host_loop_inv [OF host(2) this] have "within (- host_fields) (length buf) fd'" "within host_fields (unat off + unat len) fd'"
    using len by (simp_all add: host_inv_def)
  then have "within (- host_fields) (length buf) fd'" "within host_fields (length buf) fd'"
    using len by (auto intro: within_mono)
  then show ?thesis by (auto simp: within_def)
qed

section \<open>Runs of the scan\<close>

lemma grow_times: "(grow uf ^^ n) fd = fd(uf := map_option (\<lambda>(off, len). (off, len + of_nat n)) (fd uf))"
proof (induction n)
  case 0
  show ?case by (cases "fd uf") (auto simp: fun_eq_iff)
next
  case (Suc n)
  then show ?case by (cases "fd uf") (auto simp: grow_def fun_eq_iff add.assoc)
qed

text \<open>Characters that keep the scan in the state of a field.\<close>

lemma url_run:
  assumes "\<forall>c \<in> set cs. parse_url_char s c = s" "kind_of s = In_field uf" "s \<noteq> S_req_server_with_at"
  shows "url_loop_at p (cs @ rest) s (Some uf) fd at = url_loop_at (p + length cs) rest s (Some uf) ((grow uf ^^ length cs) fd) at"
  using assms(1)
proof (induction cs arbitrary: p fd)
  case (Cons c cs)
  then show ?case using assms(2,3) by (simp add: Let_def funpow_swap1)
qed simp

lemma url_char_plain:
  "IS_URL_CHAR c \<longleftrightarrow> 33 \<le> byte c \<and> byte c \<le> 126 \<and> c \<noteq> CHR ''#'' \<and> c \<noteq> CHR ''?''"
proof -
  have "list_all (\<lambda>n. bit (normal_url_char ! (n div 8)) (n mod 8) \<longleftrightarrow> 33 \<le> n \<and> n \<le> 126 \<and> n \<noteq> 35 \<and> n \<noteq> 63) [0..<256]"
    by code_simp
  then have "bit (normal_url_char ! (byte c div 8)) (byte c mod 8) \<longleftrightarrow> 33 \<le> byte c \<and> byte c \<le> 126 \<and> byte c \<noteq> 35 \<and> byte c \<noteq> 63"
    using byte_less [of c] by (simp add: list_all_iff)
  then show ?thesis by (auto simp: IS_URL_CHAR_def char_eq_byte [of c])
qed

lemma url_char_states:
  assumes "IS_URL_CHAR c"
  shows "parse_url_char S_req_path c = S_req_path" "parse_url_char S_req_query_string_start c = S_req_query_string"
    "parse_url_char S_req_query_string c = S_req_query_string"
proof -
  have "c \<noteq> CHR '' ''" "c \<noteq> CR" "c \<noteq> LF" "c \<noteq> TAB" "c \<noteq> FF" using assms by (auto simp: url_char_plain)
  then show "parse_url_char S_req_path c = S_req_path" "parse_url_char S_req_query_string_start c = S_req_query_string"
    "parse_url_char S_req_query_string c = S_req_query_string"
    using assms by (simp_all add: parse_url_char_def)
qed

text \<open>A target in origin form: a path, and a query when there is one.\<close>

definition origin_target :: "string \<Rightarrow> string option \<Rightarrow> string" where
  "origin_target p q = CHR ''/'' # p @ (case q of None \<Rightarrow> [] | Some t \<Rightarrow> CHR ''?'' # t)"

definition query_char :: "char \<Rightarrow> bool" where
  "query_char c \<longleftrightarrow> IS_URL_CHAR c \<or> c = CHR ''?''"

lemma query_char_states:
  assumes "query_char c"
  shows "parse_url_char S_req_query_string_start c = S_req_query_string" "parse_url_char S_req_query_string c = S_req_query_string"
proof -
  have "parse_url_char S_req_query_string_start (CHR ''?'') = S_req_query_string"
    "parse_url_char S_req_query_string (CHR ''?'') = S_req_query_string"
    by (simp_all add: parse_url_char_def url_char_plain char_eq_byte [of "CHR ''?''"])
  then show "parse_url_char S_req_query_string_start c = S_req_query_string" "parse_url_char S_req_query_string c = S_req_query_string"
    using assms url_char_states(2,3) [of c] unfolding query_char_def by metis+
qed

definition origin_fields :: "string \<Rightarrow> string option \<Rightarrow> field_data" where
  "origin_fields p q =
     (\<lambda>uf. None)(UF_PATH \<mapsto> (0, of_nat (length p + 1)),
       UF_QUERY := (case q of None \<Rightarrow> None | Some t \<Rightarrow> if t = [] then None else Some (of_nat (length p + 2), of_nat (length t))))"

lemma origin_scan:
  assumes "\<forall>c \<in> set p. IS_URL_CHAR c" "\<forall>t. q = Some t \<longrightarrow> (\<forall>c \<in> set t. query_char c)"
  shows "url_loop_at 0 (origin_target p q) S_req_spaces_before_url None (\<lambda>uf. None) False = Inr (Some (origin_fields p q, False))"
proof -
  let ?path = "(\<lambda>uf. None)(UF_PATH \<mapsto> (0, of_nat (length p + 1))) :: field_data"
  have slash: "parse_url_char S_req_spaces_before_url (CHR ''/'') = S_req_path"
    by (simp add: parse_url_char_def char_eq_byte [of "CHR ''/''"])
  have mark: "parse_url_char S_req_path (CHR ''?'') = S_req_query_string_start"
    by (simp add: parse_url_char_def url_char_plain char_eq_byte [of "CHR ''?''"])
  have path: "url_loop_at 0 (origin_target p q) S_req_spaces_before_url None (\<lambda>uf. None) False =
      url_loop_at (1 + length p) (case q of None \<Rightarrow> [] | Some t \<Rightarrow> CHR ''?'' # t) S_req_path (Some UF_PATH) ?path False"
    using url_run [of p S_req_path UF_PATH 1 _ "(\<lambda>uf. None)(UF_PATH \<mapsto> (0, 1))"] url_char_states(1) assms(1)
    by (simp add: origin_target_def slash Let_def grow_times add.commute)
  show ?thesis
  proof (cases q)
    case None
    then show ?thesis using path by (simp add: origin_fields_def)
  next
    case (Some t)
    have tail: "url_loop_at (1 + length p) (CHR ''?'' # t) S_req_path (Some UF_PATH) ?path False =
        url_loop_at (2 + length p) t S_req_query_string_start (Some UF_PATH) ?path False"
      by (simp add: mark Let_def)
    show ?thesis
    proof (cases t)
      case Nil
      then show ?thesis using path tail Some by (simp add: origin_fields_def)
    next
      case (Cons c cs)
      have c: "query_char c" "\<forall>c \<in> set cs. query_char c" using assms(2) Some Cons by auto
      show ?thesis
        using path tail Some Cons url_run [of cs S_req_query_string UF_QUERY "Suc (Suc (Suc (length p)))" "[]"] query_char_states c
        by (simp add: Let_def grow_times origin_fields_def fun_eq_iff add.commute)
    qed
  qed
qed

lemma origin_parsed:
  assumes "\<forall>c \<in> set p. IS_URL_CHAR c" "\<forall>t. q = Some t \<longrightarrow> (\<forall>c \<in> set t. query_char c)"
  shows "http_parser_parse_url (origin_target p q) False = Inr (Some \<lparr>hu_field = origin_fields p q, hu_port = 0\<rparr>)"
  using origin_scan [OF assms]
  by (simp add: http_parser_parse_url_def origin_fields_def url_port_def)

text \<open>C16: Whatever bytes \<^verbatim>\<open>http_parser_parse_url\<close> is given, every field it marks lies inside the buffer, although
  offsets and lengths are taken modulo 65536.\<close>

theorem url_fields_in_bounds:
  assumes "http_parser_parse_url buf is_connect = Inr (Some u)" "hu_field u uf = Some (off, len)"
  shows "unat off + unat len \<le> length buf"
proof -
  obtain fd at fd' where scan: "url_loop_at 0 buf (if is_connect then S_req_server_start else S_req_spaces_before_url) None
      (\<lambda>uf. None) False = Inr (Some (fd, at))"
    and host: "(if fd UF_SCHEMA \<noteq> None \<or> fd UF_HOST \<noteq> None then http_parse_host buf fd at else Inr (Some fd)) = Inr (Some fd')"
    and port: "url_port buf fd' = Some u"
    using assms(1) by (auto simp: http_parser_parse_url_def rbind_Inr_iff split: option.splits if_splits)
  have "within UNIV (0 + length buf) fd" by (rule url_loop_within [OF scan]) (simp add: within_def)
  then have fd: "within UNIV (length buf) fd" by simp
  moreover have "fd UF_PORT = None" "fd UF_USERINFO = None" using url_loop_no_port [OF scan] by simp_all
  ultimately have "within UNIV (length buf) fd'"
    using host http_parse_host_within by (auto split: if_splits)
  moreover have "hu_field u = fd'" using port by (auto simp: url_port_def Let_def split: option.splits if_splits)
  ultimately show ?thesis using assms(2) withinD by blast
qed

theorem url_fields_in_bounds_witness:
  "\<exists>u. http_parser_parse_url ''/a?bc'' False = Inr (Some u) \<and> hu_field u UF_QUERY = Some (3, 2) \<and>
     unat (3 :: 16 word) + unat (2 :: 16 word) \<le> length ''/a?bc''"
proof -
  let ?u = "\<lparr>hu_field = origin_fields ''a'' (Some ''bc''), hu_port = 0\<rparr>"
  have "http_parser_parse_url ''/a?bc'' False = Inr (Some ?u)"
    using origin_parsed [of "''a''" "Some ''bc''"]
    by (simp add: origin_target_def url_char_plain query_char_def char_eq_byte [of _ "CHR ''#''"] char_eq_byte [of _ "CHR ''?''"])
  moreover have "hu_field ?u UF_QUERY = Some (3, 2)" by (simp add: origin_fields_def)
  ultimately show ?thesis using url_fields_in_bounds [of "''/a?bc''" False ?u UF_QUERY 3 2] by blast
qed

section \<open>Targets without a host\<close>

lemma alpha_char: "IS_ALPHA c \<longleftrightarrow> isalpha c"
proof -
  have "list_all (\<lambda>n. (0x61 \<le> (of_nat n :: 8 word) OR 0x20 \<and> (of_nat n :: 8 word) OR 0x20 \<le> 0x7a) \<longleftrightarrow>
      (65 \<le> n \<and> n \<le> 90) \<or> (97 \<le> n \<and> n \<le> 122)) [0..<256]"
    by code_simp
  then have "0x61 \<le> LOWER c \<and> LOWER c \<le> 0x7a \<longleftrightarrow> (65 \<le> byte c \<and> byte c \<le> 90) \<or> (97 \<le> byte c \<and> byte c \<le> 122)"
    using byte_less [of c] by (simp add: list_all_iff LOWER_def)
  then show ?thesis by (simp add: IS_ALPHA_def char_class_defs)
qed

lemma alpha_states:
  assumes "IS_ALPHA c"
  shows "parse_url_char S_req_spaces_before_url c = S_req_schema" "parse_url_char S_req_schema c = S_req_schema"
proof -
  have "c \<noteq> CHR '' ''" "c \<noteq> CR" "c \<noteq> LF" "c \<noteq> TAB" "c \<noteq> FF" "c \<noteq> CHR ''/''" "c \<noteq> CHR ''*''"
    using assms by (auto simp: alpha_char char_class_defs)
  then show "parse_url_char S_req_spaces_before_url c = S_req_schema" "parse_url_char S_req_schema c = S_req_schema"
    using assms by (simp_all add: parse_url_char_def)
qed

text \<open>The states a target that starts with a slash or an asterisk goes through mark neither scheme nor host.\<close>

definition path_state :: "url_state \<Rightarrow> bool" where
  "path_state s \<longleftrightarrow>
     s \<in> {S_dead, S_req_path, S_req_query_string_start, S_req_query_string, S_req_fragment_start, S_req_fragment}"

lemma path_state_step: "path_state s \<Longrightarrow> path_state (parse_url_char s c)"
  by (cases s) (simp_all add: path_state_def parse_url_char_def)

lemma grow_other: "grow uf fd g = None \<longleftrightarrow> fd g = None"
  by (auto simp: grow_def)

lemma path_scan:
  "path_state s \<Longrightarrow> fd UF_SCHEMA = None \<Longrightarrow> fd UF_HOST = None \<Longrightarrow>
     \<exists>r. url_loop_at p cs s old fd at = Inr r \<and>
       (\<forall>fd' at'. r = Some (fd', at') \<longrightarrow> fd' UF_SCHEMA = None \<and> fd' UF_HOST = None)"
proof (induction cs arbitrary: p s old fd at)
  case (Cons c cs)
  have s: "path_state (parse_url_char s c)" by (rule path_state_step [OF Cons.prems(1)])
  have go: "\<exists>r. url_loop_at (p + 1) cs (parse_url_char s c) old' fd' at' = Inr r \<and>
      (\<forall>fd'' at''. r = Some (fd'', at'') \<longrightarrow> fd'' UF_SCHEMA = None \<and> fd'' UF_HOST = None)"
    if "fd' UF_SCHEMA = None" "fd' UF_HOST = None" for old' fd' at'
    using Cons.IH [OF s that] .
  show ?case
  proof (cases "kind_of (parse_url_char s c)")
    case (In_field uf)
    then have uf: "uf \<noteq> UF_SCHEMA" "uf \<noteq> UF_HOST" using s by (auto simp: path_state_def)
    then show ?thesis using In_field Cons.prems go by (auto simp: Let_def grow_other)
  next
    case Delimiter
    then show ?thesis using go [OF Cons.prems(2,3)] by (simp add: Let_def)
  next
    case Refused
    then show ?thesis by (simp add: Let_def)
  next
    case Unexpected
    then show ?thesis using s by (auto simp: path_state_def)
  qed
qed simp

text \<open>C15: A target that starts with a slash or an asterisk is parsed without fault.  For one of the form
  \<^verbatim>\<open>scheme://?query\<close>, which the state machine lets through, \<^verbatim>\<open>http_parse_host\<close> reads the offset and length of the host,
  which nobody has written: the caller does not initialise the structure.\<close>

theorem uninitialised_host:
  "(c = CHR ''/'' \<or> c = CHR ''*'' \<longrightarrow> (\<exists>r. http_parser_parse_url (c # cs) False = Inr r)) \<and>
   (sch \<noteq> [] \<and> (\<forall>a \<in> set sch. IS_ALPHA a) \<and> (\<forall>a \<in> set q. query_char a) \<longrightarrow>
      http_parser_parse_url (sch @ ''://?'' @ q) False = Inl Undefined)"
proof (intro conjI impI)
  assume c: "c = CHR ''/'' \<or> c = CHR ''*''"
  have first: "parse_url_char S_req_spaces_before_url c = S_req_path"
    using c by (auto simp: parse_url_char_def char_eq_byte [of "CHR ''/''"] char_eq_byte [of "CHR ''*''"])
  obtain r where r: "url_loop_at 1 cs S_req_path (Some UF_PATH) ((\<lambda>uf. None)(UF_PATH \<mapsto> (0, 1))) False = Inr r"
    "\<forall>fd at. r = Some (fd, at) \<longrightarrow> fd UF_SCHEMA = None \<and> fd UF_HOST = None"
    using path_scan [of S_req_path "(\<lambda>uf. None)(UF_PATH \<mapsto> (0, 1))" 1 cs "Some UF_PATH" False] by (auto simp: path_state_def)
  then show "\<exists>r. http_parser_parse_url (c # cs) False = Inr r"
    by (cases r) (auto simp: http_parser_parse_url_def first Let_def)
next
  assume a: "sch \<noteq> [] \<and> (\<forall>a \<in> set sch. IS_ALPHA a) \<and> (\<forall>a \<in> set q. query_char a)"
  then obtain h hs where sch: "sch = h # hs" by (cases sch) auto
  have marks: "parse_url_char S_req_schema (CHR '':'') = S_req_schema_slash"
    "parse_url_char S_req_schema_slash (CHR ''/'') = S_req_schema_slash_slash"
    "parse_url_char S_req_schema_slash_slash (CHR ''/'') = S_req_server_start"
    "parse_url_char S_req_server_start (CHR ''?'') = S_req_query_string_start"
    by (simp_all add: parse_url_char_def server_char_def alpha_char char_class_defs char_eq_byte [of "CHR '':''"]
        char_eq_byte [of "CHR ''/''"] char_eq_byte [of "CHR ''?''"])
  let ?fd = "(grow UF_SCHEMA ^^ length hs) ((\<lambda>uf. None)(UF_SCHEMA \<mapsto> (0, 1)))"
  have fd: "?fd UF_SCHEMA \<noteq> None" "?fd UF_HOST = None" by (simp_all add: grow_times)
  obtain fd' at' where q: "url_loop_at (length hs + 5) q S_req_query_string_start (Some UF_SCHEMA) ?fd False = Inr (Some (fd', at'))"
    "fd' UF_SCHEMA \<noteq> None" "fd' UF_HOST = None"
  proof (cases q)
    case Nil
    show ?thesis by (rule that [of ?fd False]) (use fd Nil in simp_all)
  next
    case (Cons b bs)
    let ?fd2 = "(grow UF_QUERY ^^ length bs) (?fd(UF_QUERY \<mapsto> (of_nat (length hs + 5), 1)))"
    have "query_char b" "\<forall>c \<in> set bs. query_char c" using a Cons by auto
    then have "url_loop_at (length hs + 5) q S_req_query_string_start (Some UF_SCHEMA) ?fd False = Inr (Some (?fd2, False))"
      using Cons url_run [of bs S_req_query_string UF_QUERY "length hs + 5 + 1" "[]"] query_char_states
      by (simp add: Let_def add.assoc)
    then show ?thesis by (rule that) (simp_all add: grow_times)
  qed
  have "url_loop_at 0 (sch @ ''://?'' @ q) S_req_spaces_before_url None (\<lambda>uf. None) False = Inr (Some (fd', at'))"
    using a q(1) url_run [of hs S_req_schema UF_SCHEMA 1 "''://?'' @ q" "(\<lambda>uf. None)(UF_SCHEMA \<mapsto> (0, 1))" False]
    by (simp add: sch alpha_states marks Let_def eval_nat_numeral)
  then show "http_parser_parse_url (sch @ ''://?'' @ q) False = Inl Undefined"
    using q by (simp add: http_parser_parse_url_def http_parse_host_def)
qed

theorem uninitialised_host_witness:
  "http_parser_parse_url ''http://?'' False = Inl Undefined \<and> (\<exists>r. http_parser_parse_url ''/x#y z'' False = Inr r)"
  using uninitialised_host [of "CHR ''/''" "''x#y z''" "''http''" "[]"] by (simp add: alpha_char char_class_defs)

end
