(* ===== verification/RequestParser.thy ===== *)
theory RequestParser
  imports Request Url HttpUrl
begin

text \<open>
  \<^verbatim>\<open>src/request_parser.cpp\<close>, first part: the callbacks that collect what the HTTP parser reports, the
  feeding loop, and the decoding of the request line and the cookies.  (The bodies of POST requests
  are in the theory FormData.)  The HTTP parser proper is the vendored C library
  \<^verbatim>\<open>http_parser\<close>; it is a parameter, a record of the functions the code calls, and a call
  of \<^verbatim>\<open>http_parser_execute\<close> is known by the callbacks it made, the bytes it used and its new state.
  Its URL parser is modelled in HttpUrl.
\<close>

section \<open>The library\<close>

datatype parser_event =
    On_message_begin
  | On_url string
  | On_header_field string
  | On_header_value string
  | On_headers_complete nat nat
  | On_body string
  | On_status string
  | On_message_complete

datatype http_errno = HPE_OK | HPE_PAUSED | HPE_OTHER

record 'p http_parser_lib =
  hp_init :: 'p
  hp_execute :: "'p \<Rightarrow> string \<Rightarrow> parser_event list \<times> nat \<times> 'p"
  hp_errno :: "'p \<Rightarrow> http_errno"
  hp_pause :: "bool \<Rightarrow> 'p \<Rightarrow> 'p"
  hp_method_str :: "'p \<Rightarrow> string"

section \<open>The parser object\<close>

datatype parse_result = HTTP_PARSER_OK | HTTP_PARSER_ERROR | HTTP_PARSER_INDETERMINATE

record 'p request_parser =
  rp_parser :: 'p
  rp_field :: string
  rp_value :: string
  rp_url :: string
  rp_body :: string
  rp_protocol :: string
  rp_headers :: dict
  rp_complete :: bool

text \<open>\<^verbatim>\<open>reset()\<close> clears the strings that are appended to, not the headers.\<close>

definition rp_reset :: "'p http_parser_lib \<Rightarrow> 'p request_parser \<Rightarrow> 'p request_parser" where
  "rp_reset lib rp = rp\<lparr>rp_parser := hp_init lib, rp_url := [], rp_field := [], rp_value := [], rp_body := []\<rparr>"

text \<open>The constructor; \<^verbatim>\<open>is_complete_\<close> is not initialised, \<^verbatim>\<open>garbage\<close> is its value.\<close>

definition RequestParser :: "'p http_parser_lib \<Rightarrow> bool \<Rightarrow> 'p request_parser" where
  "RequestParser lib garbage =
     rp_reset lib \<lparr>rp_parser = hp_init lib, rp_field = [], rp_value = [], rp_url = [], rp_body = [],
       rp_protocol = [], rp_headers = [], rp_complete = garbage\<rparr>"

section \<open>The callbacks\<close>

definition flush_header :: "'p request_parser \<Rightarrow> 'p request_parser" where
  "flush_header rp =
     (if rp_value rp \<noteq> []
      then rp\<lparr>rp_headers := dict_set (rp_field rp) (rp_value rp) (rp_headers rp),
              rp_field := [], rp_value := []\<rparr>
      else rp)"

definition on_message_begin :: "'p request_parser \<Rightarrow> 'p request_parser" where
  "on_message_begin rp = rp\<lparr>rp_complete := False\<rparr>"

definition on_message_complete :: "'p request_parser \<Rightarrow> 'p request_parser" where
  "on_message_complete rp = rp\<lparr>rp_complete := True\<rparr>"

definition on_header_field :: "string \<Rightarrow> 'p request_parser \<Rightarrow> 'p request_parser" where
  "on_header_field d rp = (let rp = flush_header rp in rp\<lparr>rp_field := rp_field rp @ d\<rparr>)"

definition on_header_value :: "string \<Rightarrow> 'p request_parser \<Rightarrow> 'p request_parser" where
  "on_header_value d rp = rp\<lparr>rp_value := rp_value rp @ d\<rparr>"

definition on_headers_complete :: "nat \<Rightarrow> nat \<Rightarrow> 'p request_parser \<Rightarrow> 'p request_parser" where
  "on_headers_complete major minor rp =
     (flush_header rp)\<lparr>rp_protocol := ''HTTP/'' @ nat_digits major @ ''.'' @ nat_digits minor\<rparr>"

definition on_url :: "string \<Rightarrow> 'p request_parser \<Rightarrow> 'p request_parser" where
  "on_url d rp = rp\<lparr>rp_url := d\<rparr>"

definition on_body :: "string \<Rightarrow> 'p request_parser \<Rightarrow> 'p request_parser" where
  "on_body d rp = rp\<lparr>rp_body := rp_body rp @ d\<rparr>"

fun handle_event :: "parser_event \<Rightarrow> 'p request_parser \<Rightarrow> 'p request_parser" where
  "handle_event On_message_begin rp = on_message_begin rp"
| "handle_event (On_url d) rp = on_url d rp"
| "handle_event (On_header_field d) rp = on_header_field d rp"
| "handle_event (On_header_value d) rp = on_header_value d rp"
| "handle_event (On_headers_complete major minor) rp = on_headers_complete major minor rp"
| "handle_event (On_body d) rp = on_body d rp"
| "handle_event (On_status d) rp = rp"
| "handle_event On_message_complete rp = on_message_complete rp"

definition handle_events :: "parser_event list \<Rightarrow> 'p request_parser \<Rightarrow> 'p request_parser" where
  "handle_events evs rp = fold handle_event evs rp"

definition rp_execute :: "'p http_parser_lib \<Rightarrow> string \<Rightarrow> 'p request_parser \<Rightarrow> nat \<times> 'p request_parser" where
  "rp_execute lib buf rp =
     (case hp_execute lib (rp_parser rp) buf of
        (evs, used, p) \<Rightarrow> (used, (handle_events evs rp)\<lparr>rp_parser := p\<rparr>))"

definition rp_parse :: "'p http_parser_lib \<Rightarrow> string \<Rightarrow> 'p request_parser \<Rightarrow> parse_result \<times> 'p request_parser" where
  "rp_parse lib buf rp =
     (let (used, rp) = rp_execute lib buf rp;
          error = hp_errno lib (rp_parser rp);
          rp = (if error = HPE_PAUSED then rp\<lparr>rp_parser := hp_pause lib False (rp_parser rp)\<rparr> else rp);
          answer = (\<lambda>rp. (if rp_complete rp then HTTP_PARSER_OK else HTTP_PARSER_INDETERMINATE, rp))
      in if used < length buf then
           (if error = HPE_PAUSED then
              (if \<not> rp_complete rp then answer (snd (rp_execute lib (drop used buf) rp)) else answer rp)
            else (HTTP_PARSER_ERROR, rp))
         else answer rp)"

section \<open>The request line\<close>

definition get_url_field :: "string \<Rightarrow> http_parser_url \<Rightarrow> url_field \<Rightarrow> string" where
  "get_url_field data url field =
     (case hu_field url field of None \<Rightarrow> [] | Some (off, len) \<Rightarrow> substr data (unat off) (unat len))"

definition normalize_path :: "string \<Rightarrow> string" where
  "normalize_path src =
     (if src = [] then ''/''
      else (let dst = normalize_segments (split src ''/'') []
            in if dst = [] then ''/'' else ''/'' @ join dst ''/''))"

definition store_arg :: "string \<Rightarrow> dict \<Rightarrow> dict" where
  "store_arg arg get =
     (case find_char arg (CHR ''='') of
        Some pos \<Rightarrow> if 0 < pos then dict_set (take pos arg) (drop (pos + 1) arg) get else get
      | None \<Rightarrow> dict_set arg [] get)"

definition rp_parse_url :: "string \<Rightarrow> request \<Rightarrow> (bool \<times> request) result" where
  "rp_parse_url url req =
     rbind (http_parser_parse_url url False) (\<lambda>r. case r of
        None \<Rightarrow> Inr (False, req)
      | Some u \<Rightarrow>
          rbind (url_decode (c_str (get_url_field url u UF_PATH))) (\<lambda>path.
          rbind (url_decode (c_str (get_url_field url u UF_QUERY))) (\<lambda>query.
            Inr (True, req\<lparr>rq_path := normalize_path path, rq_query := query,
                 rq_get := (if query \<noteq> [] then fold store_arg (split query ''&'') (rq_get req)
                            else rq_get req)\<rparr>))))"

section \<open>Cookies\<close>

definition cookie_space :: re where
  "cookie_space = Star True (Class False
     [Range (CHR '' '') (CHR '' ''), Range LF LF, Range CR CR, Range TAB TAB, Range FF FF, Range VT VT])"

lemma cookie_space_regex:
  "regex (''[ '' @ [LF, CR, TAB, FF, VT] @ '']*'') = Inr cookie_space"
  by (simp add: regex_def char_eq_byte [of LF] char_eq_byte [of CR] char_eq_byte [of TAB]
      char_eq_byte [of FF] char_eq_byte [of VT] quant_def lazy_def close_frame_def quantifiable_def
      cookie_space_def)

definition parse_cookie :: "string \<Rightarrow> request \<Rightarrow> bool \<times> request" where
  "parse_cookie data req =
     (case find_from data ''='' 0 of
        None \<Rightarrow> (False, req)
      | Some pos \<Rightarrow>
          (let wscount = (case search_from cookie_space 0 data of Some (p, n) \<Rightarrow> n | None \<Rightarrow> 0);
               name = substr data wscount (pos - wscount);
               val = drop (pos + 1) data
           in (True, req\<lparr>rq_cookie := dict_set name val (rq_cookie req)\<rparr>)))"

function parse_cookies_loop :: "string \<Rightarrow> nat \<Rightarrow> request \<Rightarrow> bool \<times> request" where
  "parse_cookies_loop data old_pos req =
     (case find_from data '';'' old_pos of
        None \<Rightarrow> parse_cookie (drop old_pos data) req
      | Some pos \<Rightarrow>
          (let (ok, req') = parse_cookie (substr data old_pos (pos - old_pos)) req
           in if \<not> ok then (False, req') else parse_cookies_loop data (pos + 1) req'))"
  by pat_completeness auto
termination
  by (relation "measure (\<lambda>(data, old_pos, req). Suc (length data) - old_pos)")
    (auto dest!: find_from_bounds)

declare parse_cookies_loop.simps [simp del]

definition parse_cookies :: "request \<Rightarrow> bool \<times> request" where
  "parse_cookies req =
     (case map_of (rq_server req) ''Cookie'' of
        None \<Rightarrow> (True, req)
      | Some data \<Rightarrow> if data = [] then (False, req) else parse_cookies_loop data 0 req)"

section \<open>Headers are put together from their pieces\<close>

definition header_events :: "(string list \<times> string list) list \<Rightarrow> parser_event list" where
  "header_events hs = concat (map (\<lambda>(fs, vs). map On_header_field fs @ map On_header_value vs) hs)"

lemma handle_events_append: "handle_events (as @ bs) rp = handle_events bs (handle_events as rp)"
  by (simp add: handle_events_def)

lemma fields_collect:
  "rp_value rp = [] \<Longrightarrow>
     handle_events (map On_header_field fs) rp = rp\<lparr>rp_field := rp_field rp @ concat fs\<rparr>"
  by (induction fs arbitrary: rp)
    (simp_all add: handle_events_def on_header_field_def flush_header_def Let_def)

lemma values_collect:
  "handle_events (map On_header_value vs) rp = rp\<lparr>rp_value := rp_value rp @ concat vs\<rparr>"
  by (induction vs arbitrary: rp) (simp_all add: handle_events_def on_header_value_def)

lemma bodies_collect:
  "handle_events (map On_body bs) rp = rp\<lparr>rp_body := rp_body rp @ concat bs\<rparr>"
  by (induction bs arbitrary: rp) (simp_all add: handle_events_def on_body_def)

lemma urls_overwrite:
  "us \<noteq> [] \<Longrightarrow> handle_events (map On_url us) rp = rp\<lparr>rp_url := last us\<rparr>"
  by (induction us arbitrary: rp) (auto simp: handle_events_def on_url_def)

text \<open>A header that is pending is stored by the first piece of the next field.\<close>

lemma fields_flush:
  "fs \<noteq> [] \<Longrightarrow>
     handle_events (map On_header_field fs) rp = handle_events (map On_header_field fs) (flush_header rp)"
  by (cases fs) (simp_all add: handle_events_def on_header_field_def Let_def, simp add: flush_header_def)

definition store_header :: "string list \<times> string list \<Rightarrow> dict \<Rightarrow> dict" where
  "store_header h = dict_set (concat (fst h)) (concat (snd h))"

lemma header_events_collect:
  assumes "\<forall>(fs, vs) \<in> set hs. fs \<noteq> [] \<and> concat vs \<noteq> []" and "rp_value rp = [] \<longrightarrow> rp_field rp = []"
  shows "flush_header (handle_events (header_events hs) rp) =
    (flush_header rp)\<lparr>rp_headers := fold store_header hs (rp_headers (flush_header rp))\<rparr>"
  using assms
proof (induction hs arbitrary: rp)
  case Nil
  then show ?case by (simp add: header_events_def handle_events_def)
next
  case (Cons h hs)
  obtain fs vs where h: "h = (fs, vs)" by (cases h)
  with Cons.prems have fs: "fs \<noteq> []" and vs: "concat vs \<noteq> []" by auto
  let ?rp = "flush_header rp"
  have clean: "rp_field ?rp = []" "rp_value ?rp = []"
    using Cons.prems(2) by (auto simp: flush_header_def)
  let ?rp' = "?rp\<lparr>rp_field := concat fs, rp_value := concat vs\<rparr>"
  have "handle_events (map On_header_field fs @ map On_header_value vs) rp = ?rp'"
    using fs clean by (simp add: handle_events_append fields_flush [of fs rp] fields_collect values_collect)
  then have "handle_events (header_events (h # hs)) rp = handle_events (header_events hs) ?rp'"
    using handle_events_append [of "map On_header_field fs @ map On_header_value vs" "header_events hs" rp]
    by (simp add: header_events_def h)
  also have "flush_header \<dots> = (flush_header ?rp')\<lparr>rp_headers := fold store_header hs (rp_headers (flush_header ?rp'))\<rparr>"
    using Cons.prems vs by (intro Cons.IH) auto
  also have "flush_header ?rp' = ?rp\<lparr>rp_headers := store_header h (rp_headers ?rp)\<rparr>"
    using vs clean by (simp add: flush_header_def [of ?rp'] store_header_def h)
  finally show ?case by simp
qed

section \<open>The request line\<close>

lemma normalize_path_normal:
  "\<exists>segs. list_all normal_segment segs \<and> normalize_path s = ''/'' @ join segs ''/'' \<and>
     segs = normalize_segments (split s ''/'') []"
  by (rule exI [of _ "normalize_segments (split s ''/'') []"])
    (auto simp: normalize_path_def Let_def normalize_segments_normal)

lemma normalize_segments_split:
  "u \<in> set (normalize_segments (split s ''/'') []) \<Longrightarrow> u \<noteq> [] \<and> CHR ''/'' \<notin> set u \<and> NUL \<notin> set u"
  using normalize_segments_set [of "split s ''/''" "[]"] split_parts [of u s "''/''"]
  by (auto simp: strchr_single)

lemma normalize_path_idem: "normalize_path (normalize_path s) = normalize_path s"
proof -
  let ?segs = "normalize_segments (split s ''/'') []"
  have path: "normalize_path s = ''/'' @ join ?segs ''/''"
    by (auto simp: normalize_path_def Let_def)
  have "split (join ?segs ''/'') ''/'' = ?segs"
    using normalize_segments_split [of _ s] by (intro split_join_single) auto
  then have "split (normalize_path s) ''/'' = ?segs"
    unfolding path by (simp add: split_delim strchr_single)
  moreover have "normalize_segments ?segs [] = ?segs"
    using normalize_segments_normal [of "[]" "split s ''/''"]
    by (simp add: normalize_segments_id list_all_iff)
  ultimately have "normalize_path (normalize_path s) =
      (if normalize_path s = [] \<or> ?segs = [] then ''/'' else ''/'' @ join ?segs ''/'')"
    by (subst normalize_path_def) (simp add: Let_def)
  then show ?thesis by (simp add: path)
qed

section \<open>Cookies\<close>

lemma cookie_space_search:
  "search_from cookie_space 0 data = Some (0, length (takeWhile isspace data))"
proof -
  let ?cls = "Class False [Range (CHR '' '') (CHR '' ''), Range LF LF, Range CR CR, Range TAB TAB,
    Range FF FF, Range VT VT]"
  have "search ?cls = step_char isspace"
  proof
    fix st :: mstate
    have "((\<exists>it \<in> set [Range (CHR '' '') (CHR '' ''), Range LF LF, Range CR CR, Range TAB TAB,
        Range FF FF, Range VT VT]. item_matches it c) \<noteq> False) \<longleftrightarrow> isspace c" for c
      by (auto simp: isspace_def)
    then show "search ?cls st = step_char isspace st" by (simp only: search.simps)
  qed
  then have "search cookie_space (0, data, no_caps) =
      map (\<lambda>k. (0 + k, drop k data, no_caps)) (rev [0..<Suc (length (takeWhile isspace data))])"
    unfolding cookie_space_def by (simp only: search.simps(7) fst_conv snd_conv repeat_char_simple)
  then show ?thesis by (cases data) simp_all
qed

definition cookie_ok :: "string \<times> string \<Rightarrow> bool" where
  "cookie_ok c \<longleftrightarrow> fst c \<noteq> [] \<and> \<not> isspace (hd (fst c)) \<and> CHR ''='' \<notin> set (fst c) \<and>
     CHR '';'' \<notin> set (fst c) \<and> CHR '';'' \<notin> set (snd c)"

definition cookie_str :: "string \<times> string \<Rightarrow> string" where
  "cookie_str c = fst c @ ''='' @ snd c"

lemma parse_cookie_str:
  assumes "cookie_ok c" "\<forall>x \<in> set ws. isspace x"
  shows "parse_cookie (ws @ cookie_str c) req =
    (True, req\<lparr>rq_cookie := dict_set (fst c) (snd c) (rq_cookie req)\<rparr>)"
proof -
  have "isspace x \<Longrightarrow> x \<noteq> CHR ''=''" for x by (auto simp: isspace_def)
  with assms have no: "CHR ''='' \<notin> set (ws @ fst c)" by (auto simp: cookie_ok_def)
  have pos: "find_from (ws @ cookie_str c) ''='' 0 = Some (length ws + length (fst c))"
    using find_from_delim [OF no, of "[]" "snd c"] by (simp add: cookie_str_def)
  have "takeWhile isspace (ws @ cookie_str c) = ws"
    using assms by (cases "fst c") (auto simp: cookie_ok_def cookie_str_def)
  then have "search_from cookie_space 0 (ws @ cookie_str c) = Some (0, length ws)"
    by (simp only: cookie_space_search)
  then show ?thesis
    by (simp add: parse_cookie_def pos substr_def Let_def) (simp add: cookie_str_def)
qed

definition store_cookies :: "(string \<times> string) list \<Rightarrow> request \<Rightarrow> request" where
  "store_cookies cs req = req\<lparr>rq_cookie := fold (\<lambda>(k, v). dict_set k v) cs (rq_cookie req)\<rparr>"

lemma cookie_str_no_semicolon:
  "cookie_ok c \<Longrightarrow> \<forall>x \<in> set ws. isspace x \<Longrightarrow> CHR '';'' \<notin> set (ws @ cookie_str c)"
proof -
  have "isspace x \<Longrightarrow> x \<noteq> CHR '';''" for x by (auto simp: isspace_def)
  then show "cookie_ok c \<Longrightarrow> \<forall>x \<in> set ws. isspace x \<Longrightarrow> ?thesis"
    by (auto simp: cookie_ok_def cookie_str_def)
qed

lemma parse_cookies_loop_join:
  "cs \<noteq> [] \<Longrightarrow> \<forall>c \<in> set cs. cookie_ok c \<Longrightarrow> \<forall>x \<in> set ws. isspace x \<Longrightarrow>
     parse_cookies_loop (out @ ws @ join (map cookie_str cs) ''; '') (length out) req =
       (True, store_cookies cs req)"
proof (induction cs arbitrary: out ws req)
  case (Cons c cs)
  then have c: "cookie_ok c" by simp
  note no = cookie_str_no_semicolon [OF c Cons.prems(3)]
  show ?case
  proof (cases "cs = []")
    case True
    have "find_from (out @ ws @ cookie_str c) '';'' (length out) = None"
      using no by (simp add: find_from_append find_aux_char)
    then show ?thesis
      using True parse_cookie_str [OF c Cons.prems(3), of req]
      by (subst parse_cookies_loop.simps) (simp add: store_cookies_def split_beta)
  next
    case False
    let ?rest = "'' '' @ join (map cookie_str cs) ''; ''" and ?tok = "ws @ cookie_str c"
    let ?data = "out @ ?tok @ CHR '';'' # ?rest" and ?out = "out @ ?tok @ '';''"
    have data: "out @ ws @ join (map cookie_str (c # cs)) ''; '' = ?data"
      using False by (cases cs) auto
    have found: "find_from ?data '';'' (length out) = Some (length out + length ?tok)"
      using no by (rule find_from_delim)
    have tok: "substr ?data (length out) (length out + length ?tok - length out) = ?tok"
      by (simp add: substr_def)
    have "parse_cookies_loop ?data (length out) req =
        parse_cookies_loop ?data (length out + length ?tok + 1)
          (req\<lparr>rq_cookie := dict_set (fst c) (snd c) (rq_cookie req)\<rparr>)"
      by (subst parse_cookies_loop.simps)
        (simp only: found tok option.case parse_cookie_str [OF c Cons.prems(3)] prod.case Let_def, simp)
    also have "\<dots> = parse_cookies_loop (?out @ '' '' @ join (map cookie_str cs) ''; '') (length ?out)
          (req\<lparr>rq_cookie := dict_set (fst c) (snd c) (rq_cookie req)\<rparr>)" by simp
    also have "\<dots> = (True, store_cookies cs (req\<lparr>rq_cookie := dict_set (fst c) (snd c) (rq_cookie req)\<rparr>))"
      using Cons.prems False by (intro Cons.IH) (auto simp: isspace_def)
    finally show ?thesis unfolding data by (simp add: store_cookies_def split_beta)
  qed
qed simp

section \<open>Query arguments\<close>

definition arg_ok :: "string \<times> string \<Rightarrow> bool" where
  "arg_ok kv \<longleftrightarrow> fst kv \<noteq> [] \<and> CHR ''='' \<notin> set (fst kv) \<and>
     CHR ''&'' \<notin> set (fst kv) \<union> set (snd kv) \<and> NUL \<notin> set (fst kv) \<union> set (snd kv)"

definition arg_str :: "string \<times> string \<Rightarrow> string" where
  "arg_str kv = fst kv @ ''='' @ snd kv"

lemma store_arg_str: "arg_ok kv \<Longrightarrow> store_arg (arg_str kv) get = dict_set (fst kv) (snd kv) get"
  using find_char_append [of "CHR ''=''" "fst kv" "snd kv"]
  by (simp add: store_arg_def arg_str_def arg_ok_def)

lemma fold_store_args:
  "\<forall>kv \<in> set kvs. arg_ok kv \<Longrightarrow>
     fold store_arg (split (join (map arg_str kvs) ''&'') ''&'') get = fold (\<lambda>(k, v). dict_set k v) kvs get"
proof -
  assume ok: "\<forall>kv \<in> set kvs. arg_ok kv"
  then have "split (join (map arg_str kvs) ''&'') ''&'' = map arg_str kvs"
    by (intro split_join_single) (auto simp: arg_ok_def arg_str_def char_eq_byte [of NUL] char_eq_byte [of _ NUL])
  moreover have "fold store_arg (map arg_str kvs) get = fold (\<lambda>(k, v). dict_set k v) kvs get"
    using ok by (induction kvs arbitrary: get) (auto simp: store_arg_str split_beta)
  ultimately show ?thesis by simp
qed

section \<open>Properties\<close>

text \<open>An HTTP parser that reports nothing, for the witnesses.\<close>

definition sample_lib :: "unit http_parser_lib" where
  "sample_lib = \<lparr>hp_init = (), hp_execute = \<lambda>p s. ([], 0, p), hp_errno = \<lambda>p. HPE_OK,
     hp_pause = \<lambda>b p. p, hp_method_str = \<lambda>p. ''GET''\<rparr>"



text \<open>What the collection loses: of a request target reported in several pieces only the last is
  kept, and a header whose value is empty is not stored but lends its name to the next one.\<close>

lemma pieces_lost:
  assumes "us \<noteq> []" "v \<noteq> []" "rp_field rp = []" "rp_value rp = []"
  shows "rp_url (handle_events (map On_url us) rp) = last us \<and>
    handle_events (header_events [([f], [[]]), ([g], [v])] @ [On_headers_complete a b]) rp =
      rp\<lparr>rp_headers := dict_set (f @ g) v (rp_headers rp),
         rp_protocol := ''HTTP/'' @ nat_digits a @ ''.'' @ nat_digits b\<rparr>"
  using assms
  by (simp add: urls_overwrite header_events_def)
    (simp add: handle_events_def on_header_field_def on_header_value_def on_headers_complete_def
      flush_header_def Let_def)

lemma pieces_lost_witness:
  "rp_url (handle_events (map On_url [''/a'', ''b'']) (RequestParser sample_lib False)) = ''b'' \<and>
    rp_headers (handle_events (header_events [([''X''], [[]]), ([''Host''], [''h''])] @ [On_headers_complete 1 1])
      (RequestParser sample_lib False)) = [(''XHost'', ''h'')]"
  using pieces_lost [of "[''/a'', ''b'']" "''h''" "RequestParser sample_lib False" "''X''" "''Host''" 1 1]
  by (simp add: RequestParser_def rp_reset_def)

text \<open>C32: The path of a request is made of normal segments only (no \<^verbatim>\<open>.\<close>, no \<^verbatim>\<open>..\<close>, no empty one,
  no slash inside one), starts with a slash, and normalising it again changes nothing.\<close>

theorem normalize_path_safe:
  "\<exists>segs. normalize_path s = ''/'' @ join segs ''/'' \<and> list_all normal_segment segs \<and>
     list_all (\<lambda>u. CHR ''/'' \<notin> set u \<and> NUL \<notin> set u) segs \<and>
     normalize_path (normalize_path s) = normalize_path s"
  using normalize_path_normal [of s] normalize_path_idem [of s] normalize_segments_split [of _ s]
  by (auto simp: list_all_iff)

text \<open>A \<^verbatim>\<open>Cookie\<close> header written as the standard asks (pairs separated by a semicolon and a space)
  is accepted and every pair ends up in the cookies, the last one of a name winning.\<close>

lemma cookies_parsed:
  assumes "cs \<noteq> []" "\<forall>c \<in> set cs. cookie_ok c"
    and "map_of (rq_server req) ''Cookie'' = Some (join (map cookie_str cs) ''; '')"
  shows "parse_cookies req = (True, req\<lparr>rq_cookie := fold (\<lambda>(k, v). dict_set k v) cs (rq_cookie req)\<rparr>)"
proof -
  have "join (map cookie_str cs) ''; '' \<noteq> []"
    using assms(1) by (cases cs) (auto simp: join_Cons cookie_str_def)
  then show ?thesis
    using parse_cookies_loop_join [OF assms(1,2), of "[]" "[]" req] assms(3)
    by (simp add: parse_cookies_def store_cookies_def)
qed

text \<open>The request line of a target in origin form: the path up to the question mark and the query behind it are
  decoded, as long as the offsets fit into 16 bits.\<close>

definition origin_ok :: "string \<Rightarrow> string option \<Rightarrow> bool" where
  "origin_ok p q \<longleftrightarrow>
     (\<forall>c \<in> set p. IS_URL_CHAR c) \<and> (\<forall>t. q = Some t \<longrightarrow> (\<forall>c \<in> set t. query_char c)) \<and>
     length (origin_target p q) < 65536"

definition origin_query :: "string option \<Rightarrow> string" where
  "origin_query q = (case q of None \<Rightarrow> [] | Some t \<Rightarrow> t)"

lemma unat_of_nat_small: "n < 65536 \<Longrightarrow> unat (of_nat n :: 16 word) = n"
  by (simp add: unat_of_nat)

lemma origin_field:
  assumes "origin_ok p q" "u = \<lparr>hu_field = origin_fields p q, hu_port = 0\<rparr>"
  shows "get_url_field (origin_target p q) u UF_PATH = CHR ''/'' # p"
    and "get_url_field (origin_target p q) u UF_QUERY = origin_query q"
proof -
  have len: "length (origin_target p q) < 65536" using assms(1) by (simp add: origin_ok_def)
  then show "get_url_field (origin_target p q) u UF_PATH = CHR ''/'' # p"
    using unat_of_nat_small [of "Suc (length p)"]
    by (simp add: assms(2) get_url_field_def origin_fields_def origin_target_def substr_def)
  show "get_url_field (origin_target p q) u UF_QUERY = origin_query q"
    using len unat_of_nat_small [of "length p + 2"] unat_of_nat_small [of "length (origin_query q)"]
    by (cases q) (auto simp: assms(2) get_url_field_def origin_fields_def origin_target_def substr_def origin_query_def)
qed

lemma url_char_not_NUL: "IS_URL_CHAR c \<Longrightarrow> c \<noteq> NUL"
  by (auto simp: url_char_plain)

lemma origin_decoded:
  assumes "origin_ok p q" "url_decode (CHR ''/'' # p) = Inr path" "url_decode (origin_query q) = Inr query"
  shows "rp_parse_url (origin_target p q) req =
    Inr (True, req\<lparr>rq_path := normalize_path path, rq_query := query,
                   rq_get := (if query \<noteq> [] then fold store_arg (split query ''&'') (rq_get req) else rq_get req)\<rparr>)"
proof -
  have chars: "\<forall>c \<in> set p. IS_URL_CHAR c" "\<forall>t. q = Some t \<longrightarrow> (\<forall>c \<in> set t. query_char c)"
    using assms(1) by (auto simp: origin_ok_def)
  have "NUL \<notin> set (CHR ''/'' # p)" using chars(1) url_char_not_NUL by (auto simp: char_eq_byte [of NUL])
  moreover have "\<not> query_char NUL" using url_char_not_NUL by (auto simp: query_char_def char_eq_byte [of NUL])
  then have "NUL \<notin> set (origin_query q)" using chars(2) by (cases q) (auto simp: origin_query_def)
  ultimately show ?thesis
    using assms(2,3) origin_field [OF assms(1) refl] by (simp add: rp_parse_url_def origin_parsed [OF chars] c_str_ident)
qed

text \<open>The query arguments of a target whose decoded query is a list of pairs are stored as those
  pairs, and the path is the normal form of the decoded path.\<close>

lemma query_parsed:
  assumes "origin_ok p q" "url_decode (CHR ''/'' # p) = Inr path"
    and "url_decode (origin_query q) = Inr (join (map arg_str kvs) ''&'')" "kvs \<noteq> []" "\<forall>kv \<in> set kvs. arg_ok kv"
  shows "rp_parse_url (origin_target p q) req =
    Inr (True, req\<lparr>rq_path := normalize_path path, rq_query := join (map arg_str kvs) ''&'',
                   rq_get := fold (\<lambda>(k, v). dict_set k v) kvs (rq_get req)\<rparr>)"
proof -
  have "join (map arg_str kvs) ''&'' \<noteq> []"
    using assms(4) by (cases kvs) (auto simp: join_Cons arg_str_def)
  then show ?thesis
    using fold_store_args [OF assms(5)] by (simp add: origin_decoded [OF assms(1-3)])
qed

end
