(* ===== verification/Istream.thy ===== *)
theory Istream
  imports Prelude
begin

text \<open>
  \<^verbatim>\<open>std::istream\<close> over a string: what the parsers of the program use of it.  A stream that is not
  \<^verbatim>\<open>good\<close> fails every further extraction; reaching the end during an extraction sets \<^verbatim>\<open>eofbit\<close>
  and \<^verbatim>\<open>failbit\<close>.
\<close>

record istream =
  is_rest :: string
  is_eof :: bool
  is_fail :: bool

definition istream_of :: "string \<Rightarrow> istream" where
  "istream_of s = \<lparr>is_rest = s, is_eof = False, is_fail = False\<rparr>"

definition is_good :: "istream \<Rightarrow> bool" where
  "is_good st \<longleftrightarrow> \<not> is_eof st \<and> \<not> is_fail st"

text \<open>\<^verbatim>\<open>char c = strm.get()\<close>: at the end the value is \<^verbatim>\<open>(char) EOF\<close>.\<close>

definition is_get :: "istream \<Rightarrow> char \<times> istream" where
  "is_get st =
     (if is_good st then
        (case is_rest st of
           c # cs \<Rightarrow> (c, st\<lparr>is_rest := cs\<rparr>)
         | [] \<Rightarrow> (EOF_CHAR, st\<lparr>is_eof := True, is_fail := True\<rparr>))
      else (EOF_CHAR, st\<lparr>is_fail := True\<rparr>))"

text \<open>\<^verbatim>\<open>strm.read(buf, n)\<close>: the bytes stored, at most \<^verbatim>\<open>n\<close> of them.\<close>

definition is_read :: "nat \<Rightarrow> istream \<Rightarrow> string \<times> istream" where
  "is_read n st =
     (if is_good st then
        (if n \<le> length (is_rest st)
         then (take n (is_rest st), st\<lparr>is_rest := drop n (is_rest st)\<rparr>)
         else (is_rest st, st\<lparr>is_rest := [], is_eof := True, is_fail := True\<rparr>))
      else ([], st\<lparr>is_fail := True\<rparr>))"

lemma is_get_good:
  "is_get (istream_of (c # cs)) = (c, istream_of cs)"
  by (simp add: is_get_def istream_of_def is_good_def)

lemma is_read_good:
  "is_read (length u) (istream_of (u @ v)) = (u, istream_of v)"
  by (simp add: is_read_def istream_of_def is_good_def)

text \<open>Every extraction shortens the stream or makes it fail.\<close>

definition is_measure :: "istream \<Rightarrow> nat" where
  "is_measure st = (if is_fail st then 0 else Suc (length (is_rest st)))"

lemma is_get_measure: "\<not> is_fail st \<Longrightarrow> is_measure (snd (is_get st)) < is_measure st"
  by (auto simp: is_get_def is_measure_def is_good_def split: list.splits)

lemma is_get_measure_le: "is_measure (snd (is_get st)) \<le> is_measure st"
  by (auto simp: is_get_def is_measure_def is_good_def split: list.splits)

lemma is_read_measure_le: "is_measure (snd (is_read n st)) \<le> is_measure st"
  by (auto simp: is_read_def is_measure_def is_good_def)

lemma is_get_less: "(c, st') = is_get st \<Longrightarrow> \<not> is_fail st \<Longrightarrow> is_measure st' < is_measure st"
  using is_get_measure [of st] by (metis snd_conv)

lemma is_read_less:
  "(u, st'') = is_read n st' \<Longrightarrow> is_measure st' < m \<Longrightarrow> is_measure st'' < m"
  using is_read_measure_le [of n st'] by (metis le_less_trans snd_conv)

end
