(* ===== verification/FormData.thy ===== *)
theory FormData
  imports RequestParser Istream
begin

text \<open>
  \<^verbatim>\<open>src/request_parser.cpp\<close>, second part: the bodies of POST requests (URL-encoded forms,
  \<^verbatim>\<open>multipart/form-data\<close>, everything else) and \<^verbatim>\<open>decode_message\<close>, which puts the request
  together.  The two loops without a bound, over the parts of a multipart body and over the header lines of
  a part, are \<^verbatim>\<open>partial_function\<close>s, so that returning is something to prove.
\<close>

section \<open>Lines\<close>

function get_line_loop :: "int \<Rightarrow> int \<Rightarrow> string \<Rightarrow> istream \<Rightarrow> string \<times> istream" where
  "get_line_loop maxc count res st =
     (if count < maxc \<and> \<not> is_eof st then
        (let (b0, st) = is_get st
         in if b0 = CR then
              (let (b1, st) = is_get st
               in if b1 = LF then (res, st) else get_line_loop maxc (count + 2) (res @ [b0, b1]) st)
            else get_line_loop maxc (count + 1) (res @ [b0]) st)
      else (res, st))"
  by pat_completeness auto
termination by (relation "measure (\<lambda>(maxc, count, res, st). nat (maxc - count))") auto

declare get_line_loop.simps [simp del]

definition get_next_line :: "int \<Rightarrow> istream \<Rightarrow> string \<times> istream" where
  "get_next_line maxc st = get_line_loop maxc 0 [] st"

section \<open>The content of one part\<close>

text \<open>The last four bytes read are \<^verbatim>\<open>b[0]\<close> to \<^verbatim>\<open>b[3]\<close>; a delimiter that is not the boundary is
  dropped together with as many bytes as the boundary has.\<close>

function mime_loop :: "string \<Rightarrow> char \<times> char \<times> char \<times> char \<Rightarrow> string \<Rightarrow> istream \<Rightarrow> string \<times> istream" where
  "mime_loop bnd b data st =
     (if \<not> is_fail st then
        (case is_get st of (c, st1) \<Rightarrow>
         case b of (b0, b1, b2, b3) \<Rightarrow>
           if b1 = CR \<and> b2 = LF \<and> b3 = CHR ''-'' \<and> c = CHR ''-'' then
             (case is_read (length bnd) st1 of (got, st2) \<Rightarrow>
                let data' = take (length data - 3) data;
                    buf = got @ replicate (length bnd - length got) NUL
                in if buf = bnd then (data', snd (is_get (snd (is_get st2))))
                   else mime_loop bnd (b1, b2, b3, c) data' st2)
           else mime_loop bnd (b1, b2, b3, c) (data @ [c]) st1)
      else (data, st))"
  by pat_completeness auto
termination
  by (relation "measure (\<lambda>(bnd, b, data, st). is_measure st)") (auto intro: is_get_less is_read_less)

declare mime_loop.simps [simp del]

definition file_upload_max_size :: nat where
  "file_upload_max_size = 20 * 1024 * 1024"

definition parse_mime_data :: "istream \<Rightarrow> string \<Rightarrow> string \<Rightarrow> string \<Rightarrow> string \<Rightarrow> string \<Rightarrow> request
    \<Rightarrow> bool \<times> request \<times> istream" where
  "parse_mime_data st fld file_name content_type trans_encoding bnd req =
     (let (data, st') = mime_loop bnd (NUL, NUL, NUL, NUL) [] st
      in (True,
          (if file_name = [] then req\<lparr>rq_post := dict_set fld data (rq_post req)\<rparr>
           else if length data \<le> file_upload_max_size
           then req\<lparr>rq_files := rq_files req @
                  [\<lparr>uf_id = fld, uf_name = file_name, uf_path = [], uf_mime = content_type,
                     uf_size = length data, uf_data = data\<rparr>]\<rparr>
           else req),
          st'))"

section \<open>The header lines of one part\<close>

text \<open>\<^verbatim>\<open>form-data;\s*name="(.*?)(?=")"(?:\s*;\s*filename="(.*?)(?=")")?\<close>\<close>

definition lits :: "string \<Rightarrow> re list" where
  "lits s = map Lit s"

definition quoted_group :: "nat \<Rightarrow> re list" where
  "quoted_group n = [Group n (Star False Any), Look True (Lit DQ), Lit DQ]"

definition spaces :: re where
  "spaces = Star True (Class False [Space])"

definition disposition_rx :: re where
  "disposition_rx = seq_of (lits ''form-data;'' @ [spaces] @ lits ''name='' @ [Lit DQ] @ quoted_group 1 @
     [Opt True (seq_of ([spaces] @ lits '';'' @ [spaces] @ lits ''filename='' @ [Lit DQ] @ quoted_group 2))])"

lemma disposition_regex:
  "regex (''form-data;'' @ [BSL] @ ''s*name='' @ [DQ] @ ''(.*?)(?='' @ [DQ] @ '')'' @ [DQ] @
     ''(?:'' @ [BSL] @ ''s*;'' @ [BSL] @ ''s*filename='' @ [DQ] @ ''(.*?)(?='' @ [DQ] @ '')'' @ [DQ] @ '')?'')
   = Inr disposition_rx"
  by (simp add: regex_def class_escape_def char_eq_byte [of DQ] quant_def lazy_def close_frame_def
      quantifiable_def disposition_rx_def lits_def quoted_group_def spaces_def)

record part_fields =
  pf_form_field :: string
  pf_file_name :: string
  pf_content_type :: string
  pf_encoding :: string

definition no_fields :: part_fields where
  "no_fields = \<lparr>pf_form_field = [], pf_file_name = [], pf_content_type = [], pf_encoding = []\<rparr>"

definition part_header :: "string \<Rightarrow> part_fields \<Rightarrow> part_fields" where
  "part_header s f =
     (case find_char s (CHR '':'') of
        None \<Rightarrow> f
      | Some pos \<Rightarrow>
          (let key = trim (take pos s) default_delim;
               val = trim (drop (pos + 1) s) default_delim
           in if key = ''Content-Disposition'' then
                (case regex_match disposition_rx val of
                   Some subm \<Rightarrow> f\<lparr>pf_form_field := sub subm 1, pf_file_name := sub subm 2\<rparr>
                 | None \<Rightarrow> f)
              else if take 12 key = ''Content-Type'' then f\<lparr>pf_content_type := val\<rparr>
              else if take 25 key = ''Content-Transfer-Encoding'' then f\<lparr>pf_encoding := val\<rparr>
              else f))"

partial_function (option) part_headers :: "istream \<Rightarrow> part_fields \<Rightarrow> (part_fields \<times> istream) option" where
  "part_headers st f =
     (case get_next_line 1000 st of (s, st') \<Rightarrow>
        if s = [] then Some (f, st') else part_headers st' (part_header s f))"

partial_function (option) multipart_loop :: "string \<Rightarrow> istream \<Rightarrow> request \<Rightarrow> (bool \<times> request) option" where
  "multipart_loop bnd st req =
     Option.bind (part_headers st no_fields) (\<lambda>(f, st1).
       if pf_form_field f = [] then Some (True, req)
       else
         (case parse_mime_data st1 (pf_form_field f) (pf_file_name f) (pf_content_type f) (pf_encoding f) bnd req of
            (ok, req', st2) \<Rightarrow> if \<not> ok then Some (False, req') else multipart_loop bnd st2 req'))"

declare part_headers.simps [code] multipart_loop.simps [code]

definition parse_multipart_data :: "istream \<Rightarrow> string \<Rightarrow> request \<Rightarrow> (bool \<times> request) result option" where
  "parse_multipart_data st bnd req =
     (case get_next_line 1000 st of (s, st1) \<Rightarrow>
        if s = [] then Some (Inr (False, req))
        else if length s < 2 then Some (Inl Out_of_range)
        else if substr s 2 (length bnd) \<noteq> bnd then Some (Inr (False, req))
        else map_option Inr (multipart_loop bnd st1 req))"

section \<open>Bodies\<close>

text \<open>\<^verbatim>\<open>multipart/form-data;\s*boundary=(.*)\<close>\<close>

definition multipart_rx :: re where
  "multipart_rx = seq_of (lits ''multipart/form-data;'' @ [spaces] @ lits ''boundary='' @ [Group 1 (Star True Any)])"

lemma multipart_regex:
  "regex (''multipart/form-data;'' @ [BSL] @ ''s*boundary=(.*)'') = Inr multipart_rx"
  by (simp add: regex_def class_escape_def quant_def lazy_def close_frame_def
      quantifiable_def multipart_rx_def lits_def spaces_def)

definition store_form_pair :: "dict \<Rightarrow> string \<Rightarrow> bool \<times> dict" where
  "store_form_pair post s =
     (case find_char s (CHR ''='') of
        None \<Rightarrow> (False, post)
      | Some pos \<Rightarrow>
          (True, dict_set (url_encode (c_str (take pos s))) (url_encode (c_str (drop (pos + 1) s))) post))"

text \<open>\<^verbatim>\<open>content_.resize(n)\<close> followed by \<^verbatim>\<open>read(&content_[0], n)\<close>.\<close>

definition resize :: "nat \<Rightarrow> string \<Rightarrow> string" where
  "resize n s = take n s @ replicate (n - length s) NUL"

definition read_into :: "string \<Rightarrow> nat \<Rightarrow> istream \<Rightarrow> string" where
  "read_into buf n st = (let got = fst (is_read n st) in got @ drop (length got) buf)"

definition parse_form_data :: "istream \<Rightarrow> request \<Rightarrow> (bool \<times> request) result option" where
  "parse_form_data st req =
     (case stoi (getServerAttribute req ''Content-Length'' ''0'') of
        Inl e \<Rightarrow> Some (Inl e)
      | Inr n \<Rightarrow>
          (let content_type = getServerAttribute req ''Content-Type'' []
           in if content_type = [] \<and> n \<noteq> 0 then Some (Inr (False, req))
              else if startsWith content_type ''application/x-www-form-urlencoded'' then
                (let s = fst (get_next_line n st)
                 in Some (rmap (\<lambda>(go, post). (True, req\<lparr>rq_post := post\<rparr>))
                      (tokenize s ''&'' store_form_pair (rq_post req))))
              else
                (case regex_match multipart_rx content_type of
                   Some subm \<Rightarrow>
                     map_option (rmap (\<lambda>(ok, req'). (True, req'))) (parse_multipart_data st (sub subm 1) req)
                 | None \<Rightarrow>
                     if n = 0 then Some (Inr (True, req))
                     else if n < 0 then Some (Inl (Runtime_error ''length_error''))
                     else Some (Inr (True, req\<lparr>rq_content := read_into (resize (nat n) (rq_content req)) (nat n) st,
                                               rq_content_type := content_type\<rparr>)))))"

text \<open>\<^verbatim>\<open>decode_message\<close>: a failed decoding is \<^verbatim>\<open>false\<close>, a body that throws is a fault.\<close>

definition decode_message :: "'p http_parser_lib \<Rightarrow> 'p request_parser \<Rightarrow> request \<Rightarrow> (bool \<times> request) result option" where
  "decode_message lib rp req =
     (let server = fold (\<lambda>(k, v). dict_emplace k v) (rp_headers rp) (rq_server req);
          meth = hp_method_str lib (rp_parser rp);
          req = req\<lparr>rq_server := dict_set ''REQUEST_METHOD'' meth server, rq_method := meth,
                    rq_protocol := rp_protocol rp, rq_content := rp_body rp\<rparr>
      in case rp_parse_url (rp_url rp) req of
           Inl e \<Rightarrow> Some (Inl e)
         | Inr (ok, req) \<Rightarrow>
             if \<not> ok then Some (Inr (False, req))
             else (case parse_cookies req of (ok, req) \<Rightarrow>
               if \<not> ok then Some (Inr (False, req))
               else if rq_method req = ''POST''
               then parse_form_data (istream_of (rp_body rp)) req
               else Some (Inr (True, req))))"

end
