(* ===== verification/Multipart.thy ===== *)
theory Multipart
  imports FormData
begin

text \<open>
  What the body parsers of FormData compute.  A well-formed \<^verbatim>\<open>multipart/form-data\<close> body,
  written by the grammar below, is taken apart into exactly the parts it was put together from;
  the parser returns on every input; and URL-encoded forms are stored encoded a second time.
\<close>

section \<open>Lines\<close>

definition line_ok :: "string \<Rightarrow> bool" where
  "line_ok l \<longleftrightarrow> CR \<notin> set l \<and> length l < 1000"

lemma crlf_neq: "CR \<noteq> LF"
  by (simp add: char_eq_byte)

lemma get_line_loop_line:
  "CR \<notin> set l \<Longrightarrow> count + int (length l) < maxc \<Longrightarrow>
     get_line_loop maxc count res (istream_of (l @ crlf @ rest)) = (res @ l, istream_of rest)"
proof (induction l arbitrary: count res)
  case Nil
  then show ?case
    by (subst get_line_loop.simps) (simp add: crlf_def is_get_good istream_of_def [of "CR # x" for x] is_get_def is_good_def,
        simp add: istream_of_def)
next
  case (Cons c l)
  have "get_line_loop maxc count res (istream_of ((c # l) @ crlf @ rest)) =
      get_line_loop maxc (count + 1) (res @ [c]) (istream_of (l @ crlf @ rest))"
    using Cons.prems by (subst get_line_loop.simps) (auto simp: is_get_good, auto simp: istream_of_def)
  with Cons show ?case by simp
qed

lemma get_next_line_line:
  "line_ok l \<Longrightarrow> get_next_line 1000 (istream_of (l @ crlf @ rest)) = (l, istream_of rest)"
  using get_line_loop_line [of l 0 1000 "[]" rest] by (simp add: get_next_line_def line_ok_def)

lemma part_headers_lines:
  "\<forall>l \<in> set ls. l \<noteq> [] \<and> line_ok l \<Longrightarrow>
     part_headers (istream_of (concat (map (\<lambda>l. l @ crlf) ls) @ crlf @ rest)) f =
       Some (fold part_header ls f, istream_of rest)"
proof (induction ls arbitrary: f)
  case Nil
  have "get_next_line 1000 (istream_of (crlf @ rest)) = ([], istream_of rest)"
    using get_next_line_line [of "[]" rest] by (simp add: line_ok_def)
  then show ?case by (subst part_headers.simps) simp
next
  case (Cons l ls)
  let ?rest = "concat (map (\<lambda>l. l @ crlf) ls) @ crlf @ rest"
  have "get_next_line 1000 (istream_of (l @ crlf @ ?rest)) = (l, istream_of ?rest)"
    using Cons.prems by (intro get_next_line_line) simp
  with Cons show ?case by (subst part_headers.simps) simp
qed

section \<open>Content up to the boundary\<close>

definition marker :: string where
  "marker = [CR, LF, CHR ''-'', CHR ''-'']"

fun no_marker :: "char \<times> char \<times> char \<times> char \<Rightarrow> string \<Rightarrow> bool" where
  "no_marker b [] = True"
| "no_marker (b0, b1, b2, b3) (c # cs) \<longleftrightarrow>
     \<not> (b1 = CR \<and> b2 = LF \<and> b3 = CHR ''-'' \<and> c = CHR ''-'') \<and> no_marker (b1, b2, b3, c) cs"

fun shift :: "char \<times> char \<times> char \<times> char \<Rightarrow> char \<Rightarrow> char \<times> char \<times> char \<times> char" where
  "shift (b0, b1, b2, b3) c = (b1, b2, b3, c)"

lemma mime_loop_step:
  "\<not> (b1 = CR \<and> b2 = LF \<and> b3 = CHR ''-'' \<and> c = CHR ''-'') \<Longrightarrow>
     mime_loop bnd (b0, b1, b2, b3) data (istream_of (c # s)) =
     mime_loop bnd (b1, b2, b3, c) (data @ [c]) (istream_of s)"
  by (subst mime_loop.simps) (auto simp: is_get_good, auto simp: istream_of_def)

lemma mime_loop_run:
  "no_marker b us \<Longrightarrow>
     mime_loop bnd b data (istream_of (us @ v)) = mime_loop bnd (foldl shift b us) (data @ us) (istream_of v)"
proof (induction us arbitrary: b data)
  case (Cons c us)
  obtain b0 b1 b2 b3 where b: "b = (b0, b1, b2, b3)" by (cases b)
  with Cons show ?case by (simp add: mime_loop_step)
qed simp

lemma no_marker_sublist:
  "\<not> sublist marker (b0 # b1 # b2 # b3 # us) \<Longrightarrow> no_marker (b0, b1, b2, b3) us"
proof (induction us arbitrary: b0 b1 b2 b3)
  case (Cons c us)
  have "\<not> (b1 = CR \<and> b2 = LF \<and> b3 = CHR ''-'' \<and> c = CHR ''-'')"
  proof
    assume "b1 = CR \<and> b2 = LF \<and> b3 = CHR ''-'' \<and> c = CHR ''-''"
    then have "b0 # b1 # b2 # b3 # c # us = [b0] @ marker @ us" by (simp add: marker_def)
    with Cons.prems show False by (metis sublist_appendI)
  qed
  moreover have "\<not> sublist marker (b1 # b2 # b3 # c # us)"
    using Cons.prems by (meson sublist_order.order.trans sublist_Cons_right)
  ultimately show ?case using Cons.IH by simp
qed simp

lemma marker_NUL: "\<not> sublist marker s \<Longrightarrow> \<not> sublist marker (NUL # s)"
  by (auto simp: sublist_Cons_right marker_def char_eq_byte [of CR])

definition content_ok :: "string \<Rightarrow> bool" where
  "content_ok d \<longleftrightarrow> \<not> sublist marker (d @ [CR, LF, CHR ''-''])"

lemma mime_loop_content:
  assumes "content_ok d"
  shows "mime_loop bnd (NUL, NUL, NUL, NUL) [] (istream_of (d @ marker @ bnd @ [x, y] @ rest)) =
    (d, istream_of rest)"
proof -
  let ?us = "d @ [CR, LF, CHR ''-'']" and ?v = "CHR ''-'' # bnd @ [x, y] @ rest"
  let ?b = "(NUL, NUL, NUL, NUL)"
  have "no_marker ?b ?us"
    by (rule no_marker_sublist) (use assms in \<open>simp add: content_ok_def marker_NUL\<close>)
  then have "mime_loop bnd ?b [] (istream_of (?us @ ?v)) = mime_loop bnd (foldl shift ?b ?us) ?us (istream_of ?v)"
    using mime_loop_run [of ?b ?us bnd "[]" ?v] by (simp only: append_Nil)
  also have "\<exists>z. foldl shift ?b ?us = (z, CR, LF, CHR ''-'')"
    by (cases "foldl shift ?b d") simp
  then obtain z where "foldl shift ?b ?us = (z, CR, LF, CHR ''-'')" ..
  also have "mime_loop bnd (z, CR, LF, CHR ''-'') ?us (istream_of ?v) = (d, istream_of rest)"
    using is_read_good [of bnd "[x, y] @ rest"]
    by (subst mime_loop.simps) (simp add: is_get_good, simp add: istream_of_def)
  finally show ?thesis by (simp add: marker_def)
qed

section \<open>The disposition of a part\<close>

lemma search_lits_seq:
  "search (seq_of (lits l @ rs)) (i, l @ t, cs) = search (seq_of rs) (i + length l, t, cs)"
proof (induction l arbitrary: i)
  case Nil
  then show ?case by (simp add: lits_def)
next
  case (Cons c l)
  have "search (seq_of (lits (c # l) @ rs)) (i, (c # l) @ t, cs) = search (seq_of (lits l @ rs)) (Suc i, l @ t, cs)"
    by (simp add: lits_def search_seq_of step_char_def)
  with Cons show ?case by simp
qed

lemma search_space_class: "search (Class False [Space]) = step_char isspace"
proof
  fix st :: mstate
  have "((\<exists>it \<in> set [Space]. item_matches it c) \<noteq> False) \<longleftrightarrow> isspace c" for c by simp
  then show "search (Class False [Space]) st = step_char isspace st" by (simp only: search.simps)
qed

lemma search_spaces:
  "search spaces (i, s, cs) =
     map (\<lambda>k. (i + k, drop k s, cs)) (rev [0..<Suc (length (takeWhile isspace s))])"
  unfolding spaces_def by (simp only: search.simps(7) search_space_class fst_conv snd_conv repeat_char_simple)

lemma search_spaces_lit:
  assumes "\<forall>x \<in> set ws. isspace x" "\<not> isspace a"
  shows "search (seq_of (spaces # Lit a # rs)) (i, ws @ a # t, cs) = search (seq_of rs) (i + length ws + 1, t, cs)"
proof -
  let ?s = "ws @ a # t"
  have tw: "takeWhile isspace ?s = ws" using assms by simp
  have step: "step_char (\<lambda>c. c = a) (i + k, drop k ?s, cs) =
      (if k = length ws then [(Suc (i + k), t, cs)] else [])" if "k \<le> length ws" for k
  proof (cases "k = length ws")
    case False
    with that obtain c u where "drop k ws = c # u" by (cases "drop k ws") auto
    moreover from this have "c \<in> set ws" by (metis in_set_dropD list.set_intros(1))
    ultimately show ?thesis using assms that False by (auto simp: step_char_def)
  qed (simp add: step_char_def)
  have "search (seq_of (spaces # Lit a # rs)) (i, ?s, cs) =
      concat (map (\<lambda>k. concat (map (search (seq_of rs)) (step_char (\<lambda>c. c = a) (i + k, drop k ?s, cs))))
        (rev [0..<Suc (length ws)]))"
    by (simp only: search_seq_of [of spaces] search_spaces tw map_map comp_def search_seq_of [of "Lit a"] search.simps(3))
  also have "\<dots> = concat (map (\<lambda>k. if k = length ws then search (seq_of rs) (Suc (i + length ws), t, cs) else [])
      (rev [0..<Suc (length ws)]))"
  proof (intro arg_cong [where f = concat] map_cong refl)
    fix k assume "k \<in> set (rev [0..<Suc (length ws)])"
    then have "k \<le> length ws" by auto
    from step [OF this] show "concat (map (search (seq_of rs)) (step_char (\<lambda>c. c = a) (i + k, drop k ?s, cs))) =
        (if k = length ws then search (seq_of rs) (Suc (i + length ws), t, cs) else [])" by simp
  qed
  also have "\<dots> = search (seq_of rs) (Suc (i + length ws), t, cs)"
  proof -
    have "concat (map (\<lambda>k. if k = length ws then x else []) (rev [0..<length ws])) = []" for x :: "mstate list"
      by simp
    then show ?thesis by simp
  qed
  finally show ?thesis by simp
qed

text \<open>A lazy run up to the first closing quote is the preferred one.\<close>

definition quote_free :: "string \<Rightarrow> bool" where
  "quote_free f \<longleftrightarrow> DQ \<notin> set f \<and> LF \<notin> set f \<and> CR \<notin> set f"

lemma repeat_lazy:
  "length s \<le> n \<Longrightarrow>
     repeat n False (step_char P) (i, s, cs) =
       map (\<lambda>k. (i + k, drop k s, cs)) [0..<Suc (length (takeWhile P s))]"
proof (induction n arbitrary: i s)
  case (Suc n)
  show ?case
  proof (cases s)
    case (Cons c t)
    show ?thesis
    proof (cases "P c")
      case True
      then have "repeat (Suc n) False (step_char P) (i, s, cs) =
          (i, s, cs) # repeat n False (step_char P) (Suc i, t, cs)"
        by (simp add: Cons step_char_def)
      also have "\<dots> = (i, s, cs) # map (\<lambda>k. (Suc i + k, drop k t, cs)) [0..<Suc (length (takeWhile P t))]"
        using Suc Cons by simp
      also have "\<dots> = map (\<lambda>k. (i + k, drop k s, cs)) (0 # map Suc [0..<Suc (length (takeWhile P t))])"
        by (simp add: Cons)
      also have "0 # map Suc [0..<Suc (length (takeWhile P t))] = [0..<Suc (length (takeWhile P s))]"
        using True Cons by (simp add: map_Suc_upt upt_conv_Cons del: upt_Suc)
      finally show ?thesis .
    qed (simp add: Cons step_char_def)
  qed (simp add: step_char_def)
qed simp

lemma concat_hit:
  assumes "\<And>k. k < m \<Longrightarrow> f k = []" "m < n"
  shows "concat (map f [0..<n]) = f m @ concat (map f [Suc m..<n])"
proof -
  have "[0..<n] = [0..<m] @ m # [Suc m..<n]"
    using assms(2) upt_add_eq_append [of 0 m "n - m"] upt_conv_Cons [of m n] by simp
  then show ?thesis using assms(1) by simp
qed

lemma search_quoted:
  assumes "quote_free f"
  shows "\<exists>B. search (seq_of (quoted_group n @ rs)) (i, f @ DQ # t, cs) =
    search (seq_of rs) (i + length f + 1, t, cs(n \<mapsto> f)) @ B"
proof -
  let ?s = "f @ DQ # t" and ?P = "\<lambda>c. c \<noteq> LF \<and> c \<noteq> CR"
  let ?K = "length (takeWhile ?P ?s)"
  let ?after = "\<lambda>k. search (seq_of (Look True (Lit DQ) # Lit DQ # rs)) (i + k, drop k ?s, cs(n \<mapsto> take k ?s))"
  have "takeWhile ?P ?s = f @ takeWhile ?P (DQ # t)"
    using assms by (intro takeWhile_append2) (auto simp: quote_free_def)
  then have K: "length f < ?K" by (simp add: char_eq_byte)
  have any: "search Any = step_char ?P" by (rule ext) simp
  have "search (Group n (Star False Any)) (i, ?s, cs) =
      map (\<lambda>k. (i + k, drop k ?s, cs(n \<mapsto> take k ?s))) [0..<Suc ?K]"
    by (simp only: search.simps(10) search.simps(7) any fst_conv snd_conv repeat_lazy [OF order_refl]
        map_map comp_def prod.case add_diff_cancel_left')
  then have run: "search (seq_of (quoted_group n @ rs)) (i, ?s, cs) = concat (map ?after [0..<Suc ?K])"
    unfolding quoted_group_def append_Cons append_Nil search_seq_of [of "Group n (Star False Any)"]
    by (simp only: map_map comp_def)
  have none: "?after k = []" if "k < length f" for k
  proof -
    from that obtain c u where cu: "drop k f = c # u" by (cases "drop k f") auto
    then have "c \<in> set f" by (metis in_set_dropD list.set_intros(1))
    with assms have "c \<noteq> DQ" by (auto simp: quote_free_def)
    with cu that show ?thesis by (simp add: search_seq_of step_char_def)
  qed
  have hit: "?after (length f) = search (seq_of rs) (i + length f + 1, t, cs(n \<mapsto> f))"
    by (simp add: search_seq_of step_char_def)
  have "concat (map ?after [0..<Suc ?K]) = ?after (length f) @ concat (map ?after [Suc (length f)..<Suc ?K])"
    by (rule concat_hit) (use none K in \<open>blast intro: less_SucI\<close>)+
  then show ?thesis unfolding run hit by (rule exI)
qed

definition disposition :: "string \<Rightarrow> string option \<Rightarrow> string" where
  "disposition name file =
     ''form-data; name='' @ [DQ] @ name @ [DQ] @
     (case file of None \<Rightarrow> [] | Some g \<Rightarrow> ''; filename='' @ [DQ] @ g @ [DQ])"

definition filename_part :: re where
  "filename_part = seq_of ([spaces] @ lits '';'' @ [spaces] @ lits ''filename='' @ [Lit DQ] @ quoted_group 2)"

lemma search_filename:
  assumes "quote_free g"
  shows "\<exists>j B. search filename_part (i, ''; filename='' @ [DQ] @ g @ [DQ], cs) = (j, [], cs(2 \<mapsto> g)) # B"
proof -
  let ?t = "''ilename='' @ [DQ]" and ?g = "g @ [DQ]"
  have "search filename_part (i, ''; filename='' @ [DQ] @ g @ [DQ], cs) =
      search (seq_of (spaces # Lit (CHR ''f'') # lits ?t @ quoted_group 2)) (i + 1, '' f'' @ ?t @ ?g, cs)"
    using search_spaces_lit [of "[]" "CHR '';''" "spaces # Lit (CHR ''f'') # lits ?t @ quoted_group 2" i "'' f'' @ ?t @ ?g" cs]
    by (simp add: filename_part_def lits_def isspace_def)
  also have "\<dots> = search (seq_of (lits ?t @ quoted_group 2)) (i + 3, ?t @ ?g, cs)"
    using search_spaces_lit [of "'' ''" "CHR ''f''" "lits ?t @ quoted_group 2" "i + 1" "?t @ ?g" cs]
    by (simp add: isspace_def numeral_3_eq_3)
  also have "\<dots> = search (seq_of (quoted_group 2)) (i + 3 + length ?t, ?g, cs)"
    by (rule search_lits_seq)
  also have "\<exists>j B. \<dots> = (j, [], cs(2 \<mapsto> g)) # B"
    using search_quoted [OF assms, of 2 "[]" "i + 3 + length ?t" "[]" cs] by auto
  finally show ?thesis .
qed

lemma regex_match_first:
  "search r (0, s, no_caps) = (j, [], cs) # B \<Longrightarrow> regex_match r s = Some (cs(0 \<mapsto> s))"
  by (simp add: regex_match_def)

lemma disposition_match:
  assumes "quote_free name" "\<And>g. file = Some g \<Longrightarrow> quote_free g"
  shows "\<exists>cs. regex_match disposition_rx (disposition name file) = Some cs \<and> sub cs 1 = name \<and>
    sub cs 2 = (case file of None \<Rightarrow> [] | Some g \<Rightarrow> g)"
proof -
  let ?tail = "case file of None \<Rightarrow> [] | Some g \<Rightarrow> ''; filename='' @ [DQ] @ g @ [DQ]"
  let ?n = "''ame='' @ [DQ]" and ?rest = "quoted_group 1 @ [Opt True filename_part]"
  let ?cs = "no_caps(1 \<mapsto> name)"
  have rx: "disposition_rx = seq_of (lits ''form-data;'' @ spaces # Lit (CHR ''n'') # lits ?n @ ?rest)"
    by (simp add: disposition_rx_def filename_part_def lits_def)
  have str: "disposition name file = ''form-data;'' @ '' n'' @ ?n @ name @ DQ # ?tail"
    by (simp add: disposition_def)
  have "search disposition_rx (0, disposition name file, no_caps) =
      search (seq_of (spaces # Lit (CHR ''n'') # lits ?n @ ?rest)) (0 + length ''form-data;'', '' n'' @ ?n @ name @ DQ # ?tail, no_caps)"
    unfolding rx str by (rule search_lits_seq)
  also have "\<dots> = search (seq_of (lits ?n @ ?rest)) (12, ?n @ name @ DQ # ?tail, no_caps)"
    using search_spaces_lit [of "'' ''" "CHR ''n''" "lits ?n @ ?rest" 10 "?n @ name @ DQ # ?tail" no_caps]
    by (simp add: isspace_def eval_nat_numeral)
  also have "\<dots> = search (seq_of ?rest) (12 + length ?n, name @ DQ # ?tail, no_caps)"
    by (rule search_lits_seq)
  finally obtain B where "search disposition_rx (0, disposition name file, no_caps) =
      search (seq_of [Opt True filename_part]) (12 + length ?n + length name + 1, ?tail, ?cs) @ B"
    using search_quoted [OF assms(1), of 1 "[Opt True filename_part]" "12 + length ?n" ?tail no_caps] by auto
  note run = this
  show ?thesis
  proof (cases "file")
    case None
    have "search filename_part (i, [], cs) = []" for i cs
      by (simp add: filename_part_def lits_def search_seq_of search_spaces step_char_def)
    with run None have "search disposition_rx (0, disposition name file, no_caps) =
        (12 + length ?n + length name + 1, [], ?cs) # B" by simp
    from regex_match_first [OF this] None show ?thesis by (simp add: sub_def no_caps_def)
  next
    case (Some g)
    then have "quote_free g" by (rule assms(2))
    from search_filename [OF this, of "12 + length ?n + length name + 1" ?cs] obtain j B' where
      "search filename_part (12 + length ?n + length name + 1, ''; filename='' @ [DQ] @ g @ [DQ], ?cs) =
        (j, [], ?cs(2 \<mapsto> g)) # B'" by blast
    with run Some have "search disposition_rx (0, disposition name file, no_caps) =
        (j, [], ?cs(2 \<mapsto> g)) # B' @ (12 + length ?n + length name + 1, ?tail, ?cs) # B" by simp
    from regex_match_first [OF this] Some show ?thesis by (simp add: sub_def)
  qed
qed

section \<open>The grammar of a body\<close>

record mpart =
  mp_name :: string
  mp_file :: "string option"
  mp_type :: "string option"
  mp_data :: string

definition part_lines :: "mpart \<Rightarrow> string list" where
  "part_lines p =
     (''Content-Disposition: '' @ disposition (mp_name p) (mp_file p)) #
     (case mp_type p of None \<Rightarrow> [] | Some t \<Rightarrow> [''Content-Type: '' @ t])"

definition encode_part :: "mpart \<Rightarrow> string" where
  "encode_part p = concat (map (\<lambda>l. l @ crlf) (part_lines p)) @ crlf @ mp_data p"

fun encode_parts :: "string \<Rightarrow> mpart list \<Rightarrow> string" where
  "encode_parts bnd [] = crlf"
| "encode_parts bnd [p] = encode_part p @ marker @ bnd @ ''--'' @ crlf"
| "encode_parts bnd (p # q # ps) = encode_part p @ marker @ bnd @ crlf @ encode_parts bnd (q # ps)"

definition encode_multipart :: "string \<Rightarrow> mpart list \<Rightarrow> string" where
  "encode_multipart bnd ps = ''--'' @ bnd @ crlf @ encode_parts bnd ps"

definition trimmed :: "string \<Rightarrow> bool" where
  "trimmed s \<longleftrightarrow> s \<noteq> [] \<and> hd s \<notin> set default_delim \<and> last s \<notin> set default_delim"

definition mpart_ok :: "mpart \<Rightarrow> bool" where
  "mpart_ok p \<longleftrightarrow>
     mp_name p \<noteq> [] \<and> quote_free (mp_name p) \<and>
     (case mp_file p of None \<Rightarrow> True | Some g \<Rightarrow> g \<noteq> [] \<and> quote_free g \<and> length (mp_data p) \<le> file_upload_max_size) \<and>
     (case mp_type p of None \<Rightarrow> True | Some t \<Rightarrow> trimmed t) \<and>
     list_all line_ok (part_lines p) \<and> content_ok (mp_data p)"

definition opt_str :: "string option \<Rightarrow> string" where
  "opt_str o' = (case o' of None \<Rightarrow> [] | Some s \<Rightarrow> s)"

definition store_part :: "mpart \<Rightarrow> request \<Rightarrow> request" where
  "store_part p req =
     (case mp_file p of
        None \<Rightarrow> req\<lparr>rq_post := dict_set (mp_name p) (mp_data p) (rq_post req)\<rparr>
      | Some g \<Rightarrow> req\<lparr>rq_files := rq_files req @
          [\<lparr>uf_id = mp_name p, uf_name = g, uf_path = [], uf_mime = opt_str (mp_type p),
             uf_size = length (mp_data p), uf_data = mp_data p\<rparr>]\<rparr>)"

lemma trim_space:
  assumes "trimmed w"
  shows "trim (CHR '' '' # w) default_delim = w"
proof -
  have sp: "CHR '' '' \<in> set default_delim" by (simp add: default_delim_def)
  have 1: "dropWhile (\<lambda>c. c \<in> set default_delim) (CHR '' '' # w) = w"
    using assms sp by (cases w) (auto simp: trimmed_def)
  have 2: "dropWhile (\<lambda>c. c \<in> set default_delim) (rev w) = rev w"
    using assms by (cases w rule: rev_cases) (auto simp: trimmed_def)
  have "\<not> set (CHR '' '' # w) \<subseteq> set default_delim"
    using assms by (cases w) (auto simp: trimmed_def)
  then show ?thesis unfolding trim_eq 1 2 by simp
qed

lemma trim_trimmed: "trimmed w \<Longrightarrow> trim w default_delim = w"
  by (rule trim_clean) (auto simp: trimmed_def)

lemma delim_members: "c \<in> set default_delim \<longleftrightarrow> c = CHR '' '' \<or> c = TAB \<or> c = LF \<or> c = CR"
  by (auto simp: default_delim_def)

lemma part_header_split:
  assumes "CHR '':'' \<notin> set key" "trimmed key" "trimmed val"
  shows "find_char (key @ '': '' @ val) (CHR '':'') = Some (length key) \<and>
    trim (take (length key) (key @ '': '' @ val)) default_delim = key \<and>
    trim (drop (length key + 1) (key @ '': '' @ val)) default_delim = val"
  using find_char_append [OF assms(1), of "'' '' @ val"] trim_trimmed [OF assms(2)] trim_space [OF assms(3)]
  by simp

lemma trimmed_disposition: "trimmed (disposition name file)"
proof -
  have "last (disposition name file) = DQ" by (cases "file") (auto simp: disposition_def)
  then show ?thesis by (simp add: trimmed_def disposition_def delim_members char_eq_byte)
qed

lemma part_header_disposition:
  assumes "quote_free name" "\<And>g. file = Some g \<Longrightarrow> quote_free g"
  shows "part_header (''Content-Disposition: '' @ disposition name file) f =
    f\<lparr>pf_form_field := name, pf_file_name := opt_str file\<rparr>"
proof -
  have key: "trimmed ''Content-Disposition''" by (simp add: trimmed_def delim_members char_eq_byte)
  note cut = part_header_split [OF _ key trimmed_disposition, of name "file"]
  obtain cs where "regex_match disposition_rx (disposition name file) = Some cs" "sub cs 1 = name"
    "sub cs 2 = opt_str file"
    using disposition_match [OF assms] by (auto simp: opt_str_def)
  with cut show ?thesis by (simp add: part_header_def)
qed

lemma part_header_type:
  "trimmed t \<Longrightarrow> part_header (''Content-Type: '' @ t) f = f\<lparr>pf_content_type := t\<rparr>"
  using part_header_split [of "''Content-Type''" t]
  by (simp add: part_header_def trimmed_def [of "''Content-Type''"] delim_members char_eq_byte)

lemma part_lines_fields:
  assumes "mpart_ok p"
  shows "fold part_header (part_lines p) no_fields =
    \<lparr>pf_form_field = mp_name p, pf_file_name = opt_str (mp_file p), pf_content_type = opt_str (mp_type p),
     pf_encoding = []\<rparr>"
  using assms part_header_disposition [of "mp_name p" "mp_file p"] part_header_type
  by (auto simp: part_lines_def mpart_ok_def no_fields_def opt_str_def split: option.splits)

lemma multipart_step:
  assumes "mpart_ok p"
  shows "multipart_loop bnd (istream_of (encode_part p @ marker @ bnd @ [x, y] @ rest)) req =
    multipart_loop bnd (istream_of rest) (store_part p req)"
proof -
  let ?content = "mp_data p @ marker @ bnd @ [x, y] @ rest"
  have lines: "\<forall>l \<in> set (part_lines p). l \<noteq> [] \<and> line_ok l"
    using assms by (auto simp: mpart_ok_def part_lines_def list_all_iff split: option.splits)
  have "part_headers (istream_of (encode_part p @ marker @ bnd @ [x, y] @ rest)) no_fields =
      Some (fold part_header (part_lines p) no_fields, istream_of ?content)"
    using part_headers_lines [OF lines, of ?content no_fields] by (simp add: encode_part_def)
  moreover have "parse_mime_data (istream_of ?content) (mp_name p) (opt_str (mp_file p)) (opt_str (mp_type p)) [] bnd req =
      (True, store_part p req, istream_of rest)"
    using mime_loop_content [of "mp_data p" bnd x y rest] assms
    by (auto simp: parse_mime_data_def mpart_ok_def store_part_def opt_str_def split: option.splits)
  moreover have "mp_name p \<noteq> []" using assms by (simp add: mpart_ok_def)
  ultimately show ?thesis
    using part_lines_fields [OF assms] by (subst multipart_loop.simps) simp
qed

lemma multipart_parts:
  "list_all mpart_ok ps \<Longrightarrow>
     multipart_loop bnd (istream_of (encode_parts bnd ps)) req = Some (True, fold store_part ps req)"
proof (induction bnd ps arbitrary: req rule: encode_parts.induct)
  case (1 bnd)
  have "part_headers (istream_of crlf) no_fields = Some (no_fields, istream_of [])"
    using part_headers_lines [of "[]" "[]" no_fields] by simp
  then show ?case by (subst multipart_loop.simps) (simp add: no_fields_def)
next
  case (2 bnd p)
  have "part_headers (istream_of crlf) no_fields = Some (no_fields, istream_of [])"
    using part_headers_lines [of "[]" "[]" no_fields] by simp
  then have "multipart_loop bnd (istream_of crlf) (store_part p req) = Some (True, store_part p req)"
    by (subst multipart_loop.simps) (simp add: no_fields_def)
  then show ?case
    using "2.prems" multipart_step [of p bnd "CHR ''-''" "CHR ''-''" crlf req] by simp
next
  case (3 bnd p q ps)
  then show ?case
    using multipart_step [of p bnd CR LF "encode_parts bnd (q # ps)" req] by (simp add: crlf_def)
qed

section \<open>The parser returns\<close>

definition sane :: "istream \<Rightarrow> bool" where
  "sane st \<longleftrightarrow> (is_fail st \<longrightarrow> is_eof st)"

lemma sane_get: "sane st \<Longrightarrow> sane (snd (is_get st))"
  by (auto simp: sane_def is_get_def is_good_def split: list.splits)

lemma sane_read: "sane st \<Longrightarrow> sane (snd (is_read n st))"
  by (auto simp: sane_def is_read_def is_good_def)

lemma get_line_loop_sane:
  "sane st \<Longrightarrow> sane (snd (get_line_loop maxc count res st)) \<and>
     is_measure (snd (get_line_loop maxc count res st)) \<le> is_measure st"
proof (induction maxc count res st rule: get_line_loop.induct)
  case (1 maxc count res st)
  obtain b0 st0 where g0: "is_get st = (b0, st0)" by (cases "is_get st")
  obtain b1 st1 where g1: "is_get st0 = (b1, st1)" by (cases "is_get st0")
  have s0: "sane st0" and s1: "sane st1"
    using sane_get [of st] sane_get [of st0] "1.prems" g0 g1 by auto
  have m0: "is_measure st0 \<le> is_measure st" and m1: "is_measure st1 \<le> is_measure st0"
    using is_get_measure_le [of st] is_get_measure_le [of st0] g0 g1 by auto
  show ?case
  proof (cases "count < maxc \<and> \<not> is_eof st")
    case False
    then have "get_line_loop maxc count res st = (res, st)"
      by (subst get_line_loop.simps) (rule if_not_P)
    then show ?thesis using "1.prems" by simp
  next
    case True
    note IH1 = "1.IH"(1) [OF True refl g0 [symmetric] _ refl g1 [symmetric] _ s1]
    note IH2 = "1.IH"(2) [OF True refl g0 [symmetric] _ s0]
    show ?thesis
      using True g0 g1 s0 s1 m0 m1 IH1 IH2
      by (subst (1 2) get_line_loop.simps) auto
  qed
qed

lemma get_next_line_sane:
  "sane st \<Longrightarrow> sane (snd (get_next_line 1000 st)) \<and>
     (if is_eof st then get_next_line 1000 st = ([], st)
      else is_measure (snd (get_next_line 1000 st)) < is_measure st)"
proof -
  assume sane: "sane st"
  show ?thesis
  proof (cases "is_eof st")
    case True
    then show ?thesis using sane by (simp add: get_next_line_def get_line_loop.simps [of 1000 0])
  next
    case False
    obtain b0 st0 where g0: "is_get st = (b0, st0)" by (cases "is_get st")
    obtain b1 st1 where g1: "is_get st0 = (b1, st1)" by (cases "is_get st0")
    have "\<not> is_fail st" using False sane by (simp add: sane_def)
    then have lt: "is_measure st0 < is_measure st" using is_get_measure [of st] g0 by simp
    have s0: "sane st0" and s1: "sane st1"
      using sane_get [of st] sane_get [of st0] sane g0 g1 by auto
    have m1: "is_measure st1 \<le> is_measure st0" using is_get_measure_le [of st0] g1 by simp
    show ?thesis
      using False g0 g1 lt m1 s1 get_line_loop_sane [OF s0, of 1000 1 "[b0]"]
        get_line_loop_sane [OF s1, of 1000 2 "[b0, b1]"]
      unfolding get_next_line_def by (subst (1 2 3) get_line_loop.simps) auto
  qed
qed

lemma mime_loop_sane:
  "sane st \<Longrightarrow> sane (snd (mime_loop bnd b data st)) \<and> is_measure (snd (mime_loop bnd b data st)) \<le> is_measure st"
proof (induction "is_measure st" arbitrary: b data st rule: less_induct)
  case less
  obtain b0 b1 b2 b3 where b: "b = (b0, b1, b2, b3)" by (cases b)
  obtain c st1 where g: "is_get st = (c, st1)" by (cases "is_get st")
  obtain got st2 where r: "is_read (length bnd) st1 = (got, st2)" by (cases "is_read (length bnd) st1")
  have s1: "sane st1" and s2: "sane st2"
    using sane_get [of st] sane_read [of st1] less.prems g r by (metis snd_conv)+
  show ?case
  proof (cases "is_fail st")
    case True
    then show ?thesis using less.prems by (simp add: mime_loop.simps [of bnd b data st])
  next
    case False
    have lt1: "is_measure st1 < is_measure st" using is_get_measure [OF False] g by simp
    have lt2: "is_measure st2 < is_measure st" using is_read_measure_le [of "length bnd" st1] r lt1 by simp
    have fin: "sane (snd (is_get (snd (is_get st2))))" "is_measure (snd (is_get (snd (is_get st2)))) \<le> is_measure st"
      using sane_get s2 is_get_measure_le [of st2] is_get_measure_le [of "snd (is_get st2)"] lt2 by auto
    have IH1: "sane (snd (mime_loop bnd b' d' st1)) \<and> is_measure (snd (mime_loop bnd b' d' st1)) \<le> is_measure st" for b' d'
      using less.hyps [OF lt1 s1, of b' d'] lt1 by simp
    have IH2: "sane (snd (mime_loop bnd b' d' st2)) \<and> is_measure (snd (mime_loop bnd b' d' st2)) \<le> is_measure st" for b' d'
      using less.hyps [OF lt2 s2, of b' d'] lt2 by simp
    show ?thesis
      using False b g r fin IH1 IH2 by (subst (1 2) mime_loop.simps) (simp add: Let_def)
  qed
qed

lemma part_headers_return:
  "sane st \<Longrightarrow> \<exists>f' st'. part_headers st f = Some (f', st') \<and> sane st' \<and>
     (if is_eof st then f' = f \<and> st' = st else is_measure st' < is_measure st)"
proof (induction "is_measure st" arbitrary: st f rule: less_induct)
  case less
  obtain s st1 where l: "get_next_line 1000 st = (s, st1)" by (cases "get_next_line 1000 st")
  note line = get_next_line_sane [OF less.prems]
  show ?case
  proof (cases "s = []")
    case True
    then show ?thesis using l line by (subst part_headers.simps) (auto split: if_splits)
  next
    case False
    then have lt: "is_measure st1 < is_measure st" and s1: "sane st1" and eof: "\<not> is_eof st"
      using l line by (auto split: if_splits)
    from less.hyps [OF lt s1, of "part_header s f"] obtain f' st' where
      "part_headers st1 (part_header s f) = Some (f', st')" "sane st'" "is_measure st' \<le> is_measure st1"
      by (auto split: if_splits)
    with False l lt eof show ?thesis by (subst part_headers.simps) auto
  qed
qed

lemma multipart_loop_returns: "sane st \<Longrightarrow> multipart_loop bnd st req \<noteq> None"
proof (induction "is_measure st" arbitrary: st req rule: less_induct)
  case less
  obtain f st1 where h: "part_headers st no_fields = Some (f, st1)" and s1: "sane st1"
    and eof: "if is_eof st then f = no_fields \<and> st1 = st else is_measure st1 < is_measure st"
    using part_headers_return [OF less.prems] by blast
  show ?case
  proof (cases "pf_form_field f = []")
    case True
    with h show ?thesis by (subst multipart_loop.simps) simp
  next
    case False
    then have lt: "is_measure st1 < is_measure st" using eof by (auto simp: no_fields_def split: if_splits)
    obtain ok req' st2 where d: "parse_mime_data st1 (pf_form_field f) (pf_file_name f) (pf_content_type f)
        (pf_encoding f) bnd req = (ok, req', st2)"
      by (cases "parse_mime_data st1 (pf_form_field f) (pf_file_name f) (pf_content_type f) (pf_encoding f) bnd req")
    then have "st2 = snd (mime_loop bnd (NUL, NUL, NUL, NUL) [] st1)"
      by (auto simp: parse_mime_data_def split: prod.splits)
    with mime_loop_sane [OF s1, of bnd "(NUL, NUL, NUL, NUL)" "[]"] lt
    have "sane st2" "is_measure st2 < is_measure st" by auto
    then have "multipart_loop bnd st2 req' \<noteq> None" using less.hyps by blast
    with h d False show ?thesis by (subst multipart_loop.simps) (cases ok; simp)
  qed
qed

lemma parse_multipart_returns: "sane st \<Longrightarrow> parse_multipart_data st bnd req \<noteq> None"
  using get_next_line_sane [of st] multipart_loop_returns [of "snd (get_next_line 1000 st)" bnd req]
  by (auto simp: parse_multipart_data_def split: prod.splits)

lemma sane_istream_of: "sane (istream_of s)"
  by (simp add: sane_def istream_of_def)

lemma parse_form_data_returns: "sane st \<Longrightarrow> parse_form_data st req \<noteq> None"
  using parse_multipart_returns [of st]
  by (auto simp: parse_form_data_def Let_def split: sum.splits option.splits)

lemma multipart_match:
  assumes "LF \<notin> set bnd" "CR \<notin> set bnd"
  shows "\<exists>cs. regex_match multipart_rx (''multipart/form-data; boundary='' @ bnd) = Some cs \<and> sub cs 1 = bnd"
proof -
  let ?P = "\<lambda>c. c \<noteq> LF \<and> c \<noteq> CR" and ?g = "[Group 1 (Star True Any)]"
  have rx: "multipart_rx = seq_of (lits ''multipart/form-data;'' @ spaces # Lit (CHR ''b'') # lits ''oundary='' @ ?g)"
    by (simp add: multipart_rx_def lits_def)
  have any: "search Any = step_char ?P" by (rule ext) simp
  have tw: "takeWhile ?P bnd = bnd" using assms by (auto simp: takeWhile_eq_all_conv)
  have grp: "\<exists>B. search (seq_of ?g) (i, bnd, no_caps) = (i + length bnd, [], no_caps(1 \<mapsto> bnd)) # B" for i
  proof -
    have "search (Group 1 (Star True Any)) (i, bnd, no_caps) =
        map (\<lambda>k. (i + k, drop k bnd, no_caps(1 \<mapsto> take k bnd))) (rev [0..<Suc (length bnd)])"
      by (simp only: search.simps(10) search.simps(7) any fst_conv snd_conv repeat_char_simple tw
          map_map comp_def prod.case add_diff_cancel_left')
    then show ?thesis by simp
  qed
  have str: "''multipart/form-data; boundary='' @ bnd = ''multipart/form-data;'' @ '' b'' @ ''oundary='' @ bnd" by simp
  have "search multipart_rx (0, ''multipart/form-data; boundary='' @ bnd, no_caps) =
      search (seq_of (spaces # Lit (CHR ''b'') # lits ''oundary='' @ ?g))
        (0 + length ''multipart/form-data;'', '' b'' @ ''oundary='' @ bnd, no_caps)"
    unfolding rx str by (rule search_lits_seq)
  also have "\<dots> = search (seq_of (lits ''oundary='' @ ?g))
        (0 + length ''multipart/form-data;'' + length '' '' + 1, ''oundary='' @ bnd, no_caps)"
    using search_spaces_lit [of "'' ''" "CHR ''b''" "lits ''oundary='' @ ?g" "0 + length ''multipart/form-data;''"
        "''oundary='' @ bnd" no_caps]
    by (simp add: isspace_def)
  also have "\<dots> = search (seq_of ?g)
        (0 + length ''multipart/form-data;'' + length '' '' + 1 + length ''oundary='', bnd, no_caps)"
    by (rule search_lits_seq)
  finally obtain j B where "search multipart_rx (0, ''multipart/form-data; boundary='' @ bnd, no_caps) =
      (j, [], no_caps(1 \<mapsto> bnd)) # B"
    using grp by metis
  from regex_match_first [OF this] show ?thesis by (simp add: sub_def)
qed

lemma parse_multipart_encoded:
  assumes "list_all mpart_ok ps" "CR \<notin> set bnd" "length bnd < 998"
  shows "parse_multipart_data (istream_of (encode_multipart bnd ps)) bnd req = Some (Inr (True, fold store_part ps req))"
proof -
  have "line_ok (''--'' @ bnd)" using assms(2,3) by (simp add: line_ok_def char_eq_byte [of CR])
  from get_next_line_line [OF this, of "encode_parts bnd ps"]
  have "get_next_line 1000 (istream_of (encode_multipart bnd ps)) = (''--'' @ bnd, istream_of (encode_parts bnd ps))"
    by (simp add: encode_multipart_def)
  then show ?thesis
    using multipart_parts [OF assms(1), of bnd req] by (simp add: parse_multipart_data_def substr_def)
qed

section \<open>Forms\<close>

lemma run_cb_store:
  assumes "\<forall>(k, v) \<in> set kvs. NUL \<notin> set k \<and> NUL \<notin> set v" "kvs \<noteq> []"
  shows "run_cb store_form_pair post (map (\<lambda>(k, v). url_encode k @ ''='' @ url_encode v) kvs) =
    (True, fold (\<lambda>(k, v). dict_set (url_encode (url_encode k)) (url_encode (url_encode v))) kvs post)"
  using assms
proof (induction kvs arbitrary: post)
  case (Cons kv kvs)
  obtain k v where kv: "kv = (k, v)" by (cases kv)
  have "store_form_pair post (url_encode k @ ''='' @ url_encode v) =
      (True, dict_set (url_encode (url_encode k)) (url_encode (url_encode v)) post)"
    using find_char_append [of "CHR ''=''" "url_encode k" "url_encode v"]
    by (simp add: store_form_pair_def url_encode_free)
  with Cons kv show ?case by (cases "kvs = []") (simp_all add: run_cb_Cons)
qed simp

lemma tokenize_form:
  assumes "\<forall>(k, v) \<in> set kvs. NUL \<notin> set k \<and> NUL \<notin> set v" "kvs \<noteq> []"
  shows "tokenize (join (map (\<lambda>(k, v). url_encode k @ ''='' @ url_encode v) kvs) ''&'') ''&'' store_form_pair post =
    Inr (True, fold (\<lambda>(k, v). dict_set (url_encode (url_encode k)) (url_encode (url_encode v))) kvs post)"
proof -
  have "pieces (CHR ''&'') (join (map (\<lambda>(k, v). url_encode k @ ''='' @ url_encode v) kvs) ''&'') =
      map (\<lambda>(k, v). url_encode k @ ''='' @ url_encode v) kvs"
    using assms(2) by (intro pieces_join) (auto simp: url_encode_free)
  then show ?thesis using run_cb_store [OF assms] by (simp add: tokenize_pieces)
qed

text \<open>A body without a carriage return is one line.\<close>

lemma get_line_loop_body:
  "CR \<notin> set l \<Longrightarrow> count + int (length l) = maxc \<Longrightarrow>
     fst (get_line_loop maxc count res (istream_of l)) = res @ l"
proof (induction l arbitrary: count res)
  case Nil
  then show ?case by (subst get_line_loop.simps) simp
next
  case (Cons c l)
  have "get_line_loop maxc count res (istream_of (c # l)) = get_line_loop maxc (count + 1) (res @ [c]) (istream_of l)"
    using Cons.prems by (subst get_line_loop.simps) (auto simp: is_get_good, auto simp: istream_of_def)
  with Cons show ?case by simp
qed

lemma decode_message_returns: "decode_message lib rp req \<noteq> None"
proof -
  have "parse_form_data (istream_of s) req \<noteq> None" for s req
    by (rule parse_form_data_returns) (rule sane_istream_of)
  then show ?thesis
    by (auto simp: decode_message_def Let_def split: sum.splits prod.splits)
qed

section \<open>Properties\<close>


definition sample_parts :: "mpart list" where
  "sample_parts =
     [\<lparr>mp_name = ''a'', mp_file = None, mp_type = None, mp_data = ''hello''\<rparr>,
      \<lparr>mp_name = ''f'', mp_file = Some ''x.txt'', mp_type = Some ''text/plain'', mp_data = ''a'' @ crlf @ ''-b''\<rparr>]"

definition sample_form_request :: request where
  "sample_form_request = empty_request\<lparr>rq_server :=
     [(''Content-Length'', nat_digits 300), (''Content-Type'', ''multipart/form-data; boundary=XyZ'')]\<rparr>"

lemma sample_parts_ok: "list_all mpart_ok sample_parts"
proof -
  have [simp]: "CR \<noteq> LF" "LF \<noteq> CR" "CR \<noteq> DQ" "LF \<noteq> DQ" "DQ \<noteq> CR" "DQ \<noteq> LF" by (simp_all add: char_eq_byte)
  have no: "c \<noteq> CR \<and> c \<noteq> LF \<and> CR \<noteq> c \<and> LF \<noteq> c" if "31 < byte c" for c
    using that by (auto simp: char_eq_byte)
  show ?thesis
    by (simp add: sample_parts_def mpart_ok_def quote_free_def char_eq_byte [of DQ] file_upload_max_size_def
        trimmed_def delim_members part_lines_def disposition_def line_ok_def content_ok_def marker_def
        sublist_Cons_right crlf_def no char_eq_byte [of TAB] char_eq_byte [of _ TAB])
qed


text \<open>C36: Decoding the body of a request always returns, with an answer or an exception, whatever the
  bytes of the body and the headers are: neither the loop over the header lines of a part nor the
  loop over the parts runs forever.\<close>

theorem form_data_returns:
  "parse_form_data (istream_of s) req \<noteq> None \<and> decode_message lib rp req \<noteq> None"
  using parse_form_data_returns [OF sane_istream_of] decode_message_returns by blast

text \<open>The values of a URL-encoded form are not decoded but encoded a second time: a form sent with
  the standard encoding is stored under its doubly encoded names and values.\<close>

lemma form_values_reencoded:
  assumes "\<forall>(k, v) \<in> set kvs. NUL \<notin> set k \<and> NUL \<notin> set v" "kvs \<noteq> []"
    and "body = join (map (\<lambda>(k, v). url_encode k @ ''='' @ url_encode v) kvs) ''&''"
    and "map_of (rq_server req) ''Content-Type'' = Some ''application/x-www-form-urlencoded''"
    and "map_of (rq_server req) ''Content-Length'' = Some (nat_digits (length body))" "length body < 2 ^ 31"
  shows "parse_form_data (istream_of body) req = Some (Inr (True, req\<lparr>rq_post :=
    fold (\<lambda>(k, v). dict_set (url_encode (url_encode k)) (url_encode (url_encode v))) kvs (rq_post req)\<rparr>))"
proof -
  have enc: "CR \<notin> set (url_encode s)" for s
    by (rule url_encode_not) (simp_all add: url_plain_def isdigit_def isupper_def islower_def char_eq_byte [of CR])
  have other: "CR \<noteq> CHR ''=''" "CR \<noteq> CHR ''&''" by (simp_all add: char_eq_byte)
  have "set body \<subseteq> (\<Union>t \<in> set (map (\<lambda>(k, v). url_encode k @ ''='' @ url_encode v) kvs). set t) \<union> set ''&''"
    unfolding assms(3) by (rule set_join)
  moreover have "CR \<notin> (\<Union>t \<in> set (map (\<lambda>(k, v). url_encode k @ ''='' @ url_encode v) kvs). set t) \<union> set ''&''"
    using enc other by auto
  ultimately have "CR \<notin> set body" by blast
  then have "fst (get_next_line (int (length body)) (istream_of body)) = body"
    by (simp add: get_next_line_def get_line_loop_body)
  moreover have "startsWith ''application/x-www-form-urlencoded'' ''application/x-www-form-urlencoded''"
    by (simp add: startsWith_def)
  ultimately show ?thesis
    using assms(4-6) stoi_nat_digits [of "length body"] tokenize_form [OF assms(1,2), of "rq_post req"]
    by (simp add: parse_form_data_def getServerAttribute_def dict_get_def Let_def assms(3) split: prod.splits)
qed

end
