(* ===== verification/Response.thy ===== *)
theory Response
  imports Util Dict Regex MimeTypes
begin

text \<open>
  \<^verbatim>\<open>src/response.cpp\<close>, \<^verbatim>\<open>include/wsrv/response.hpp\<close> and \<^verbatim>\<open>src/filesystem.cpp\<close>: the response object, its
  wire format, stock replies, files, cookies and compression.  The clock is an argument (seconds since
  the epoch); the file system and the gzip compressor are parameters.  \<^verbatim>\<open>char\<close> is signed, as on
  the platforms the program is built for.
\<close>

section \<open>Status\<close>

datatype status =
    Ok
  | Created
  | Accepted
  | NoContent
  | MultipleChoices
  | MovedPermanently
  | MovedTemporarily
  | NotModified
  | BadRequest
  | Unauthorized
  | Forbidden
  | NotFound
  | InternalServerError
  | NotImplemented
  | BadGateway
  | ServiceUnavailable

fun status_code :: "status \<Rightarrow> nat" where
  "status_code Ok = 200"
| "status_code Created = 201"
| "status_code Accepted = 202"
| "status_code NoContent = 204"
| "status_code MultipleChoices = 300"
| "status_code MovedPermanently = 301"
| "status_code MovedTemporarily = 302"
| "status_code NotModified = 304"
| "status_code BadRequest = 400"
| "status_code Unauthorized = 401"
| "status_code Forbidden = 403"
| "status_code NotFound = 404"
| "status_code InternalServerError = 500"
| "status_code NotImplemented = 501"
| "status_code BadGateway = 502"
| "status_code ServiceUnavailable = 503"

definition status_text :: "nat \<Rightarrow> string" where
  "status_text s =
     (if s = status_code Ok then ''HTTP/1.0 200 OK''
      else if s = status_code Created then ''HTTP/1.0 201 Created''
      else if s = status_code Accepted then ''HTTP/1.0 202 Accepted''
      else if s = status_code NoContent then ''HTTP/1.0 204 No Content''
      else if s = status_code MultipleChoices then ''HTTP/1.0 300 Multiple Choices''
      else if s = status_code MovedPermanently then ''HTTP/1.0 301 Moved Permanently''
      else if s = status_code MovedTemporarily then ''HTTP/1.0 302 Moved Temporarily''
      else if s = status_code NotModified then ''HTTP/1.0 304 Not Modified''
      else if s = status_code BadRequest then ''HTTP/1.0 400 Bad Request''
      else if s = status_code Unauthorized then ''HTTP/1.0 401 Unauthorized''
      else if s = status_code Forbidden then ''HTTP/1.0 403 Forbidden''
      else if s = status_code NotFound then ''HTTP/1.0 404 Not Found''
      else if s = status_code InternalServerError then ''HTTP/1.0 500 Internal Server Error''
      else if s = status_code NotImplemented then ''HTTP/1.0 501 Not Implemented''
      else if s = status_code BadGateway then ''HTTP/1.0 502 Bad Gateway''
      else if s = status_code ServiceUnavailable then ''HTTP/1.0 503 Service Unavailable''
      else ''HTTP/1.0 500 Internal Server Error'')"

definition status_line :: "nat \<Rightarrow> string" where
  "status_line s = status_text s @ crlf"

text \<open>The bodies of the stock replies share one frame.\<close>

definition stock_page :: "string \<Rightarrow> string \<Rightarrow> string" where
  "stock_page title heading =
     ''<html>'' @ ''<head><title>'' @ title @ ''</title></head>'' @
     ''<body><h1>'' @ heading @ ''</h1></body>'' @ ''</html>''"

fun stock_content :: "status \<Rightarrow> string" where
  "stock_content Ok = []"
| "stock_content Created = stock_page ''Created'' ''201 Created''"
| "stock_content Accepted = stock_page ''Accepted'' ''202 Accepted''"
| "stock_content NoContent = stock_page ''No Content'' ''204 Content''"
| "stock_content MultipleChoices = stock_page ''Multiple Choices'' ''300 Multiple Choices''"
| "stock_content MovedPermanently = stock_page ''Moved Permanently'' ''301 Moved Permanently''"
| "stock_content MovedTemporarily = stock_page ''Moved Temporarily'' ''302 Moved Temporarily''"
| "stock_content NotModified = stock_page ''Not Modified'' ''304 Not Modified''"
| "stock_content BadRequest = stock_page ''Bad Request'' ''400 Bad Request''"
| "stock_content Unauthorized = stock_page ''Unauthorized'' ''401 Unauthorized''"
| "stock_content Forbidden = stock_page ''Forbidden'' ''403 Forbidden''"
| "stock_content NotFound = stock_page ''Not Found'' ''404 Not Found''"
| "stock_content InternalServerError = stock_page ''Internal Server Error'' ''500 Internal Server Error''"
| "stock_content NotImplemented = stock_page ''Not Implemented'' ''501 Not Implemented''"
| "stock_content BadGateway = stock_page ''Bad Gateway'' ''502 Bad Gateway''"
| "stock_content ServiceUnavailable = stock_page ''Service Unavailable'' ''503 Service Unavailable''"

section \<open>The response object\<close>

record response =
  rs_headers :: dict
  rs_content :: string
  rs_status :: nat

definition empty_response :: response where
  "empty_response = \<lparr>rs_headers = [], rs_content = [], rs_status = status_code NotFound\<rparr>"

definition addHeader :: "string \<Rightarrow> string \<Rightarrow> response \<Rightarrow> response" where
  "addHeader key val r = r\<lparr>rs_headers := dict_set key val (rs_headers r)\<rparr>"

definition getHeaderAttribute :: "response \<Rightarrow> string \<Rightarrow> string \<Rightarrow> string" where
  "getHeaderAttribute r key def = dict_get (rs_headers r) key def"

definition setContentType :: "string \<Rightarrow> response \<Rightarrow> response" where
  "setContentType mime r = addHeader ''Content-Type'' mime r"

definition setContentLength :: "response \<Rightarrow> response" where
  "setContentLength r = addHeader ''Content-Length'' (nat_digits (length (rs_content r))) r"

definition setStatus :: "status \<Rightarrow> response \<Rightarrow> response" where
  "setStatus s r = r\<lparr>rs_status := status_code s\<rparr>"

definition stockReply :: "status \<Rightarrow> response" where
  "stockReply s =
     setContentLength (setContentType ''text/html''
       (empty_response\<lparr>rs_status := status_code s, rs_content := stock_content s\<rparr>))"

definition write_response :: "string \<Rightarrow> string \<Rightarrow> response \<Rightarrow> response" where
  "write_response content mime r =
     setStatus Ok (setContentLength (setContentType mime (r\<lparr>rs_content := content\<rparr>)))"

definition json :: "string \<Rightarrow> response \<Rightarrow> response" where
  "json obj r = write_response obj ''application/json'' r"

definition html :: "string \<Rightarrow> response \<Rightarrow> response" where
  "html s r = write_response s ''text/html'' r"

definition append_response :: "string \<Rightarrow> response \<Rightarrow> response" where
  "append_response content r = setContentLength (r\<lparr>rs_content := rs_content r @ content\<rparr>)"

definition redirect :: "string \<Rightarrow> status \<Rightarrow> response \<Rightarrow> response" where
  "redirect url code r = addHeader ''Location'' url (setStatus code r)"

definition response_toString :: "response \<Rightarrow> string" where
  "response_toString r =
     (if rs_status r = status_code Ok
      then nat_digits (rs_status r) @ '' ('' @ getHeaderAttribute r ''Content-Length'' ''0'' @ '' bytes)''
      else nat_digits (rs_status r))"

text \<open>\<^verbatim>\<open>response_to_buffers\<close>: what is sent is the concatenation of the buffers.\<close>

definition response_to_buffers :: "response \<Rightarrow> bool \<Rightarrow> string list" where
  "response_to_buffers r is_head =
     [status_line (rs_status r)] @
     concat (map (\<lambda>(k, v). [k, '': '', v, crlf]) (rs_headers r)) @
     (if \<not> is_head then [crlf, rs_content r] else [])"

section \<open>Dates\<close>

text \<open>
  \<^verbatim>\<open>gmtime\<close> and \<^verbatim>\<open>strftime("%a, %d %b %Y %H:%M:%S GMT")\<close> on seconds since the epoch: the
  proleptic Gregorian calendar, in the era arithmetic of 400 years of 146097 days that start on the
  first of March.
\<close>

definition civil_from_days :: "int \<Rightarrow> int \<times> int \<times> int" where
  "civil_from_days days =
     (let z = days + 719468;
          era = z div 146097;
          doe = z mod 146097;
          yoe = (doe - doe div 1460 + doe div 36524 - doe div 146096) div 365;
          doy = doe - (365 * yoe + yoe div 4 - yoe div 100);
          mp = (5 * doy + 2) div 153;
          d = doy - (153 * mp + 2) div 5 + 1;
          m = (if mp < 10 then mp + 3 else mp - 9)
      in (yoe + era * 400 + (if m \<le> 2 then 1 else 0), m, d))"

definition weekday_names :: "string list" where
  "weekday_names = [''Sun'', ''Mon'', ''Tue'', ''Wed'', ''Thu'', ''Fri'', ''Sat'']"

definition month_names :: "string list" where
  "month_names = [''Jan'', ''Feb'', ''Mar'', ''Apr'', ''May'', ''Jun'', ''Jul'', ''Aug'', ''Sep'',
     ''Oct'', ''Nov'', ''Dec'']"

definition two_digits :: "int \<Rightarrow> string" where
  "two_digits n = [digit_char (nat (n div 10)), digit_char (nat (n mod 10))]"

definition gmt_time_string :: "int \<Rightarrow> string" where
  "gmt_time_string t =
     (let days = t div 86400; secs = t mod 86400; (y, m, d) = civil_from_days days
      in weekday_names ! nat ((days + 4) mod 7) @ '', '' @ two_digits d @ '' '' @
         month_names ! nat (m - 1) @ '' '' @ int_str y @ '' '' @
         two_digits (secs div 3600) @ '':'' @ two_digits (secs div 60 mod 60) @ '':'' @
         two_digits (secs mod 60) @ '' GMT'')"

section \<open>Cookies\<close>

definition setCookie :: "string \<Rightarrow> string \<Rightarrow> int \<Rightarrow> string \<Rightarrow> string \<Rightarrow> bool \<Rightarrow> bool \<Rightarrow> string \<Rightarrow> response \<Rightarrow> response" where
  "setCookie name val expires path domain secure http_only same_site r =
     addHeader ''Set-Cookie''
       (name @ ''='' @ val @
        (if 0 < expires then ''; Expires='' @ gmt_time_string expires else []) @
        (if path \<noteq> [] then ''; Path='' @ path else []) @
        (if domain \<noteq> [] then ''; Domain='' @ domain else []) @
        (if secure then ''; Secure'' else []) @
        (if http_only then ''; HttpOnly'' else []) @
        (if same_site \<noteq> [] then ''; SameSite='' @ same_site else [])) r"

text \<open>The default of the last argument is \<^verbatim>\<open>Lax\<close>; \<^verbatim>\<open>now\<close> is \<^verbatim>\<open>std::time(nullptr)\<close>.\<close>

definition deleteCookie :: "int \<Rightarrow> string \<Rightarrow> string \<Rightarrow> string \<Rightarrow> bool \<Rightarrow> bool \<Rightarrow> response \<Rightarrow> response" where
  "deleteCookie now name path domain secure http_only r =
     setCookie name [] (now - 3600) path domain secure http_only ''Lax'' r"

section \<open>Files\<close>

text \<open>
  What the program uses of the file system: the components of \<^verbatim>\<open>weakly_canonical(root / path)\<close>
  (\<^const>\<open>None\<close> when it throws) and of \<^verbatim>\<open>canonical(root, ec)\<close> (empty when it fails),
  \<^verbatim>\<open>is_regular_file\<close> of a canonical path, and for a path name whether it is an existing regular file,
  its modification time as seconds of the file clock, and its bytes.
\<close>

record file_system =
  fs_weakly_canonical :: "string \<Rightarrow> string \<Rightarrow> string list option"
  fs_canonical :: "string \<Rightarrow> string list"
  fs_is_regular :: "string list \<Rightarrow> bool"
  fs_exists :: "string \<Rightarrow> bool"
  fs_mtime :: "string \<Rightarrow> int"
  fs_read :: "string \<Rightarrow> string"

definition schar :: "char \<Rightarrow> int" where
  "schar c = (if byte c < 128 then int (byte c) else int (byte c) - 256)"

definition is_gzip :: "string \<Rightarrow> bool" where
  "is_gzip bytes \<longleftrightarrow> 2 < length bytes \<and> schar (bytes ! 0) = 0x1f \<and> schar (bytes ! 1) = 0x8b"

definition encodeFileData :: "int \<Rightarrow> string \<Rightarrow> string \<Rightarrow> string \<Rightarrow> int \<Rightarrow> response \<Rightarrow> response" where
  "encodeFileData now bytes encoding mime mod_time r =
     (let r = setStatus Ok r
      in if bytes = [] then r
         else
           (let r = addHeader ''Content-Length'' (nat_digits (length bytes)) r;
                r = (if encoding = []
                     then (if is_gzip bytes then addHeader ''Content-Encoding'' ''gzip'' r else r)
                     else addHeader ''Content-Encoding'' encoding r);
                r = (if mime \<noteq> [] then addHeader ''Content-Type'' mime r else r);
                r = addHeader ''Access-Control-Allow-Origin'' ''*'' r;
                r = addHeader ''Date'' (gmt_time_string now) r;
                r = addHeader ''Last-Modified'' (gmt_time_string mod_time) r;
                r = addHeader ''Etag'' (int_str mod_time) r
            in r\<lparr>rs_content := bytes\<rparr>))"

definition get_file_mime :: "string \<Rightarrow> string \<Rightarrow> string" where
  "get_file_mime mime p =
     (if mime \<noteq> [] then mime
      else
        (let extension =
           (case find_last_char p (CHR ''.'') of
              None \<Rightarrow> []
            | Some pos \<Rightarrow>
                if drop pos p = ''.gz'' then
                  (case find_last_char (take pos p) (CHR ''.'') of
                     None \<Rightarrow> drop pos p
                   | Some epos \<Rightarrow> drop epos (take pos p))
                else drop pos p)
         in case (if extension \<noteq> [] then map_of well_known_mime_types extension else None) of
              Some m \<Rightarrow> m
            | None \<Rightarrow> ''application/octet-stream''))"

definition encodeFile :: "file_system \<Rightarrow> int \<Rightarrow> string \<Rightarrow> string \<Rightarrow> string \<Rightarrow> response \<Rightarrow> response" where
  "encodeFile fs now file_path encoding mime r =
     (if \<not> fs_exists fs file_path then setStatus NotFound r
      else encodeFileData now (fs_read fs file_path) encoding
             (if mime = [] then get_file_mime mime file_path else mime) (fs_mtime fs file_path) r)"

definition file_response :: "file_system \<Rightarrow> int \<Rightarrow> string \<Rightarrow> string \<Rightarrow> string \<Rightarrow> response" where
  "file_response fs now path_name encoding mime = encodeFile fs now path_name encoding mime empty_response"

text \<open>\<^verbatim>\<open>std::mismatch\<close> with three iterators: it must not run past the end of the second range.\<close>

fun mismatch :: "'a list \<Rightarrow> 'a list \<Rightarrow> ('a list \<times> 'a list) result" where
  "mismatch [] ys = Inr ([], ys)"
| "mismatch (x # xs) [] = Inl Undefined"
| "mismatch (x # xs) (y # ys) = (if x = y then mismatch xs ys else Inr (x # xs, y # ys))"

definition is_path_safe :: "file_system \<Rightarrow> string \<Rightarrow> string \<Rightarrow> bool result" where
  "is_path_safe fs root_dir path =
     (case fs_weakly_canonical fs root_dir path of
        None \<Rightarrow> Inr False
      | Some target \<Rightarrow>
          rmap (\<lambda>(root_end, target_end). root_end = [] \<and> fs_is_regular fs target)
            (mismatch (fs_canonical fs root_dir) target))"

definition serveStaticFile :: "file_system \<Rightarrow> int \<Rightarrow> string \<Rightarrow> string \<Rightarrow> response \<Rightarrow> (bool \<times> response) result" where
  "serveStaticFile fs now folder path r =
     (let p = folder @ ''/'' @ path
      in rmap (\<lambda>safe. if safe \<and> fs_exists fs p then (True, encodeFile fs now p [] [] r) else (False, r))
           (is_path_safe fs folder path))"

section \<open>Compression\<close>

text \<open>\<^verbatim>\<open>gzip\<close> is what an \<^verbatim>\<open>ozstream\<close> writes for a string.\<close>

definition compress :: "(string \<Rightarrow> string) \<Rightarrow> response \<Rightarrow> response" where
  "compress gzip r =
     setContentLength (addHeader ''Content-Encoding'' ''gzip'' (r\<lparr>rs_content := gzip (rs_content r)\<rparr>))"

text \<open>\<^verbatim>\<open>gzip_include_mime_rx\<close>; the plus sign of \<^verbatim>\<open>xhtml+xml\<close> repeats the letter before it.\<close>

definition compressible_rx :: re where
  "compressible_rx =
     alt_of [Group 1 (seq_of (map Lit ''text/'' @ [Star True Any])),
       Group 2 (seq_of (map Lit ''application/x-javascript'' @ [Star True Any])),
       Group 3 (seq_of (map Lit ''application/javascript'')),
       Group 4 (seq_of (map Lit ''application/xhtm'' @ [Plus True (Lit (CHR ''l''))] @ map Lit ''xml'')),
       Group 5 (seq_of (map Lit ''application/xml''))]"

lemma compressible_regex:
  "regex (''(text/.*)|(application/x-javascript.*)|(application/javascript)|'' @
     ''(application/xhtml+xml)|(application/xml)'') = Inr compressible_rx"
  by (simp add: regex_def quant_def lazy_def close_frame_def quantifiable_def compressible_rx_def)

definition gzip_min_content_length :: nat where
  "gzip_min_content_length = 200"

definition contentBenefitsFromCompression :: "response \<Rightarrow> bool" where
  "contentBenefitsFromCompression r =
     (if length (rs_content r) < gzip_min_content_length then False
      else if getHeaderAttribute r ''Content-Encoding'' [] = ''gzip'' then False
      else
        (let mime = getHeaderAttribute r ''Content-Type'' []
         in if mime = [] then False else regex_match compressible_rx mime \<noteq> None))"

section \<open>Reading a response off the wire\<close>

text \<open>The specification of a header section: lines up to the first empty one; what follows is the body.\<close>

fun wire_lines :: "string \<Rightarrow> string \<Rightarrow> (string list \<times> string) option" where
  "wire_lines cur [] = None"
| "wire_lines cur (c # s) =
     (if c = CR \<and> s \<noteq> [] \<and> hd s = LF
      then (if cur = [] then Some ([], tl s)
            else map_option (\<lambda>(ls, b). (cur # ls, b)) (wire_lines [] (tl s)))
      else wire_lines (cur @ [c]) s)"

lemma wire_lines_line:
  "CR \<notin> set l \<Longrightarrow> cur @ l \<noteq> [] \<Longrightarrow>
     wire_lines cur (l @ crlf @ s) = map_option (\<lambda>(ls, b). ((cur @ l) # ls, b)) (wire_lines [] s)"
proof (induction l arbitrary: cur)
  case Nil
  then show ?case by (simp add: crlf_def)
next
  case (Cons c l)
  then have "c \<noteq> CR" by auto
  then have "wire_lines cur ((c # l) @ crlf @ s) = wire_lines (cur @ [c]) (l @ crlf @ s)" by simp
  with Cons show ?case by simp
qed

lemma wire_lines_end: "wire_lines [] (crlf @ s) = Some ([], s)"
  by (simp add: crlf_def)

lemma wire_lines_list:
  "\<forall>l \<in> set ls. CR \<notin> set l \<and> l \<noteq> [] \<Longrightarrow> wire_lines [] (concat (map (\<lambda>l. l @ crlf) ls) @ crlf @ s) = Some (ls, s)"
proof (induction ls)
  case (Cons l ls)
  then show ?case using wire_lines_line [of l "[]" "concat (map (\<lambda>l. l @ crlf) ls) @ crlf @ s"] by simp
qed (simp add: wire_lines_end)

definition header_line :: "string \<times> string \<Rightarrow> string" where
  "header_line h = fst h @ '': '' @ snd h"

lemma CR_neq_colon: "CR \<noteq> CHR '':''" "CR \<noteq> CHR '' ''"
  by (simp_all add: char_eq_byte)

lemma wire_lines_headers:
  "\<forall>(k, v) \<in> set hs. CR \<notin> set k \<and> CR \<notin> set v \<Longrightarrow>
     wire_lines [] (concat (map (\<lambda>h. header_line h @ crlf) hs) @ s) =
       map_option (\<lambda>(ls, b). (map header_line hs @ ls, b)) (wire_lines [] s)"
proof (induction hs)
  case Nil
  show ?case by (cases "wire_lines [] s") auto
next
  case (Cons h hs)
  have "CR \<notin> set (header_line h)" "header_line h \<noteq> []"
    using Cons.prems CR_neq_colon by (auto simp: header_line_def)
  from wire_lines_line [OF this(1), of "[]" "concat (map (\<lambda>h. header_line h @ crlf) hs) @ s"] this(2)
  show ?case using Cons by (simp add: option.map_comp comp_def split_beta)
qed

lemma status_text_plain: "CR \<notin> set (status_text s) \<and> status_text s \<noteq> []"
proof -
  define plain where "plain u \<longleftrightarrow> CR \<notin> set u \<and> u \<noteq> []" for u :: string
  have "plain (status_text s)"
    unfolding status_text_def
    by (simp only: if_distrib [where f = plain]) (simp add: plain_def char_eq_byte [of CR])
  then show ?thesis by (simp add: plain_def)
qed

lemma response_wire:
  "concat (response_to_buffers r is_head) =
     status_line (rs_status r) @ concat (map (\<lambda>h. header_line h @ crlf) (rs_headers r)) @
     (if is_head then [] else crlf @ rs_content r)"
proof -
  have "concat (concat (map (\<lambda>(k, v). [k, '': '', v, crlf]) hs)) = concat (map (\<lambda>h. header_line h @ crlf) hs)" for hs
    by (induction hs) (auto simp: header_line_def)
  then show ?thesis by (simp add: response_to_buffers_def)
qed

definition clean_headers :: "response \<Rightarrow> bool" where
  "clean_headers r \<longleftrightarrow> (\<forall>(k, v) \<in> set (rs_headers r). CR \<notin> set k \<and> CR \<notin> set v)"

section \<open>The declared length\<close>

definition length_ok :: "response \<Rightarrow> bool" where
  "length_ok r \<longleftrightarrow> map_of (rs_headers r) ''Content-Length'' = Some (nat_digits (length (rs_content r)))"

lemma length_ok_set [simp]: "length_ok (setContentLength r)"
  by (simp add: length_ok_def setContentLength_def addHeader_def map_of_dict_set)

lemma length_ok_addHeader: "length_ok r \<Longrightarrow> k \<noteq> ''Content-Length'' \<Longrightarrow> length_ok (addHeader k v r)"
  by (simp add: length_ok_def addHeader_def map_of_dict_set)

lemma length_ok_setStatus [simp]: "length_ok (setStatus s r) = length_ok r"
  by (simp add: length_ok_def setStatus_def)

section \<open>Properties\<close>

text \<open>C24: What is sent for a response without carriage returns in its headers can be read back: the
  status line, the headers in order and exactly the content after the first empty line.  The reply
  to a HEAD request has no empty line at all: its header section never ends.\<close>

theorem response_wire_readable:
  assumes "clean_headers r"
  shows "wire_lines [] (concat (response_to_buffers r False)) =
      Some (status_text (rs_status r) # map header_line (rs_headers r), rs_content r) \<and>
    wire_lines [] (concat (response_to_buffers r True)) = None"
proof -
  note st = status_text_plain [of "rs_status r"]
  note hs = wire_lines_headers [OF assms [unfolded clean_headers_def]]
  have "wire_lines [] (status_line (rs_status r) @ s) =
      map_option (\<lambda>(ls, b). (status_text (rs_status r) # ls, b)) (wire_lines [] s)" for s
    using wire_lines_line [of "status_text (rs_status r)" "[]" s] st by (simp add: status_line_def)
  then show ?thesis
    unfolding response_wire using hs [of "crlf @ rs_content r"] hs [of "[]"] wire_lines_end [of "rs_content r"]
    by simp
qed

theorem response_wire_readable_witness:
  "wire_lines [] (concat (response_to_buffers (stockReply NotFound) False)) =
      Some ([''HTTP/1.0 404 Not Found'', ''Content-Length: 85'', ''Content-Type: text/html''], stock_content NotFound) \<and>
    wire_lines [] (concat (response_to_buffers (stockReply NotFound) True)) = None"
proof -
  have hs: "rs_headers (stockReply NotFound) = [(''Content-Length'', ''85''), (''Content-Type'', ''text/html'')]"
    by (simp add: stockReply_def setContentLength_def setContentType_def addHeader_def empty_response_def
        stock_page_def nat_digits.simps digit_char_def char_of_eq_iff)
  have "clean_headers (stockReply NotFound)"
    unfolding clean_headers_def hs by (simp add: char_eq_byte [of CR])
  from response_wire_readable [OF this] show ?thesis
    unfolding hs
    by (simp add: header_line_def status_text_def stockReply_def setContentLength_def setContentType_def
        addHeader_def)
qed

text \<open>A file system of one file, for the witnesses: \<^verbatim>\<open>/www/a.txt\<close>, with \<^verbatim>\<open>/www\<close> as the root.\<close>

definition sample_fs :: file_system where
  "sample_fs =
     \<lparr>fs_weakly_canonical = \<lambda>root p. if p = ''..'' then Some [''/''] else Some [''/'', ''www'', p],
      fs_canonical = \<lambda>root. [''/'', ''www''],
      fs_is_regular = \<lambda>p. p = [''/'', ''www'', ''a.txt''],
      fs_exists = \<lambda>p. p = ''/www/a.txt'',
      fs_mtime = \<lambda>p. 0,
      fs_read = \<lambda>p. ''abc''\<rparr>"

text \<open>C9: A static file is served only when the canonical form of its path lies under the canonical root
  and is a regular file.\<close>

theorem static_file_confined:
  assumes "serveStaticFile fs now folder path r = Inr (True, r')"
  shows "\<exists>rest. fs_weakly_canonical fs folder path = Some (fs_canonical fs folder @ rest) \<and>
    fs_is_regular fs (fs_canonical fs folder @ rest) \<and>
    r' = encodeFile fs now (folder @ ''/'' @ path) [] [] r"
proof -
  have match: "mismatch root target = Inr ([], te) \<Longrightarrow> target = root @ te" for root target te :: "string list"
    by (induction root target rule: mismatch.induct) (auto split: if_splits)
  show ?thesis
    using assms match
    by (auto simp: serveStaticFile_def is_path_safe_def Let_def rmap_Inr_iff split: option.splits if_splits)
qed

theorem static_file_confined_witness:
  "\<exists>rest. fs_weakly_canonical sample_fs ''/www'' ''a.txt'' = Some (fs_canonical sample_fs ''/www'' @ rest) \<and>
    fs_is_regular sample_fs (fs_canonical sample_fs ''/www'' @ rest) \<and>
    encodeFile sample_fs 0 (''/www'' @ ''/'' @ ''a.txt'') [] [] empty_response =
      encodeFile sample_fs 0 (''/www'' @ ''/'' @ ''a.txt'') [] [] empty_response"
  by (rule static_file_confined [of sample_fs 0 "''/www''" "''a.txt''" empty_response])
    (simp add: serveStaticFile_def is_path_safe_def Let_def, simp add: sample_fs_def)

text \<open>When the canonical path of a request is a proper prefix of the root (the request \<^verbatim>\<open>..\<close>), the
  comparison that guards the root reads past the end of the path.\<close>

lemma static_file_overrun:
  assumes "fs_weakly_canonical fs folder path = Some target" "strict_prefix target (fs_canonical fs folder)"
  shows "serveStaticFile fs now folder path r = Inl Undefined"
proof -
  have "strict_prefix target root \<Longrightarrow> mismatch root target = Inl Undefined" for root target :: "string list"
    by (induction root target rule: mismatch.induct) auto
  then show ?thesis using assms by (simp add: serveStaticFile_def is_path_safe_def)
qed

lemma static_file_overrun_witness:
  "serveStaticFile sample_fs 0 ''/www'' ''..'' empty_response = Inl Undefined"
  by (rule static_file_overrun [of _ _ _ "[''/'']"]) (simp_all add: sample_fs_def)



text \<open>File data in gzip format is not recognised: with \<^verbatim>\<open>char\<close> signed, the second magic byte never
  compares equal to \<^verbatim>\<open>0x8b\<close>, so without an explicit encoding no \<^verbatim>\<open>Content-Encoding\<close> is ever set.\<close>

lemma gzip_never_detected:
  "\<not> is_gzip bytes \<and>
   getHeaderAttribute (encodeFileData now bytes [] mime t r) ''Content-Encoding'' def =
     getHeaderAttribute r ''Content-Encoding'' def"
proof -
  have "schar c \<noteq> 0x8b" for c
    using byte_less [of c] by (auto simp: schar_def simp del: byte_less)
  then have "\<not> is_gzip bytes" by (simp add: is_gzip_def)
  then show ?thesis
    by (simp add: encodeFileData_def Let_def getHeaderAttribute_def addHeader_def setStatus_def)
qed

text \<open>A response carries one cookie: headers are a map, so setting a second cookie replaces the
  first, whatever their names are.\<close>

lemma one_cookie_per_response:
  "setCookie n2 v2 e2 p2 d2 s2 h2 ss2 (setCookie n1 v1 e1 p1 d1 s1 h1 ss1 (stockReply st)) =
     setCookie n2 v2 e2 p2 d2 s2 h2 ss2 (stockReply st)"
proof -
  have "dict_ok (rs_headers (stockReply st))"
    by (simp add: stockReply_def setContentLength_def setContentType_def addHeader_def empty_response_def
        dict_ok_def)
  from std_map.put_overwrites [OF this] show ?thesis
    by (simp add: setCookie_def addHeader_def)
qed

end
