(* ===== verification/World.thy ===== *)
theory World
  imports Response Request "HOL-Library.Stream"
begin

text \<open>
  What the program does to the world around it, as explicit state: the readings of the system clock, the
  bytes of the random pool and the draws of the garbage-collection die are streams the program consumes; the
  sessions table of the SQLite database, with the outcome of each SQL statement as one more stream;
  the messages handed to the logger; and the state of the application on top, of any type.  An
  operation takes the world and returns a result with the world it leaves, also when it throws.
\<close>

section \<open>The world\<close>

text \<open>What SQLite answers to a statement: it runs it, or one of the calls fails, with the message
  of \<^verbatim>\<open>sqlite3_errmsg\<close>.\<close>

datatype sql_outcome =
    Sql_runs
  | Sql_prepare_fails string
  | Sql_bind_fails string
  | Sql_step_fails string

type_synonym session_table = "(string, string \<times> int) smap"

record 'a world =
  w_clock :: "int stream"
  w_random :: "char stream"
  w_dice :: "nat stream"
  w_sql :: "sql_outcome stream"
  w_sessions :: session_table
  w_log :: "string list"
  w_app :: 'a

text \<open>An operation on a state of any type; \<^verbatim>\<open>io\<close> is one on the world.\<close>

type_synonym ('s, 'r) eff = "'s \<Rightarrow> 'r result \<times> 's"
type_synonym ('a, 'r) io = "('a world, 'r) eff"

definition io_return :: "'r \<Rightarrow> ('s, 'r) eff" where
  "io_return x = (\<lambda>w. (Inr x, w))"

definition io_throw :: "fault \<Rightarrow> ('s, 'r) eff" where
  "io_throw e = (\<lambda>w. (Inl e, w))"

definition io_bind :: "('s, 'r) eff \<Rightarrow> ('r \<Rightarrow> ('s, 't) eff) \<Rightarrow> ('s, 't) eff" where
  "io_bind m k = (\<lambda>w. case m w of (Inl e, w') \<Rightarrow> (Inl e, w') | (Inr x, w') \<Rightarrow> k x w')"

text \<open>\<^verbatim>\<open>try { m } catch (std::runtime_error &) { h }\<close>: other faults pass through.\<close>

definition io_catch :: "('s, 'r) eff \<Rightarrow> (string \<Rightarrow> ('s, 'r) eff) \<Rightarrow> ('s, 'r) eff" where
  "io_catch m h = (\<lambda>w. case m w of (Inl (Runtime_error e), w') \<Rightarrow> h e w' | r \<Rightarrow> r)"

definition io_lift :: "'r result \<Rightarrow> ('s, 'r) eff" where
  "io_lift r = (\<lambda>w. (r, w))"

lemma io_simps [simp]:
  "io_return x w = (Inr x, w)"
  "io_throw e w = (Inl e, w)"
  "io_lift r w = (r, w)"
  by (simp_all add: io_return_def io_throw_def io_lift_def)

lemma io_bind_Inr: "m w = (Inr x, w') \<Longrightarrow> io_bind m k w = k x w'"
  by (simp add: io_bind_def)

lemma io_bind_Inl: "m w = (Inl e, w') \<Longrightarrow> io_bind m k w = (Inl e, w')"
  by (simp add: io_bind_def)

lemma io_bind_cases:
  assumes "io_bind m k w = (r, w')"
  obtains (throws) e where "m w = (Inl e, w')" "r = Inl e"
    | (runs) x w1 where "m w = (Inr x, w1)" "k x w1 = (r, w')"
  using assms by (auto simp: io_bind_def split: prod.splits sum.splits)

lemma io_bind_cong [fundef_cong]:
  assumes "m w = m' w'" "\<And>x v. m' w' = (Inr x, v) \<Longrightarrow> k x v = k' x v"
  shows "io_bind m k w = io_bind m' k' w'"
  using assms by (auto simp: io_bind_def split: prod.splits sum.splits)

lemma io_bind_assoc: "io_bind (io_bind m k) h = io_bind m (\<lambda>x. io_bind (k x) h)"
  by (rule ext) (auto simp: io_bind_def split: prod.splits sum.splits)

lemma io_bind_return [simp]: "io_bind m io_return = m"
  by (rule ext) (auto simp: io_bind_def split: prod.splits sum.splits)

section \<open>Clock, random pool and log\<close>

definition io_now :: "('a, int) io" where
  "io_now w = (Inr (shd (w_clock w)), w\<lparr>w_clock := stl (w_clock w)\<rparr>)"

text \<open>\<^verbatim>\<open>randomBytes(len)\<close> of \<^verbatim>\<open>src/crypto.cpp\<close>: the next bytes of the pool.\<close>

definition randomBytes :: "nat \<Rightarrow> ('a, string) io" where
  "randomBytes len w = (Inr (stake len (w_random w)), w\<lparr>w_random := sdrop len (w_random w)\<rparr>)"

definition io_dice :: "('a, nat) io" where
  "io_dice w = (Inr (shd (w_dice w)), w\<lparr>w_dice := stl (w_dice w)\<rparr>)"

text \<open>\<^verbatim>\<open>logger_.log(LogLevel::Info, msg)\<close>.\<close>

definition io_log :: "string \<Rightarrow> ('a, unit) io" where
  "io_log msg w = (Inr (), w\<lparr>w_log := w_log w @ [msg]\<rparr>)"

lemma io_now_bind [simp]:
  "io_bind io_now k w = k (shd (w_clock w)) (w\<lparr>w_clock := stl (w_clock w)\<rparr>)"
  by (simp add: io_bind_def io_now_def)

lemma io_dice_bind [simp]:
  "io_bind io_dice k w = k (shd (w_dice w)) (w\<lparr>w_dice := stl (w_dice w)\<rparr>)"
  by (simp add: io_bind_def io_dice_def)

lemma randomBytes_bind [simp]:
  "io_bind (randomBytes n) k w = k (stake n (w_random w)) (w\<lparr>w_random := sdrop n (w_random w)\<rparr>)"
  by (simp add: io_bind_def randomBytes_def)

lemma io_lift_bind [simp]:
  "io_bind (io_lift (Inr x)) k = k x" "io_bind (io_lift (Inl e)) k = io_throw e"
  by (simp_all add: io_bind_def io_lift_def io_throw_def fun_eq_iff)

lemma io_return_bind [simp]: "io_bind (io_return x) k = k x"
  by (simp add: io_bind_def io_return_def fun_eq_iff)

section \<open>What an operation leaves alone\<close>

text \<open>An operation moves a state along a relation, with whatever result.  When the relation is reflexive and
  transitive, operations put together from such operations do so too.\<close>

definition moves :: "('s \<Rightarrow> 's \<Rightarrow> bool) \<Rightarrow> ('s, 'r) eff \<Rightarrow> 's \<Rightarrow> bool" where
  "moves R m s \<longleftrightarrow> R s (snd (m s))"

locale effect_relation =
  fixes R :: "'s \<Rightarrow> 's \<Rightarrow> bool"
  assumes stays: "R s s"
    and follows: "R s t \<Longrightarrow> R t u \<Longrightarrow> R s u"
begin

lemma moves_return [intro!]: "moves R (io_return x) s"
  by (simp add: moves_def stays)

lemma moves_throw [intro!]: "moves R (io_throw e) s"
  by (simp add: moves_def stays)

lemma moves_lift [intro!]: "moves R (io_lift r) s"
  by (simp add: moves_def stays)

lemma moves_bind [intro!]:
  assumes "moves R m s" and "\<And>x s'. m s = (Inr x, s') \<Longrightarrow> R s s' \<Longrightarrow> moves R (k x) s'"
  shows "moves R (io_bind m k) s"
proof (cases "m s")
  case (Pair r s')
  then have "R s s'" using assms(1) by (simp add: moves_def)
  then show ?thesis
    using assms(2) Pair by (cases r) (auto simp: moves_def io_bind_def intro: follows)
qed

lemma moves_catch [intro!]:
  assumes "moves R m s" and "\<And>e s'. R s s' \<Longrightarrow> moves R (h e) s'"
  shows "moves R (io_catch m h) s"
proof (cases "m s")
  case (Pair r s')
  then have "R s s'" using assms(1) by (simp add: moves_def)
  then show ?thesis
    using assms(2) [of s'] Pair by (cases r; cases "projl r") (auto simp: moves_def io_catch_def intro: follows)
qed

end

text \<open>The state of the application and the log stay as they are.\<close>

definition same_app :: "'a world \<Rightarrow> 'a world \<Rightarrow> bool" where
  "same_app w w' \<longleftrightarrow> w_app w' = w_app w \<and> w_log w' = w_log w"

interpretation app_frame: effect_relation same_app
  by unfold_locales (simp_all add: same_app_def)

lemma moves_primitive [intro!]:
  "moves same_app io_now w" "moves same_app (randomBytes n) w" "moves same_app io_dice w"
  by (simp_all add: moves_def same_app_def io_now_def randomBytes_def io_dice_def)

section \<open>A world for the witnesses\<close>

definition sample_world :: "unit world" where
  "sample_world = \<lparr>w_clock = sconst 1000, w_random = sconst (CHR ''k''), w_dice = sconst 2,
     w_sql = sconst Sql_runs, w_sessions = [], w_log = [], w_app = ()\<rparr>"

end
