(* ===== verification/Crypto.thy ===== *)
theory Crypto
  imports World "HOL-Library.Word"
begin

text \<open>
  \<^verbatim>\<open>src/crypto.cpp\<close> and \<^verbatim>\<open>src/session_manager.cpp\<close>: random tokens, password hashes and the comparison of
  hashes.  The algorithms are those of the CryptoPP library, whose functions are the parameter
  \<^verbatim>\<open>crypto_lib\<close>: the Base64 encoder writes lines that end in a line feed, PBKDF2 takes the
  password, the salt and the number of iterations and fills as many bytes as asked for.
\<close>

record crypto_lib =
  cl_base64_encode :: "string \<Rightarrow> string"
  cl_base64_decode :: "string \<Rightarrow> string"
  cl_hex_encode :: "string \<Rightarrow> string"
  cl_pbkdf2 :: "nat \<Rightarrow> string \<Rightarrow> string \<Rightarrow> nat \<Rightarrow> string"
  cl_sha256 :: "string \<Rightarrow> string"

definition binToHex :: "crypto_lib \<Rightarrow> string \<Rightarrow> string" where
  "binToHex L src = cl_hex_encode L src"

text \<open>\<^verbatim>\<open>pop_back\<close> removes the last line feed; it is undefined on an empty string.\<close>

definition encodeBase64 :: "crypto_lib \<Rightarrow> string \<Rightarrow> string result" where
  "encodeBase64 L src =
     (let encoded = cl_base64_encode L src
      in if encoded = [] then Inl Undefined else Inr (butlast encoded))"

definition decodeBase64 :: "crypto_lib \<Rightarrow> string \<Rightarrow> string" where
  "decodeBase64 L src = cl_base64_decode L src"

definition hashSHA256 :: "crypto_lib \<Rightarrow> string \<Rightarrow> string" where
  "hashSHA256 L src = cl_sha256 L src"

text \<open>\<^verbatim>\<open>SessionManager::generateSID\<close>, and \<^verbatim>\<open>generate_secure_token\<close> of the CSRF middleware, which is the
  same code.\<close>

definition token_chars :: "string \<Rightarrow> string" where
  "token_chars code = map (\<lambda>c. if \<not> isalnum c then CHR ''-'' else c) code"

definition generateSID :: "crypto_lib \<Rightarrow> ('a, string) io" where
  "generateSID L = io_bind (randomBytes 32) (\<lambda>bytes. io_lift (rmap token_chars (encodeBase64 L bytes)))"

section \<open>Password hashes\<close>

definition salt_length :: nat where
  "salt_length = 16"

definition DIGESTSIZE :: nat where
  "DIGESTSIZE = 32"

text \<open>\<^verbatim>\<open>htonl\<close> of the iterations, stored in four bytes, and \<^verbatim>\<open>ntohl\<close> of four bytes read.\<close>

definition be32_store :: "nat \<Rightarrow> string" where
  "be32_store n =
     (let w = (of_nat n :: 32 word)
      in map (\<lambda>k. char_of (unat (drop_bit (8 * k) w) mod 256)) [3, 2, 1, 0])"

definition be32_load :: "string \<Rightarrow> nat" where
  "be32_load b = foldl (\<lambda>a c. 256 * a + byte c) 0 b"

text \<open>The buffer: salt, key and iterations; \<^verbatim>\<open>resize\<close> to the full size and the two stores.\<close>

definition passwordHash :: "crypto_lib \<Rightarrow> string \<Rightarrow> nat \<Rightarrow> ('a, string) io" where
  "passwordHash L password iterations =
     io_bind (randomBytes salt_length) (\<lambda>salt.
       io_return (salt @ cl_pbkdf2 L DIGESTSIZE password salt iterations @ be32_store iterations))"

definition passwordVerify :: "crypto_lib \<Rightarrow> string \<Rightarrow> string \<Rightarrow> bool result" where
  "passwordVerify L password hash =
     (if length hash \<noteq> DIGESTSIZE + salt_length + 4 then Inl Aborted
      else
        (let iterations = be32_load (drop (DIGESTSIZE + salt_length) hash);
             key = cl_pbkdf2 L DIGESTSIZE password (take salt_length hash) iterations;
             ncount = length (filter (\<lambda>i. hash ! (salt_length + i) \<noteq> key ! i) [0..<DIGESTSIZE])
         in Inr (ncount = 0)))"

definition hashCompare :: "string \<Rightarrow> string \<Rightarrow> bool" where
  "hashCompare s1 s2 =
     (let len = min (length s1) (length s2);
          ncount = length (filter (\<lambda>i. s1 ! i \<noteq> s2 ! i) [0..<len])
      in ncount = 0)"

section \<open>Lemmas\<close>

lemma token_chars_clean: "c \<in> set (token_chars s) \<Longrightarrow> isalnum c \<or> c = CHR ''-''"
  by (auto simp: token_chars_def)

lemma token_chars_length [simp]: "length (token_chars s) = length s"
  by (simp add: token_chars_def)

lemma ncount_eq:
  assumes "n \<le> length xs" "n \<le> length ys"
  shows "length (filter (\<lambda>i. xs ! i \<noteq> ys ! i) [0..<n]) = 0 \<longleftrightarrow> take n xs = take n ys"
proof -
  have "length (filter (\<lambda>i. xs ! i \<noteq> ys ! i) [0..<n]) = 0 \<longleftrightarrow> (\<forall>i < n. xs ! i = ys ! i)"
    by (simp add: filter_empty_conv del: upt_conv_Cons_Cons) force
  also have "\<dots> \<longleftrightarrow> take n xs = take n ys"
    using nth_take_lemma [OF assms] nth_take [of _ n xs] nth_take [of _ n ys] by metis
  finally show ?thesis .
qed

lemma be32_length [simp]: "length (be32_store n) = 4"
  by (simp add: be32_store_def Let_def)

lemma be32_byte: "unat (drop_bit k (of_nat n :: 32 word)) = n mod 2 ^ 32 div 2 ^ k"
  unfolding unat_drop_bit_eq unat_of_nat by (simp add: drop_bit_eq_div)

text \<open>A number below 2 to the 32 is the sum of its four bytes.\<close>

lemma bytes_of_32:
  fixes m :: nat
  assumes "m < 4294967296"
  shows "256 * (256 * (256 * (m div 16777216 mod 256) + m div 65536 mod 256) + m div 256 mod 256) + m mod 256 = m"
proof -
  have "256 * (m div 256) + m mod 256 = m" "256 * (m div 65536) + m div 256 mod 256 = m div 256"
    "256 * (m div 16777216) + m div 65536 mod 256 = m div 65536"
    using mult_div_mod_eq [of 256 m] mult_div_mod_eq [of 256 "m div 256"] mult_div_mod_eq [of 256 "m div 65536"]
    by (simp_all add: div_mult2_eq [symmetric])
  moreover have "m div 16777216 mod 256 = m div 16777216"
    using assms by (simp add: less_mult_imp_div_less)
  ultimately show ?thesis by (simp only:)
qed

lemma be32_roundtrip: "be32_load (be32_store n) = n mod 2 ^ 32"
proof -
  define m where "m = n mod 2 ^ 32"
  have m: "m < 4294967296" by (simp add: m_def)
  have "be32_load (be32_store n) =
      256 * (256 * (256 * (m div 16777216 mod 256) + m div 65536 mod 256) + m div 256 mod 256) + m mod 256"
    unfolding be32_store_def be32_load_def Let_def be32_byte m_def [symmetric] using m by simp
  then show ?thesis unfolding bytes_of_32 [OF m] by (simp add: m_def)
qed

section \<open>Properties\<close>

text \<open>A library for the witnesses: its PBKDF2 repeats the password and the salt and mixes in the
  number of iterations.\<close>

definition sample_crypto :: crypto_lib where
  "sample_crypto = \<lparr>cl_base64_encode = \<lambda>s. take 44 s @ [LF], cl_base64_decode = \<lambda>s. s, cl_hex_encode = \<lambda>s. s,
     cl_pbkdf2 = \<lambda>n p s i. take n (digit_char (i mod 10) # p @ s @ replicate n NUL), cl_sha256 = \<lambda>s. s\<rparr>"

text \<open>C27: A password hash has 52 bytes and verifies exactly the passwords for which PBKDF2, with the salt
  and the iterations modulo 2 to the 32, gives the stored key; in particular, with fewer than 2 to the
  32 iterations, it verifies the password it was made from.\<close>

theorem password_hash_verifies:
  assumes lib: "\<And>n p s i. length (cl_pbkdf2 L n p s i) = n"
    and run: "passwordHash L password iterations w = (r, w')"
  shows "\<exists>hash salt. r = Inr hash \<and> salt = stake 16 (w_random w) \<and> length hash = 52 \<and>
    w_random w' = sdrop 16 (w_random w) \<and>
    (\<forall>p. passwordVerify L p hash =
       Inr (cl_pbkdf2 L 32 p salt (iterations mod 2 ^ 32) = cl_pbkdf2 L 32 password salt iterations)) \<and>
    (iterations < 2 ^ 32 \<longrightarrow> passwordVerify L password hash = Inr True)"
proof -
  define salt where "salt = stake 16 (w_random w)"
  define key where "key = cl_pbkdf2 L 32 password salt iterations"
  define hash where "hash = salt @ key @ be32_store iterations"
  have len: "length salt = 16" "length key = 32" by (simp_all add: salt_def key_def lib)
  have verify: "passwordVerify L p hash = Inr (cl_pbkdf2 L 32 p salt (iterations mod 2 ^ 32) = key)" for p
  proof -
    let ?key' = "cl_pbkdf2 L 32 p salt (iterations mod 2 ^ 32)"
    have at: "hash ! (16 + i) = key ! i" if "i < 32" for i
      using that len by (simp add: hash_def nth_append)
    have "filter (\<lambda>i. hash ! (16 + i) \<noteq> ?key' ! i) [0..<32] = filter (\<lambda>i. key ! i \<noteq> ?key' ! i) [0..<32]"
      by (rule filter_cong [OF refl]) (simp only: set_upt atLeastLessThan_iff at)
    moreover have "length (filter (\<lambda>i. key ! i \<noteq> ?key' ! i) [0..<32]) = 0 \<longleftrightarrow> ?key' = key"
      using ncount_eq [of 32 key ?key'] len lib [of 32] by auto
    ultimately show ?thesis
      using len be32_roundtrip [of iterations]
      by (simp only: passwordVerify_def DIGESTSIZE_def salt_length_def hash_def Let_def length_append
          be32_length if_False drop_append take_append) simp
  qed
  have "r = Inr hash" "w_random w' = sdrop 16 (w_random w)"
    using run by (auto simp: passwordHash_def salt_length_def DIGESTSIZE_def hash_def key_def salt_def)
  then show ?thesis
    using verify [unfolded key_def] len by (intro exI [of _ hash] exI [of _ salt]) (simp add: salt_def hash_def)
qed

theorem password_hash_verifies_witness:
  "\<exists>hash. fst (passwordHash sample_crypto ''secret'' 1000 sample_world) = Inr hash \<and>
     passwordVerify sample_crypto ''secret'' hash = Inr True \<and>
     passwordVerify sample_crypto ''other'' hash = Inr False"
proof -
  have "length (cl_pbkdf2 sample_crypto n p s i) = n" for n p s i
    by (simp add: sample_crypto_def min_def)
  from password_hash_verifies [OF this surjective_pairing, of "''secret''" 1000 sample_world]
  obtain hash salt where h: "fst (passwordHash sample_crypto ''secret'' 1000 sample_world) = Inr hash"
    "\<forall>p. passwordVerify sample_crypto p hash =
       Inr (cl_pbkdf2 sample_crypto 32 p salt (1000 mod 2 ^ 32) = cl_pbkdf2 sample_crypto 32 ''secret'' salt 1000)"
    by (elim exE conjE)
  have "cl_pbkdf2 sample_crypto 32 ''other'' salt (1000 mod 2 ^ 32) \<noteq> cl_pbkdf2 sample_crypto 32 ''secret'' salt 1000"
    by (simp add: sample_crypto_def)
  with h show ?thesis by simp
qed

text \<open>The comparison of hashes looks at the common prefix only: it accepts every pair of strings of which one
  is a prefix of the other, and the empty string with anything.\<close>

lemma hashCompare_prefixes:
  "hashCompare s1 s2 \<longleftrightarrow> prefix s1 s2 \<or> prefix s2 s1"
proof -
  have "hashCompare s1 s2 \<longleftrightarrow> take (min (length s1) (length s2)) s1 = take (min (length s1) (length s2)) s2"
    unfolding hashCompare_def Let_def by (rule ncount_eq) simp_all
  also have "\<dots> \<longleftrightarrow> prefix s1 s2 \<or> prefix s2 s1"
    by (cases "length s1 \<le> length s2") (auto simp: min_def prefix_def take_append, (metis append_take_drop_id)+)
  finally show ?thesis .
qed

end
