(* ===== verification/Middleware.thy ===== *)
theory Middleware
  imports World
begin

text \<open>
  \<^verbatim>\<open>include/wsrv/middleware.hpp\<close> and \<^verbatim>\<open>include/wsrv/request_handler.hpp\<close>: handlers, middleware and the
  context that passes a request from one middleware to the next.  What a handler sees and changes is an
  \<^verbatim>\<open>exchange\<close>: the request and the response it holds by reference, and the world.  A middleware
  calls \<^verbatim>\<open>ctx.next\<close> any number of times; it is modelled by the tree of what it does: it returns
  (or throws), or it calls \<^verbatim>\<open>next\<close> and goes on with what that call left or threw.  The context
  keeps one index for the whole request, which the calls of \<^verbatim>\<open>next\<close> advance and never reset.
\<close>

record 'a exchange =
  ex_req :: request
  ex_res :: response
  ex_world :: "'a world"

type_synonym 'a outcome = "unit result \<times> 'a exchange"
type_synonym 'a handler = "'a exchange \<Rightarrow> 'a outcome"

datatype 'a prog =
    Return "'a outcome"
  | Next "'a exchange" "'a outcome \<Rightarrow> 'a prog"

type_synonym 'a middleware = "'a exchange \<Rightarrow> 'a prog"

section \<open>The context\<close>

text \<open>
  \<^verbatim>\<open>run_prog nx i p\<close> runs a middleware whose context has index \<^verbatim>\<open>i\<close>, \<^verbatim>\<open>nx\<close> being \<^verbatim>\<open>next\<close>.
  Every call of \<^verbatim>\<open>next\<close> that reaches a middleware advances the index, so calls nest at most as deep as
  there are middlewares left: the first argument of \<^verbatim>\<open>context_next\<close> counts them.
\<close>

primrec run_prog :: "(nat \<Rightarrow> 'a exchange \<Rightarrow> 'a outcome \<times> nat) \<Rightarrow> 'a prog \<Rightarrow> nat \<Rightarrow> 'a outcome \<times> nat" where
  "run_prog nx (Return r) i = (r, i)"
| "run_prog nx (Next ex k) i = run_prog nx (k (fst (nx i ex))) (snd (nx i ex))"

definition call_handler :: "'a handler option \<Rightarrow> 'a handler" where
  "call_handler h ex = (case h of None \<Rightarrow> (Inr (), ex) | Some f \<Rightarrow> f ex)"

fun context_next :: "nat \<Rightarrow> 'a middleware list \<Rightarrow> 'a handler option \<Rightarrow> nat \<Rightarrow> 'a exchange \<Rightarrow> 'a outcome \<times> nat" where
  "context_next left ms h i ex =
     (if i < length ms then
        (case left of
           0 \<Rightarrow> ((Inl Undefined, ex), i)
         | Suc n \<Rightarrow> run_prog (context_next n ms h) ((ms ! i) ex) (Suc i))
      else (call_handler h ex, i))"

declare context_next.simps [simp del]

definition mw_next :: "'a middleware list \<Rightarrow> 'a handler option \<Rightarrow> nat \<Rightarrow> 'a exchange \<Rightarrow> 'a outcome \<times> nat" where
  "mw_next ms h i ex = context_next (length ms - i) ms h i ex"

text \<open>The context constructed and its first \<^verbatim>\<open>next\<close>; \<^verbatim>\<open>Pipeline::run\<close> does the same.\<close>

definition run_context :: "'a middleware list \<Rightarrow> 'a handler option \<Rightarrow> 'a handler" where
  "run_context ms h ex = fst (mw_next ms h 0 ex)"

record 'a pipeline =
  pl_middlewares :: "'a middleware list"
  pl_handler :: "'a handler option"

definition empty_pipeline :: "'a pipeline" where
  "empty_pipeline = \<lparr>pl_middlewares = [], pl_handler = None\<rparr>"

definition pipeline_use :: "'a middleware \<Rightarrow> 'a pipeline \<Rightarrow> 'a pipeline" where
  "pipeline_use mw p = p\<lparr>pl_middlewares := pl_middlewares p @ [mw]\<rparr>"

definition pipeline_setHandler :: "'a handler option \<Rightarrow> 'a pipeline \<Rightarrow> 'a pipeline" where
  "pipeline_setHandler h p = p\<lparr>pl_handler := h\<rparr>"

definition pipeline_run :: "'a pipeline \<Rightarrow> 'a handler" where
  "pipeline_run p = run_context (pl_middlewares p) (pl_handler p)"

section \<open>The count is enough\<close>

lemma run_prog_index:
  "(\<And>j ex. i \<le> j \<Longrightarrow> j \<le> snd (nx j ex)) \<Longrightarrow> i \<le> snd (run_prog nx p i)"
proof (induction p arbitrary: i)
  case (Next ex k)
  have le: "i \<le> snd (nx i ex)" by (rule Next.prems) simp
  have "snd (nx i ex) \<le> snd (run_prog nx (k (fst (nx i ex))) (snd (nx i ex)))"
  proof (rule Next.IH [OF rangeI])
    fix j e
    assume "snd (nx i ex) \<le> j"
    then show "j \<le> snd (nx j e)" using le by (intro Next.prems) simp
  qed
  with le show ?case by simp
qed simp

lemma context_next_index: "i \<le> snd (context_next n ms h i ex)"
proof (induction n arbitrary: i ex)
  case 0
  then show ?case by (subst context_next.simps) simp
next
  case (Suc n)
  have "Suc i \<le> snd (run_prog (context_next n ms h) ((ms ! i) ex) (Suc i))"
    by (rule run_prog_index) (rule Suc)
  then show ?case by (subst context_next.simps) simp
qed

lemma run_prog_cong:
  assumes "\<And>j ex. i \<le> j \<Longrightarrow> nx j ex = nx' j ex" "\<And>j ex. j \<le> snd (nx j ex)"
  shows "run_prog nx p i = run_prog nx' p i"
  using assms(1)
proof (induction p arbitrary: i)
  case (Next ex k)
  have eq: "nx i ex = nx' i ex" by (rule Next.prems) simp
  have "run_prog nx (k (fst (nx i ex))) (snd (nx i ex)) = run_prog nx' (k (fst (nx i ex))) (snd (nx i ex))"
  proof (rule Next.IH [OF rangeI])
    fix j e
    assume "snd (nx i ex) \<le> j"
    then show "nx j e = nx' j e" using assms(2) [of i ex] by (intro Next.prems) simp
  qed
  then show ?case by (simp add: eq)
qed simp

lemma context_next_enough:
  "length ms - i \<le> n \<Longrightarrow> length ms - i \<le> m \<Longrightarrow> context_next n ms h i ex = context_next m ms h i ex"
proof (induction n arbitrary: m i ex)
  case 0
  then show ?case by (subst (1 2) context_next.simps) simp
next
  case (Suc n)
  show ?case
  proof (cases "i < length ms")
    case True
    with Suc.prems obtain m' where m: "m = Suc m'" by (cases m) auto
    have "run_prog (context_next n ms h) ((ms ! i) ex) (Suc i) = run_prog (context_next m' ms h) ((ms ! i) ex) (Suc i)"
    proof (rule run_prog_cong [OF _ context_next_index])
      fix j e
      assume "Suc i \<le> j"
      then show "context_next n ms h j e = context_next m' ms h j e"
        using Suc.prems by (intro Suc.IH) (auto simp: m)
    qed
    then show ?thesis using True by (subst (1 2) context_next.simps) (simp add: m)
  next
    case False
    then show ?thesis by (subst (1 2) context_next.simps) simp
  qed
qed

text \<open>\<^verbatim>\<open>next\<close> as the code has it.\<close>

lemma mw_next_code:
  "mw_next ms h i ex =
     (if i < length ms then run_prog (mw_next ms h) ((ms ! i) ex) (Suc i) else (call_handler h ex, i))"
proof (cases "i < length ms")
  case True
  then obtain n where n: "length ms - i = Suc n" by (cases "length ms - i") auto
  have "run_prog (context_next n ms h) ((ms ! i) ex) (Suc i) = run_prog (mw_next ms h) ((ms ! i) ex) (Suc i)"
  proof (rule run_prog_cong [OF _ context_next_index])
    fix j e
    assume "Suc i \<le> j"
    then show "context_next n ms h j e = mw_next ms h j e"
      using n by (subst mw_next_def, intro context_next_enough) auto
  qed
  then show ?thesis using True n by (simp add: mw_next_def context_next.simps [of "Suc n"])
next
  case False
  then show ?thesis by (simp add: mw_next_def context_next.simps)
qed

section \<open>Middleware that calls next at most once\<close>

text \<open>
  The middleware of the program does some work and then either returns or calls \<^verbatim>\<open>next\<close> once
  and finishes.
\<close>

datatype 'a onion =
    Stop "'a outcome"
  | Pass "'a exchange" "'a outcome \<Rightarrow> 'a outcome"

fun onion_prog :: "'a onion \<Rightarrow> 'a prog" where
  "onion_prog (Stop r) = Return r"
| "onion_prog (Pass ex k) = Next ex (\<lambda>r. Return (k r))"

fun wrap :: "('a exchange \<Rightarrow> 'a onion) list \<Rightarrow> 'a handler option \<Rightarrow> 'a handler" where
  "wrap [] h ex = call_handler h ex"
| "wrap (m # ms) h ex = (case m ex of Stop r \<Rightarrow> r | Pass ex' k \<Rightarrow> k (wrap ms h ex'))"

lemma mw_next_onions:
  "i \<le> length ms \<Longrightarrow>
   fst (mw_next (map (\<lambda>m ex. onion_prog (m ex)) ms) h i ex) = wrap (drop i ms) h ex"
proof (induction "length ms - i" arbitrary: i ex)
  case 0
  then show ?case by (simp add: mw_next_code)
next
  case (Suc n)
  then have i: "i < length ms" by simp
  then have "drop i ms = ms ! i # drop (Suc i) ms" by (simp add: Cons_nth_drop_Suc)
  moreover have "fst (mw_next (map (\<lambda>m ex. onion_prog (m ex)) ms) h (Suc i) e) = wrap (drop (Suc i) ms) h e" for e
    using Suc.hyps i by (intro Suc.hyps(1)) auto
  ultimately show ?case using i
    by (subst mw_next_code) (cases "(ms ! i) ex"; simp)
qed

lemma wrap_append: "wrap (ms @ ns) h = wrap ms (Some (wrap ns h))"
proof
  fix ex
  show "wrap (ms @ ns) h ex = wrap ms (Some (wrap ns h)) ex"
    by (induction ms arbitrary: ex) (auto simp: call_handler_def split: onion.splits)
qed

section \<open>Properties\<close>


text \<open>The index of a context is never reset: when the first middleware calls \<^verbatim>\<open>next\<close> a second time,
  after a first call that went through all the middleware, the handler runs again at once, without
  the middleware between them.\<close>

lemma second_next_skips_middleware:
  assumes "\<And>m ex. m \<in> set ms \<Longrightarrow> \<exists>ex' k. m ex = Pass ex' k"
  shows "run_context ((\<lambda>ex. Next ex (\<lambda>r. Next (snd r) Return)) # map (\<lambda>m ex. onion_prog (m ex)) ms) h ex =
    call_handler h (snd (wrap ms h ex))"
proof -
  let ?ms = "(\<lambda>ex. Next ex (\<lambda>r. Next (snd r) Return)) # map (\<lambda>m ex. onion_prog (m ex)) ms"
  have passes: "mw_next ?ms h (Suc i) e = (wrap (drop i ms) h e, Suc (length ms))" if "i \<le> length ms" for i e
    using that
  proof (induction "length ms - i" arbitrary: i e)
    case 0
    then show ?case by (simp add: mw_next_code)
  next
    case (Suc n)
    then have i: "i < length ms" by simp
    then have d: "drop i ms = ms ! i # drop (Suc i) ms" by (simp add: Cons_nth_drop_Suc)
    obtain ex' k where "(ms ! i) e = Pass ex' k" using assms i by (meson nth_mem)
    moreover have "mw_next ?ms h (Suc (Suc i)) e' = (wrap (drop (Suc i) ms) h e', Suc (length ms))" for e'
      using Suc.hyps i by (intro Suc.hyps(1)) auto
    ultimately show ?case using i d by (subst mw_next_code) simp
  qed
  have last: "mw_next ?ms h (Suc (length ms)) e = (call_handler h e, Suc (length ms))" for e
    by (subst mw_next_code) simp
  show ?thesis
    unfolding run_context_def by (subst mw_next_code) (simp add: passes [of 0, simplified] last)
qed

text \<open>The middleware that only passes on, and one that counts its runs in the application state.\<close>

definition counting :: "nat exchange \<Rightarrow> nat onion" where
  "counting ex = Pass (ex\<lparr>ex_world := (ex_world ex)\<lparr>w_app := w_app (ex_world ex) + 1\<rparr>\<rparr>) id"

definition sample_exchange :: "'a \<Rightarrow> 'a exchange" where
  "sample_exchange a = \<lparr>ex_req = empty_request, ex_res = empty_response,
     ex_world = \<lparr>w_clock = sconst 1000, w_random = sconst (CHR ''k''), w_dice = sconst 2,
       w_sql = sconst Sql_runs, w_sessions = [], w_log = [], w_app = a\<rparr>\<rparr>"

end
