(* ===== verification/Application.thy ===== *)
theory Application
  imports Middleware
begin

text \<open>
  \<^verbatim>\<open>src/application.cpp\<close>, \<^verbatim>\<open>include/wsrv/application.hpp\<close> and \<^verbatim>\<open>include/wsrv/blueprint.hpp\<close>: the table of
  routes, the routing engine at the end of the global pipeline, and the blueprints that are flattened
  into the table.  Compiling a route may fail; then the application is not changed.
\<close>

section \<open>The table of routes\<close>

record 'a route_entry =
  re_route :: route
  re_method :: string
  re_pattern_str :: string
  re_handler :: "'a handler"
  re_middlewares :: "'a middleware list"

definition RouteEntry :: "string \<Rightarrow> string \<Rightarrow> 'a handler \<Rightarrow> 'a middleware list \<Rightarrow> 'a route_entry result" where
  "RouteEntry m p h mw =
     rmap (\<lambda>r. \<lparr>re_route = r, re_method = m, re_pattern_str = p, re_handler = h, re_middlewares = mw\<rparr>) (Route p)"

record 'a application =
  app_global :: "'a middleware list"
  app_routes :: "'a route_entry list"
  app_named :: "(string, route) smap"

definition empty_application :: "'a application" where
  "empty_application = \<lparr>app_global = [], app_routes = [], app_named = []\<rparr>"

definition useGlobal :: "'a middleware \<Rightarrow> 'a application \<Rightarrow> 'a application" where
  "useGlobal mw app = app\<lparr>app_global := app_global app @ [mw]\<rparr>"

definition addRoute ::
  "string \<Rightarrow> string \<Rightarrow> 'a handler \<Rightarrow> 'a middleware list \<Rightarrow> string \<Rightarrow> 'a application \<Rightarrow> 'a application result" where
  "addRoute meth path h mws name app =
     rmap (\<lambda>e. let app1 = app\<lparr>app_routes := app_routes app @ [e]\<rparr>
               in if name \<noteq> [] then app1\<lparr>app_named := dict_set name (re_route e) (app_named app1)\<rparr> else app1)
       (RouteEntry meth path h mws)"

definition application_url :: "'a application \<Rightarrow> string \<Rightarrow> dict \<Rightarrow> bool \<Rightarrow> string" where
  "application_url app name params relative =
     (case map_of (app_named app) name of None \<Rightarrow> [] | Some r \<Rightarrow> route_url r params relative)"

section \<open>Handling a request\<close>

text \<open>The loop of the routing engine: the first entry that matches, with the attributes it binds.\<close>

fun find_route :: "'a route_entry list \<Rightarrow> request \<Rightarrow> ('a route_entry \<times> dict) option result" where
  "find_route [] req = Inr None"
| "find_route (re # res) req =
     rbind (route_matches (re_route re) (rq_path req) [])
       (\<lambda>(ok, attrs). if ok \<and> matchesMethod req (re_method re) then Inr (Some (re, attrs))
          else find_route res req)"

definition routing_engine :: "'a route_entry list \<Rightarrow> 'a handler" where
  "routing_engine routes ex =
     (case find_route routes (ex_req ex) of
        Inl e \<Rightarrow> (Inl e, ex)
      | Inr None \<Rightarrow> (Inr (), ex\<lparr>ex_res := stockReply NotFound\<rparr>)
      | Inr (Some (re, attrs)) \<Rightarrow>
          (let ex1 = ex\<lparr>ex_req := (ex_req ex)\<lparr>rq_route := attrs\<rparr>\<rparr>
           in if re_middlewares re \<noteq> [] then run_context (re_middlewares re) (Some (re_handler re)) ex1
              else re_handler re ex1))"

definition application_handle :: "'a application \<Rightarrow> 'a handler" where
  "application_handle app = run_context (app_global app) (Some (routing_engine (app_routes app)))"

section \<open>Blueprints\<close>

record 'a staged_route =
  sr_method :: string
  sr_pattern :: string
  sr_name :: string
  sr_handler :: "'a handler"
  sr_middlewares :: "'a middleware list"

datatype 'a blueprint =
  Blueprint (getPrefix: string) (getGroupMiddleware: "'a middleware list")
    (getRoutes: "'a staged_route list") (getChildren: "'a blueprint list")

definition new_blueprint :: "string \<Rightarrow> 'a blueprint" where
  "new_blueprint pre = Blueprint pre [] [] []"

fun bp_use :: "'a middleware \<Rightarrow> 'a blueprint \<Rightarrow> 'a blueprint" where
  "bp_use mw (Blueprint p ms rs cs) = Blueprint p (ms @ [mw]) rs cs"

fun bp_addRoute ::
  "string \<Rightarrow> string \<Rightarrow> 'a handler \<Rightarrow> 'a middleware list \<Rightarrow> string \<Rightarrow> 'a blueprint \<Rightarrow> 'a blueprint" where
  "bp_addRoute meth pat h mws name (Blueprint p ms rs cs) =
     Blueprint p ms (rs @ [\<lparr>sr_method = meth, sr_pattern = pat, sr_name = name, sr_handler = h,
       sr_middlewares = mws\<rparr>]) cs"

fun bp_registerBlueprint :: "'a blueprint \<Rightarrow> 'a blueprint \<Rightarrow> 'a blueprint" where
  "bp_registerBlueprint child (Blueprint p ms rs cs) = Blueprint p ms rs (cs @ [child])"

definition combine_paths :: "string \<Rightarrow> string \<Rightarrow> string" where
  "combine_paths base relative =
     (if base = [] then relative
      else if relative = [] then base
      else
        (let base_ends_slash = (last base = CHR ''/'');
             rel_starts_slash = (hd relative = CHR ''/'')
         in if base_ends_slash \<and> rel_starts_slash then base @ drop 1 relative
            else if \<not> base_ends_slash \<and> \<not> rel_starts_slash then base @ ''/'' @ relative
            else base @ relative))"

text \<open>A loop over a list whose body may fail, threading a state.\<close>

fun rfold :: "('b \<Rightarrow> 's \<Rightarrow> 's result) \<Rightarrow> 'b list \<Rightarrow> 's \<Rightarrow> 's result" where
  "rfold f [] s = Inr s"
| "rfold f (x # xs) s = rbind (f x s) (rfold f xs)"

lemma rfold_cong [fundef_cong]:
  assumes "xs = ys" "\<And>x s. x \<in> set ys \<Longrightarrow> f x s = g x s"
  shows "rfold f xs = rfold g ys"
proof -
  have "rfold f ys s = rfold g ys s" for s
    using assms(2)
  proof (induction ys arbitrary: s)
    case (Cons y ys)
    then show ?case by (cases "g y s") auto
  qed simp
  then show ?thesis using assms(1) by (simp add: fun_eq_iff)
qed

fun registerBlueprintRecursive ::
  "'a blueprint \<Rightarrow> string \<Rightarrow> 'a middleware list \<Rightarrow> 'a application \<Rightarrow> 'a application result" where
  "registerBlueprintRecursive (Blueprint bp_prefix bp_mws bp_routes bp_children) current_prefix accumulated app =
     (let prefix = combine_paths current_prefix bp_prefix;
          accumulated' = accumulated @ bp_mws
      in rbind
           (rfold (\<lambda>r. addRoute (sr_method r) (combine_paths prefix (sr_pattern r)) (sr_handler r)
              (accumulated' @ sr_middlewares r) []) bp_routes app)
           (rfold (\<lambda>child. registerBlueprintRecursive child current_prefix accumulated') bp_children))"

definition registerBlueprint :: "'a blueprint \<Rightarrow> 'a application \<Rightarrow> 'a application result" where
  "registerBlueprint bp app = registerBlueprintRecursive bp [] [] app"

section \<open>Lemmas\<close>

text \<open>The entries a blueprint stands for: every route of the tree with the middleware of all groups
  above it, outermost first, but with the prefix of its own group only.\<close>

fun flat_routes :: "'a middleware list \<Rightarrow> 'a blueprint \<Rightarrow> (string \<times> string \<times> 'a handler \<times> 'a middleware list) list" where
  "flat_routes acc (Blueprint p ms rs cs) =
     map (\<lambda>r. (sr_method r, combine_paths p (sr_pattern r), sr_handler r, acc @ ms @ sr_middlewares r)) rs @
     concat (map (flat_routes (acc @ ms)) cs)"

definition entry_key :: "'a route_entry \<Rightarrow> string \<times> string \<times> 'a handler \<times> 'a middleware list" where
  "entry_key e = (re_method e, re_pattern_str e, re_handler e, re_middlewares e)"

definition compiled :: "'a route_entry \<Rightarrow> bool" where
  "compiled e \<longleftrightarrow> Route (re_pattern_str e) = Inr (re_route e)"

definition routes_added :: "(string \<times> string \<times> 'a handler \<times> 'a middleware list) list \<Rightarrow> 'a application \<Rightarrow> 'a application \<Rightarrow> bool" where
  "routes_added ks app app' \<longleftrightarrow>
     (\<exists>es. app' = app\<lparr>app_routes := app_routes app @ es\<rparr> \<and> map entry_key es = ks \<and> list_all compiled es)"

lemma routes_added_Nil [simp]: "routes_added [] app app"
  by (auto simp: routes_added_def intro: exI [of _ "[]"])

lemma routes_added_trans:
  assumes "routes_added ks a b" "routes_added ls b c"
  shows "routes_added (ks @ ls) a c"
proof -
  obtain es fs where "b = a\<lparr>app_routes := app_routes a @ es\<rparr>" "map entry_key es = ks" "list_all compiled es"
    "c = b\<lparr>app_routes := app_routes b @ fs\<rparr>" "map entry_key fs = ls" "list_all compiled fs"
    using assms by (auto simp: routes_added_def)
  then show ?thesis unfolding routes_added_def by (intro exI [of _ "es @ fs"]) simp
qed

lemma addRoute_added:
  "addRoute m p h mws [] app = Inr app' \<Longrightarrow> routes_added [(m, p, h, mws)] app app'"
  by (auto simp: addRoute_def RouteEntry_def rmap_Inr_iff routes_added_def entry_key_def compiled_def Let_def)

lemma rfold_added:
  "rfold f xs app = Inr app' \<Longrightarrow>
   (\<And>x a a'. x \<in> set xs \<Longrightarrow> f x a = Inr a' \<Longrightarrow> routes_added (ks x) a a') \<Longrightarrow>
   routes_added (concat (map ks xs)) app app'"
proof (induction xs arbitrary: app)
  case (Cons x xs)
  then obtain a where a: "f x app = Inr a" "rfold f xs a = Inr app'" by (auto simp: rbind_Inr_iff)
  have "routes_added (ks x) app a" using a(1) by (intro Cons.prems(2)) simp_all
  moreover have "routes_added (concat (map ks xs)) a app'"
    using a(2) Cons.prems(2) by (intro Cons.IH) simp_all
  ultimately show ?case by (simp add: routes_added_trans)
qed simp

lemma combine_paths_Nil [simp]: "combine_paths [] r = r"
  by (simp add: combine_paths_def)

lemma register_flat:
  "registerBlueprintRecursive bp [] acc app = Inr app' \<Longrightarrow> routes_added (flat_routes acc bp) app app'"
proof (induction bp arbitrary: acc app app')
  case (Blueprint p ms rs cs)
  let ?add = "\<lambda>r. addRoute (sr_method r) (combine_paths p (sr_pattern r)) (sr_handler r)
    ((acc @ ms) @ sr_middlewares r) []"
  from Blueprint.prems obtain a where a: "rfold ?add rs app = Inr a"
    "rfold (\<lambda>child. registerBlueprintRecursive child [] (acc @ ms)) cs a = Inr app'"
    by (auto simp: Let_def rbind_Inr_iff)
  let ?key = "\<lambda>r. [(sr_method r, combine_paths p (sr_pattern r), sr_handler r, (acc @ ms) @ sr_middlewares r)]"
  have "routes_added (concat (map ?key rs)) app a"
    by (rule rfold_added [OF a(1)]) (rule addRoute_added)
  moreover have "routes_added (concat (map (flat_routes (acc @ ms)) cs)) a app'"
    by (rule rfold_added [OF a(2)]) (rule Blueprint.IH)
  ultimately have "routes_added (concat (map ?key rs) @ concat (map (flat_routes (acc @ ms)) cs)) app app'"
    by (rule routes_added_trans)
  moreover have "concat (map ?key rs) = map (hd \<circ> ?key) rs" by (induction rs) simp_all
  ultimately show ?case by (simp add: comp_def)
qed

text \<open>Routes registered for patterns of segments, with the methods they answer to.\<close>

type_synonym 'a route_spec = "string list \<times> seg list \<times> 'a handler \<times> 'a middleware list"

fun spec_ok :: "'a route_spec \<Rightarrow> bool" where
  "spec_ok (ms, segs, h, mws) \<longleftrightarrow>
     ms \<noteq> [] \<and> (\<forall>m \<in> set ms. m \<noteq> [] \<and> list_all method_char m) \<and> list_all seg_ok segs"

fun add_spec :: "'a route_spec \<Rightarrow> 'a application \<Rightarrow> 'a application result" where
  "add_spec (ms, segs, h, mws) = addRoute (join ms ''|'') (pattern_of segs) h mws []"

fun serves :: "request \<Rightarrow> string list \<Rightarrow> 'a route_spec \<Rightarrow> bool" where
  "serves req ps (ms, segs, h, mws) \<longleftrightarrow> rq_method req \<in> set ms \<and> bind_segs segs ps \<noteq> None"

fun serve :: "string list \<Rightarrow> 'a exchange \<Rightarrow> 'a route_spec \<Rightarrow> 'a outcome" where
  "serve ps ex (ms, segs, h, mws) =
     run_context mws (Some h)
       (ex\<lparr>ex_req := (ex_req ex)\<lparr>rq_route := fold (\<lambda>(k, v). dict_set k v) (the (bind_segs segs ps)) []\<rparr>\<rparr>)"

definition spec_entry :: "'a route_spec \<Rightarrow> 'a route_entry \<Rightarrow> bool" where
  "spec_entry s e \<longleftrightarrow> (case s of (ms, segs, h, mws) \<Rightarrow>
     RouteEntry (join ms ''|'') (pattern_of segs) h mws = Inr e)"

lemma spec_entry_exists: "spec_ok s \<Longrightarrow> \<exists>e. spec_entry s e"
  by (cases s) (auto simp: spec_entry_def RouteEntry_def Route_pattern)

lemma add_specs:
  "list_all spec_ok specs \<Longrightarrow>
   \<exists>es. rfold add_spec specs app = Inr (app\<lparr>app_routes := app_routes app @ es\<rparr>) \<and> list_all2 spec_entry specs es"
proof (induction specs arbitrary: app)
  case (Cons s specs)
  then obtain e where e: "spec_entry s e" using spec_entry_exists [of s] by (auto simp del: spec_ok.simps)
  let ?app = "app\<lparr>app_routes := app_routes app @ [e]\<rparr>"
  have "add_spec s app = Inr ?app"
    using e by (cases s) (auto simp: spec_entry_def addRoute_def)
  moreover obtain es where "rfold add_spec specs ?app = Inr (?app\<lparr>app_routes := app_routes ?app @ es\<rparr>)"
    "list_all2 spec_entry specs es"
    using Cons.IH [of ?app] Cons.prems unfolding list.pred_inject by (elim impE conjE exE) blast+
  ultimately show ?case using e by (intro exI [of _ "e # es"]) simp
qed simp

lemma entry_matches:
  assumes "spec_entry (ms, segs, h, mws) e" "spec_ok (ms, segs, h, mws)" "names_path path ps"
  shows "route_matches (re_route e) path [] =
      Inr (case bind_segs segs ps of None \<Rightarrow> (False, []) | Some b \<Rightarrow> (True, fold (\<lambda>(k, v). dict_set k v) b [])) \<and>
    (matchesMethod req (re_method e) \<longleftrightarrow> rq_method req \<in> set ms) \<and> re_handler e = h \<and> re_middlewares e = mws"
proof -
  have e: "Route (pattern_of segs) = Inr (re_route e)" "re_method e = join ms ''|''" "re_handler e = h"
    "re_middlewares e = mws"
    using assms(1) by (auto simp: spec_entry_def RouteEntry_def rmap_Inr_iff)
  have ok: "list_all seg_ok segs" using assms(2) by simp
  show ?thesis using match_named [OF ok assms(3) e(1)] e assms(2) by (simp add: matchesMethod_bars)
qed

lemma find_specs:
  assumes "list_all2 spec_entry specs es" "list_all spec_ok specs" "names_path (rq_path (ex_req ex)) ps"
  shows "routing_engine es ex =
    (case find (serves (ex_req ex) ps) specs of
       None \<Rightarrow> (Inr (), ex\<lparr>ex_res := stockReply NotFound\<rparr>)
     | Some s \<Rightarrow> serve ps ex s)"
  using assms(1,2)
proof (induction specs es rule: list_all2_induct)
  case Nil
  then show ?case by (simp add: routing_engine_def)
next
  case (Cons s specs e es)
  obtain ms segs h mws where s: "s = (ms, segs, h, mws)" by (cases s)
  have m: "route_matches (re_route e) (rq_path (ex_req ex)) [] =
      Inr (case bind_segs segs ps of None \<Rightarrow> (False, []) | Some b \<Rightarrow> (True, fold (\<lambda>(k, v). dict_set k v) b []))"
    "matchesMethod (ex_req ex) (re_method e) \<longleftrightarrow> rq_method (ex_req ex) \<in> set ms" "re_handler e = h" "re_middlewares e = mws"
    using entry_matches [of ms segs h mws e "rq_path (ex_req ex)" ps "ex_req ex"] Cons.hyps(1) Cons.prems assms(3) by (auto simp: s)
  have none: "run_context [] (Some h) = h"
    by (rule ext) (simp add: run_context_def mw_next_code call_handler_def)
  show ?case
    using Cons.IH Cons.prems m
    by (cases "bind_segs segs ps") (auto simp: routing_engine_def s none Let_def)
qed

section \<open>Properties\<close>

text \<open>C2: Registering routes for segment patterns succeeds, and the application then dispatches a request for a
  path to the first registered route whose methods include the method of the request and whose
  pattern binds the segments of the path, with its own middleware around the handler and the bound
  parameters as route attributes; when there is none it replies 404.  Global middleware wraps all
  of it.\<close>

theorem application_dispatch:
  assumes "list_all spec_ok specs"
  shows "\<exists>app. rfold add_spec specs (empty_application\<lparr>app_global := map (\<lambda>m ex. onion_prog (m ex)) globals\<rparr>) = Inr app \<and>
    (\<forall>ex ps. names_path (rq_path (ex_req ex)) ps \<longrightarrow>
      routing_engine (app_routes app) ex =
        (case find (serves (ex_req ex) ps) specs of
           None \<Rightarrow> (Inr (), ex\<lparr>ex_res := stockReply NotFound\<rparr>)
         | Some s \<Rightarrow> serve ps ex s)) \<and>
    application_handle app = wrap globals (Some (routing_engine (app_routes app)))"
proof -
  let ?app = "empty_application\<lparr>app_global := map (\<lambda>m ex. onion_prog (m ex)) globals\<rparr>"
  obtain es where es: "rfold add_spec specs ?app = Inr (?app\<lparr>app_routes := app_routes ?app @ es\<rparr>)"
    "list_all2 spec_entry specs es"
    using add_specs [OF assms] by blast
  have "application_handle (?app\<lparr>app_routes := es\<rparr>) = wrap globals (Some (routing_engine es))"
    by (rule ext) (simp add: application_handle_def run_context_def mw_next_onions [of 0])
  then show ?thesis
    using es find_specs [OF es(2) assms] by (simp add: empty_application_def)
qed

text \<open>The routes of the witnesses: one page and its form, which record the name they are given.\<close>

definition named_reply :: "'a handler" where
  "named_reply ex = (Inr (), ex\<lparr>ex_res := write_response (getRouteAttribute (ex_req ex) ''id'' []) ''text/plain'' (ex_res ex)\<rparr>)"

theorem application_dispatch_witness:
  "\<exists>app. rfold add_spec [([''GET'', ''HEAD''], [SLit ''user'', SPar ''id''], named_reply, [])] empty_application = Inr app \<and>
    (\<forall>ex :: unit exchange. rq_path (ex_req ex) = ''/user/ann'' \<longrightarrow> rq_method (ex_req ex) = ''HEAD'' \<longrightarrow>
      rs_content (ex_res (snd (routing_engine (app_routes app) ex))) = ''ann'')"
proof -
  have "list_all spec_ok [([''GET'', ''HEAD''], [SLit ''user'', SPar ''id''], named_reply :: unit handler, [])]"
    by (simp add: name_char_def method_char_def char_class_defs)
  from application_dispatch [OF this, of "[]"] obtain app where
    app: "rfold add_spec [([''GET'', ''HEAD''], [SLit ''user'', SPar ''id''], named_reply :: unit handler, [])] empty_application = Inr app"
    "\<And>ex ps. names_path (rq_path (ex_req ex)) ps \<Longrightarrow> routing_engine (app_routes app) ex =
       (case find (serves (ex_req ex) ps) [([''GET'', ''HEAD''], [SLit ''user'', SPar ''id''], named_reply, [])] of
          None \<Rightarrow> (Inr (), ex\<lparr>ex_res := stockReply NotFound\<rparr>) | Some s \<Rightarrow> serve ps ex s)"
    by (auto simp: empty_application_def)
  show ?thesis
  proof (intro exI conjI allI impI)
    show "rfold add_spec [([''GET'', ''HEAD''], [SLit ''user'', SPar ''id''], named_reply, [])] empty_application = Inr app"
      by (rule app(1))
    fix ex :: "unit exchange"
    assume ex: "rq_path (ex_req ex) = ''/user/ann''" "rq_method (ex_req ex) = ''HEAD''"
    then have "names_path (rq_path (ex_req ex)) [''user'', ''ann'']" by (simp add: names_path_def path_of_def)
    from app(2) [OF this] ex show "rs_content (ex_res (snd (routing_engine (app_routes app) ex))) = ''ann''"
      by (simp add: run_context_def mw_next_code call_handler_def named_reply_def
          getRouteAttribute_def dict_get_def write_response_def setContentType_def setContentLength_def
          addHeader_def setStatus_def)
  qed
qed

text \<open>C31: Registering a blueprint adds exactly the routes of its tree, in order, each with the middleware of the
  groups above it; but the pattern of a route carries the prefix of its own group only: the
  prefixes of the groups around that group are dropped, and so are the names of the routes.\<close>

theorem blueprint_flattened:
  assumes "registerBlueprint bp app = Inr app'"
  shows "app_global app' = app_global app \<and> app_named app' = app_named app \<and>
    (\<exists>es. app_routes app' = app_routes app @ es \<and> map entry_key es = flat_routes [] bp \<and> list_all compiled es)"
  using register_flat [OF assms [unfolded registerBlueprint_def]] by (auto simp: routes_added_def)

theorem blueprint_flattened_witness:
  "\<exists>app' e. registerBlueprint
      (bp_registerBlueprint (bp_addRoute ''GET'' ''/list/'' (named_reply :: unit handler) [] ''users'' (new_blueprint ''/users''))
        (new_blueprint ''/api'')) empty_application = Inr app' \<and>
    app_routes app' = [e] \<and> re_pattern_str e = ''/users/list/'' \<and> app_named app' = []"
proof -
  let ?bp = "bp_registerBlueprint (bp_addRoute ''GET'' ''/list/'' (named_reply :: unit handler) [] ''users'' (new_blueprint ''/users''))
    (new_blueprint ''/api'')"
  have "\<exists>r. Route ''/users/list/'' = Inr r"
    using Route_pattern [of "[SLit ''users'', SLit ''list'']"]
    by (simp add: name_char_def char_class_defs pattern_of_def)
  then obtain app' where app': "registerBlueprint ?bp empty_application = Inr app'"
    by (auto simp: registerBlueprint_def new_blueprint_def combine_paths_def addRoute_def RouteEntry_def)
  from blueprint_flattened [OF this] obtain es where es: "app_routes app' = es" "app_named app' = []"
    "map entry_key es = [(''GET'', ''/users/list/'', named_reply, [])]"
    by (auto simp: empty_application_def new_blueprint_def combine_paths_def)
  then obtain e where "es = [e]" by (cases es) auto
  with es app' show ?thesis by (auto simp: entry_key_def)
qed

end
