(* ===== verification/Session.thy ===== *)
theory Session
  imports Middleware Crypto
begin

text \<open>
  \<^verbatim>\<open>src/session.cpp\<close>, \<^verbatim>\<open>include/wsrv/session.hpp\<close> and \<^verbatim>\<open>include/wsrv/session_manager.hpp\<close>: the session
  object, which reads the stored data when it is constructed and writes it back, with the cookie, when
  it goes out of scope; and the interface of the managers that store the data.  The interface is the
  record of a manager's operations; its contract is the locale \<^verbatim>\<open>session_store\<close>, in which the
  life of a session is proved once for every manager.
\<close>

section \<open>The manager\<close>

record manager_config =
  session_cookie_path :: string
  session_cookie_domain :: string
  session_cookie_expiration :: int
  session_id_max_lifetime :: int
  session_cookie_http_only :: bool
  session_cookie_secure :: bool

definition default_config :: manager_config where
  "default_config = \<lparr>session_cookie_path = ''/'', session_cookie_domain = [],
     session_cookie_expiration = 24 * 60 * 60, session_id_max_lifetime = 24 * 60 * 60,
     session_cookie_http_only = True, session_cookie_secure = True\<rparr>"

record 'a session_manager =
  sm_open :: "('a, bool) io"
  sm_close :: "('a, bool) io"
  sm_write :: "string \<Rightarrow> dict \<Rightarrow> ('a, bool) io"
  sm_read :: "string \<Rightarrow> dict \<Rightarrow> ('a, bool \<times> dict) io"
  sm_uniqueSID :: "('a, string) io"
  sm_isValidId :: "string \<Rightarrow> ('a, bool) io"
  sm_remove :: "string \<Rightarrow> ('a, bool) io"
  sm_config :: manager_config

section \<open>The session object\<close>

record session =
  ss_id :: string
  ss_data :: dict
  ss_started :: bool
  ss_set_cookie :: bool
  ss_key_name :: string
  ss_modified :: bool

definition empty_session :: session where
  "empty_session = \<lparr>ss_id = [], ss_data = [], ss_started = False, ss_set_cookie = False,
     ss_key_name = [], ss_modified = False\<rparr>"

definition session_add :: "string \<Rightarrow> string \<Rightarrow> session \<Rightarrow> session" where
  "session_add key val s = s\<lparr>ss_modified := True, ss_data := dict_emplace key val (ss_data s)\<rparr>"

definition session_get :: "session \<Rightarrow> string \<Rightarrow> string \<Rightarrow> string" where
  "session_get s key def = dict_get (ss_data s) key def"

definition session_contains :: "session \<Rightarrow> string \<Rightarrow> bool" where
  "session_contains s key \<longleftrightarrow> map_of (ss_data s) key \<noteq> None"

definition session_remove :: "string \<Rightarrow> session \<Rightarrow> session" where
  "session_remove key s = s\<lparr>ss_modified := True, ss_data := dict_erase key (ss_data s)\<rparr>"

definition session_clear :: "session \<Rightarrow> session" where
  "session_clear s = s\<lparr>ss_modified := True, ss_data := []\<rparr>"

definition session_setModified :: "bool \<Rightarrow> session \<Rightarrow> session" where
  "session_setModified m s = s\<lparr>ss_modified := m\<rparr>"

text \<open>The constructor.\<close>

definition new_session :: "'a session_manager \<Rightarrow> request \<Rightarrow> string \<Rightarrow> ('a, session) io" where
  "new_session mgr req suf =
     io_bind (sm_open mgr) (\<lambda>opened.
       if \<not> opened then io_return empty_session
       else
         (let key = ''WSX_SESSION_ID'' @ suf;
              sid = getCookie req key [];
              s = empty_session\<lparr>ss_key_name := key, ss_id := sid\<rparr>;
              fresh = io_bind (sm_uniqueSID mgr) (\<lambda>new_id.
                if new_id = [] then io_return (s\<lparr>ss_id := [], ss_started := False\<rparr>)
                else io_return (s\<lparr>ss_id := new_id, ss_set_cookie := True, ss_started := True\<rparr>))
          in if sid = [] then fresh
             else io_bind (sm_isValidId mgr sid) (\<lambda>valid.
               if \<not> valid then fresh
               else io_bind (sm_read mgr sid []) (\<lambda>(ok, data).
                 io_return (s\<lparr>ss_data := data, ss_started := True\<rparr>)))))"

text \<open>
  The destructor, which also writes the response.  It must not throw: an exception in it ends the
  program.
\<close>

definition in_destructor :: "('a, 'r) io \<Rightarrow> ('a, 'r) io" where
  "in_destructor m w = (case m w of (Inl e, w') \<Rightarrow> (Inl Aborted, w') | r \<Rightarrow> r)"

definition cookie_sent :: "manager_config \<Rightarrow> session \<Rightarrow> int \<Rightarrow> response \<Rightarrow> response" where
  "cookie_sent cfg s now res =
     setCookie (ss_key_name s) (ss_id s) (now + session_cookie_expiration cfg) (session_cookie_path cfg)
       (session_cookie_domain cfg) (session_cookie_secure cfg) (session_cookie_http_only cfg) ''Lax'' res"

definition end_session :: "'a session_manager \<Rightarrow> session \<Rightarrow> response \<Rightarrow> ('a, response) io" where
  "end_session mgr s res =
     (let cfg = sm_config mgr in
      if ss_started s then
        in_destructor (io_bind
          (if ss_data s = [] then
             (if \<not> ss_set_cookie s then
                io_bind io_now (\<lambda>now.
                  io_bind (sm_remove mgr (ss_id s)) (\<lambda>_.
                    io_return (deleteCookie now (ss_key_name s) (session_cookie_path cfg)
                      (session_cookie_domain cfg) (session_cookie_secure cfg) (session_cookie_http_only cfg) res)))
              else io_return res)
           else
             io_bind
               (if ss_set_cookie s then
                  io_bind io_now (\<lambda>now.
                    io_return (cookie_sent cfg s now res))
                else io_return res)
               (\<lambda>res1.
                  if ss_modified s then io_bind (sm_write mgr (ss_id s) (ss_data s)) (\<lambda>_. io_return res1)
                  else io_return res1))
          (\<lambda>res2. io_bind (sm_close mgr) (\<lambda>_. io_return res2)))
      else io_return res)"

section \<open>A session as a local variable\<close>

text \<open>
  Leaving the scope runs the destructor, also when an exception leaves it; undefined behaviour and an
  aborted program run nothing.
\<close>

definition unwinds :: "fault \<Rightarrow> bool" where
  "unwinds e \<longleftrightarrow> e \<noteq> Undefined \<and> e \<noteq> Aborted"

definition leave_session :: "'a session_manager \<Rightarrow> session \<Rightarrow> 'a outcome \<Rightarrow> 'a outcome" where
  "leave_session mgr s out =
     (case out of (r, ex) \<Rightarrow>
        if (case r of Inl e \<Rightarrow> unwinds e | Inr _ \<Rightarrow> True)
        then (case end_session mgr s (ex_res ex) (ex_world ex) of
                (Inl e, w) \<Rightarrow> (Inl e, ex\<lparr>ex_world := w\<rparr>)
              | (Inr res, w) \<Rightarrow> (r, ex\<lparr>ex_res := res, ex_world := w\<rparr>))
        else out)"

definition with_session ::
  "'a session_manager \<Rightarrow> (session \<Rightarrow> 'a exchange \<Rightarrow> session \<times> 'a onion) \<Rightarrow> 'a exchange \<Rightarrow> 'a onion" where
  "with_session mgr body ex =
     (case new_session mgr (ex_req ex) [] (ex_world ex) of
        (Inl e, w) \<Rightarrow> Stop (Inl e, ex\<lparr>ex_world := w\<rparr>)
      | (Inr s, w) \<Rightarrow>
          (case body s (ex\<lparr>ex_world := w\<rparr>) of
             (s', Stop out) \<Rightarrow> Stop (leave_session mgr s' out)
           | (s', Pass ex' k) \<Rightarrow> Pass ex' (\<lambda>out. leave_session mgr s' (k out))))"

section \<open>The contract of a manager\<close>

text \<open>
  \<^verbatim>\<open>stored w\<close> is what the manager holds in a world: the data of each session id with the time
  it expires.  Besides writing and removing, a manager may drop sessions that have expired.
  \<^verbatim>\<open>healthy\<close> says that its storage works; \<^verbatim>\<open>storable\<close> that the data fit its format.
\<close>

type_synonym sessions = "string \<Rightarrow> (dict \<times> int) option"

definition keeps :: "sessions \<Rightarrow> int \<Rightarrow> sessions \<Rightarrow> bool" where
  "keeps old now new \<longleftrightarrow>
     (\<forall>sid. new sid = old sid \<or> (new sid = None \<and> (\<exists>d t. old sid = Some (d, t) \<and> t < now)))"

lemma keeps_refl [simp]: "keeps m now m"
  by (simp add: keeps_def)

lemma keeps_live: "keeps m now m' \<Longrightarrow> m sid = Some (d, t) \<Longrightarrow> now \<le> t \<Longrightarrow> m' sid = Some (d, t)"
  unfolding keeps_def by (metis Pair_inject linorder_not_le option.inject)

locale session_store =
  fixes mgr :: "'a session_manager"
    and stored :: "'a world \<Rightarrow> sessions"
    and healthy :: "'a world \<Rightarrow> bool"
    and storable :: "dict \<Rightarrow> bool"
  assumes clock_free: "healthy (w\<lparr>w_clock := c\<rparr>) = healthy w" "stored (w\<lparr>w_clock := c\<rparr>) = stored w"
    and open_keeps: "healthy w \<Longrightarrow>
      \<exists>w' k. sm_open mgr w = (Inr True, w') \<and> healthy w' \<and> w_clock w' = sdrop k (w_clock w) \<and> k \<le> 1 \<and>
        keeps (stored w) (shd (w_clock w)) (stored w')"
    and close_keeps: "healthy w \<Longrightarrow>
      \<exists>w' b. sm_close mgr w = (Inr b, w') \<and> healthy w' \<and> w_clock w' = w_clock w \<and> stored w' = stored w"
    and valid_iff: "healthy w \<Longrightarrow>
      \<exists>w'. sm_isValidId mgr sid w =
          (Inr (case stored w sid of None \<Rightarrow> False | Some (d, t) \<Rightarrow> shd (w_clock w) < t), w') \<and>
        healthy w' \<and> w_clock w' = stl (w_clock w) \<and> stored w' = stored w"
    and read_stored: "healthy w \<Longrightarrow> stored w sid = Some (d, t) \<Longrightarrow>
      \<exists>w' k. sm_read mgr sid [] w = (Inr (True, d), w') \<and> healthy w' \<and> w_clock w' = sdrop k (w_clock w) \<and> k \<le> 1 \<and>
        keeps (stored w) (shd (w_clock w)) (stored w')"
    and write_stores: "healthy w \<Longrightarrow> storable d \<Longrightarrow>
      \<exists>w'. sm_write mgr sid d w = (Inr True, w') \<and> healthy w' \<and> w_clock w' = stl (w_clock w) \<and>
        stored w' = (stored w)(sid \<mapsto> (d, shd (w_clock w) + session_id_max_lifetime (sm_config mgr)))"
    and remove_removes: "healthy w \<Longrightarrow>
      \<exists>w'. sm_remove mgr sid w = (Inr True, w') \<and> healthy w' \<and> w_clock w' = w_clock w \<and>
        stored w' = (stored w)(sid := None)"
begin

text \<open>A request that carries the id of a session which is live at the next readings of the clock gets its data.\<close>

lemma reopens:
  assumes "healthy w" "getCookie req (''WSX_SESSION_ID'' @ suf) [] = sid" "sid \<noteq> []"
    "stored w sid = Some (d, t)" "\<forall>n < 3. w_clock w !! n < t"
  shows "\<exists>w'. new_session mgr req suf w =
      (Inr \<lparr>ss_id = sid, ss_data = d, ss_started = True, ss_set_cookie = False,
         ss_key_name = ''WSX_SESSION_ID'' @ suf, ss_modified = False\<rparr>, w') \<and>
    healthy w' \<and> stored w' sid = Some (d, t)"
proof -
  have time: "w_clock w !! 0 < t" "w_clock w !! 1 < t" "w_clock w !! 2 < t"
    using assms(5) [rule_format, of 0] assms(5) [rule_format, of 1] assms(5) [rule_format, of 2] by simp_all
  obtain w1 k where w1: "sm_open mgr w = (Inr True, w1)" "healthy w1" "w_clock w1 = sdrop k (w_clock w)" "k \<le> 1"
    "keeps (stored w) (shd (w_clock w)) (stored w1)"
    using open_keeps [OF assms(1)] by blast
  have s1: "stored w1 sid = Some (d, t)"
    using keeps_live [OF w1(5) assms(4)] time(1) by simp
  have live: "shd (w_clock w1) < t" "shd (stl (w_clock w1)) < t"
    using w1(3,4) time by (auto simp: le_Suc_eq numeral_2_eq_2)
  obtain w2 where w2: "sm_isValidId mgr sid w1 = (Inr True, w2)" "healthy w2" "w_clock w2 = stl (w_clock w1)"
    "stored w2 = stored w1"
    using valid_iff [OF w1(2), of sid] s1 live(1) by auto
  have s2: "stored w2 sid = Some (d, t)" using s1 w2(4) by simp
  obtain w3 where w3: "sm_read mgr sid [] w2 = (Inr (True, d), w3)" "healthy w3"
    "keeps (stored w2) (shd (w_clock w2)) (stored w3)"
    using read_stored [OF w2(2) s2] by blast
  have "stored w3 sid = Some (d, t)"
    using keeps_live [OF w3(3) s2] live(2) w2(3) by simp
  moreover have "new_session mgr req suf w =
      (Inr \<lparr>ss_id = sid, ss_data = d, ss_started = True, ss_set_cookie = False,
         ss_key_name = ''WSX_SESSION_ID'' @ suf, ss_modified = False\<rparr>, w3)"
    using assms(2,3) by (simp add: new_session_def io_bind_def w1(1) w2(1) w3(1) empty_session_def Let_def)
  ultimately show ?thesis using w3(2) by blast
qed

text \<open>Leaving the scope of a modified session with data stores the data for its lifetime, and tells the client
  the id when it is new.\<close>

lemma end_stores:
  assumes "healthy w" "ss_started s" "ss_data s \<noteq> []" "ss_modified s" "storable (ss_data s)"
  shows "\<exists>w'. end_session mgr s res w =
      (Inr (if ss_set_cookie s then cookie_sent (sm_config mgr) s (w_clock w !! 0) res else res), w') \<and> healthy w' \<and>
      stored w' = (stored w)(ss_id s \<mapsto>
        (ss_data s, w_clock w !! (if ss_set_cookie s then 1 else 0) + session_id_max_lifetime (sm_config mgr)))"
proof -
  define w0 where "w0 = (if ss_set_cookie s then w\<lparr>w_clock := stl (w_clock w)\<rparr> else w)"
  have w0: "healthy w0" "stored w0 = stored w" "shd (w_clock w0) = w_clock w !! (if ss_set_cookie s then 1 else 0)"
    using assms(1) by (simp_all add: w0_def clock_free)
  obtain w1 where w1: "sm_write mgr (ss_id s) (ss_data s) w0 = (Inr True, w1)" "healthy w1"
    "stored w1 = (stored w0)(ss_id s \<mapsto> (ss_data s, shd (w_clock w0) + session_id_max_lifetime (sm_config mgr)))"
    using write_stores [OF w0(1) assms(5)] by blast
  obtain w2 b where w2: "sm_close mgr w1 = (Inr b, w2)" "healthy w2" "stored w2 = stored w1"
    using close_keeps [OF w1(2)] by blast
  have "end_session mgr s res w =
      (Inr (if ss_set_cookie s then cookie_sent (sm_config mgr) s (w_clock w !! 0) res else res), w2)"
    using assms(2,3,4) w1(1) w2(1)
    by (cases "ss_set_cookie s")
      (simp_all add: end_session_def in_destructor_def io_bind_def io_now_def io_return_def w0_def cookie_sent_def Let_def)
  then show ?thesis using w1(3) w2(2,3) w0 by auto
qed

text \<open>Leaving the scope of an emptied session removes what was stored.\<close>

lemma end_removes:
  assumes "healthy w" "ss_started s" "ss_data s = []" "\<not> ss_set_cookie s"
  shows "\<exists>w' res'. end_session mgr s res w = (Inr res', w') \<and> healthy w' \<and>
      stored w' = (stored w)(ss_id s := None)"
proof -
  have "healthy (w\<lparr>w_clock := stl (w_clock w)\<rparr>)" using assms(1) by (simp add: clock_free)
  from remove_removes [OF this] obtain w1 where w1: "sm_remove mgr (ss_id s) (w\<lparr>w_clock := stl (w_clock w)\<rparr>) = (Inr True, w1)"
    "healthy w1" "stored w1 = (stored w)(ss_id s := None)"
    by (auto simp: clock_free)
  obtain w2 b where "sm_close mgr w1 = (Inr b, w2)" "healthy w2" "stored w2 = stored w1"
    using close_keeps [OF w1(2)] by blast
  then show ?thesis
    using assms(2-4) w1 by (simp add: end_session_def in_destructor_def io_bind_def io_now_def io_return_def Let_def)
qed

end

section \<open>Sessions with a valid id\<close>

lemma session_get_add: "dict_ok (ss_data s) \<Longrightarrow>
  session_get (session_add k v s) j d = (if j = k \<and> \<not> session_contains s k then v else session_get s j d)"
  by (auto simp: session_get_def session_add_def session_contains_def dict_get_def map_of_dict_emplace)

lemma session_get_remove: "dict_ok (ss_data s) \<Longrightarrow>
  session_get (session_remove k s) j d = (if j = k then d else session_get s j d)"
  by (simp add: session_get_def session_remove_def dict_get_def map_of_dict_erase)

end
