(* ===== verification/SqliteSession.thy ===== *)
theory SqliteSession
  imports Session Istream
begin

text \<open>
  \<^verbatim>\<open>src/sqlite3_session_manager.cpp\<close>: the storage, whose operations are one SQL statement each on the table
  \<^verbatim>\<open>sessions(sid, data, ts)\<close>, the binary format of the data, and the manager.  The table is
  keyed by the primary key; every statement consumes one outcome of the world, so that preparing,
  binding and stepping may fail.  Integers of the format are 32-bit words in little-endian order,
  which both branches of the platform test produce.
\<close>

section \<open>The storage\<close>

text \<open>One prepared statement: \<^verbatim>\<open>stmt\<close> is what it does to the table and what it yields.\<close>

definition io_sql :: "(session_table \<Rightarrow> 'r \<times> session_table) \<Rightarrow> string \<Rightarrow> ('a, 'r) io" where
  "io_sql stmt step_error w =
     (let w1 = w\<lparr>w_sql := stl (w_sql w)\<rparr>
      in case shd (w_sql w) of
           Sql_prepare_fails m \<Rightarrow> (Inl (Runtime_error (''Error executing sql command: '' @ m)), w1)
         | Sql_bind_fails m \<Rightarrow>
             (Inl (Runtime_error (''Error executing sql prepared statement bind command: '' @ m)), w1)
         | Sql_step_fails m \<Rightarrow> (Inl (Runtime_error (step_error @ '': '' @ m)), w1)
         | Sql_runs \<Rightarrow>
             (let (r, t) = stmt (w_sessions w1) in (Inr r, w1\<lparr>w_sessions := t\<rparr>)))"

text \<open>\<^verbatim>\<open>execute\<close>: one \<^verbatim>\<open>sqlite3_exec\<close>, here of the statements that set the database up.\<close>

definition storage_execute :: "string \<Rightarrow> ('a, unit) io" where
  "storage_execute cmd w =
     (let w1 = w\<lparr>w_sql := stl (w_sql w)\<rparr>
      in case shd (w_sql w) of
           Sql_runs \<Rightarrow> (Inr (), w1)
         | Sql_prepare_fails m \<Rightarrow> (Inl (Runtime_error (''Error executing sql command: '' @ m)), w1)
         | Sql_bind_fails m \<Rightarrow> (Inl (Runtime_error (''Error executing sql command: '' @ m)), w1)
         | Sql_step_fails m \<Rightarrow> (Inl (Runtime_error (''Error executing sql command: '' @ m)), w1))"

definition setup_statements :: "string list" where
  "setup_statements =
     [''PRAGMA auto_vacuum = 1'',
      ''PRAGMA journal_mode = WAL'',
      ''PRAGMA synchronous = NORMAL'',
      ''CREATE TABLE IF NOT EXISTS sessions ( sid TEXT PRIMARY KEY NOT NULL, data BLOB DEFAULT NULL, ts INTEGER NOT NULL );'',
      ''CREATE UNIQUE INDEX IF NOT EXISTS sessions_index ON sessions (sid);'']"

fun execute_all :: "string list \<Rightarrow> ('a, unit) io" where
  "execute_all [] = io_return ()"
| "execute_all (c # cs) = io_bind (storage_execute c) (\<lambda>_. execute_all cs)"

text \<open>\<^verbatim>\<open>open\<close>; the argument is the outcome of \<^verbatim>\<open>sqlite3_open_v2\<close>, an error message or none.\<close>

definition storage_open :: "string option \<Rightarrow> ('a, bool) io" where
  "storage_open failure =
     (case failure of
        Some m \<Rightarrow> io_throw (Runtime_error (''Can't open session storage database: '' @ m))
      | None \<Rightarrow>
          io_catch (io_bind (execute_all setup_statements) (\<lambda>_. io_return True)) (\<lambda>_. io_return False))"

text \<open>\<^verbatim>\<open>REPLACE INTO sessions (sid, data, ts) VALUES (?, ?, ?)\<close>; the time is read after the statement
  is prepared.\<close>

definition storage_write :: "string \<Rightarrow> string \<Rightarrow> int \<Rightarrow> ('a, unit) io" where
  "storage_write sid data session_expiration w =
     (case shd (w_sql w) of
        Sql_prepare_fails m \<Rightarrow> io_sql (\<lambda>t. ((), t)) [] w
      | _ \<Rightarrow>
          io_bind io_now (\<lambda>now.
            io_sql (\<lambda>t. ((), dict_set sid (data, now + session_expiration) t)) ''Error writing session data'') w)"

text \<open>\<^verbatim>\<open>DELETE FROM sessions WHERE sid = ?\<close>.\<close>

definition storage_remove :: "string \<Rightarrow> ('a, unit) io" where
  "storage_remove sid = io_sql (\<lambda>t. ((), dict_erase sid t)) ''Error writing session data''"

text \<open>\<^verbatim>\<open>SELECT data FROM sessions WHERE sid = ? LIMIT 1\<close>; no row is an error.\<close>

definition storage_read :: "string \<Rightarrow> ('a, string) io" where
  "storage_read sid =
     io_bind (io_sql (\<lambda>t. (map_of t sid, t)) ''Error reading session data'') (\<lambda>row.
       case row of
         None \<Rightarrow> io_throw (Runtime_error ''Error reading session data: no more rows available'')
       | Some (data, ts) \<Rightarrow> io_return data)"

text \<open>\<^verbatim>\<open>DELETE FROM sessions WHERE ts < ?\<close>.\<close>

definition storage_deleteSessions :: "int \<Rightarrow> ('a, unit) io" where
  "storage_deleteSessions t0 =
     io_sql (\<lambda>t. ((), filter (\<lambda>(sid, data, ts). \<not> ts < t0) t)) ''Error deleting session data''"

text \<open>\<^verbatim>\<open>SELECT sid FROM sessions WHERE sid = ? AND ts > ? LIMIT 1\<close>.\<close>

definition storage_contains :: "string \<Rightarrow> int \<Rightarrow> ('a, bool) io" where
  "storage_contains sid now =
     io_sql (\<lambda>t. (case map_of t sid of None \<Rightarrow> False | Some (data, ts) \<Rightarrow> now < ts, t))
       ''Error quering session data''"

section \<open>The format\<close>

definition write_uint32 :: "nat \<Rightarrow> string" where
  "write_uint32 n =
     (let w = (of_nat n :: 32 word)
      in map (\<lambda>k. char_of (unat (drop_bit (8 * k) w) mod 256)) [0, 1, 2, 3])"

text \<open>A short read leaves the integer indeterminate.\<close>

definition read_uint32 :: "istream \<Rightarrow> (nat \<times> istream) result" where
  "read_uint32 strm =
     (let (b, st) = is_read 4 strm
      in if length b < 4 then Inl Undefined
         else Inr (byte (b ! 0) + 256 * (byte (b ! 1) + 256 * (byte (b ! 2) + 256 * byte (b ! 3))), st))"

definition write_string :: "string \<Rightarrow> string" where
  "write_string str = write_uint32 (length str) @ str"

text \<open>The buffer is resized to the length read, so that a short read leaves zeros behind.\<close>

definition read_string :: "istream \<Rightarrow> (string \<times> istream) result" where
  "read_string strm =
     rbind (read_uint32 strm) (\<lambda>(len, st).
       let (b, st') = is_read len st in Inr (b @ replicate (len - length b) NUL, st'))"

definition serializeData :: "dict \<Rightarrow> string" where
  "serializeData data =
     write_uint32 (length data) @ concat (map (\<lambda>(k, v). write_string k @ write_string v) data)"

primrec read_pairs :: "nat \<Rightarrow> istream \<Rightarrow> dict \<Rightarrow> dict result" where
  "read_pairs 0 strm m = Inr m"
| "read_pairs (Suc n) strm m =
     rbind (read_string strm) (\<lambda>(key, st1).
       rbind (read_string st1) (\<lambda>(val, st2). read_pairs n st2 (dict_set key val m)))"

definition deserializeData :: "string \<Rightarrow> dict \<Rightarrow> dict result" where
  "deserializeData data m =
     rbind (read_uint32 (istream_of data)) (\<lambda>(len, st). read_pairs len st m)"

section \<open>The manager\<close>

text \<open>Garbage collection, once in a thousand calls.\<close>

definition session_gc_probability :: nat where
  "session_gc_probability = 1"

definition sqlite_gc :: "('a, unit) io" where
  "sqlite_gc =
     io_bind io_dice (\<lambda>p.
       if p \<le> session_gc_probability then io_bind io_now (\<lambda>now. storage_deleteSessions now)
       else io_return ())"

definition sqlite_contains :: "string \<Rightarrow> ('a, bool) io" where
  "sqlite_contains sid = io_bind io_now (\<lambda>now. storage_contains sid now)"

text \<open>At most four tries.\<close>

primrec uniqueSID_loop :: "crypto_lib \<Rightarrow> nat \<Rightarrow> ('a, string) io" where
  "uniqueSID_loop L 0 = io_return []"
| "uniqueSID_loop L (Suc n) =
     io_bind (generateSID L) (\<lambda>sid.
       if sid = [] then uniqueSID_loop L n
       else io_bind (sqlite_contains sid) (\<lambda>there.
         if \<not> there then io_return sid else uniqueSID_loop L n))"

definition sqlite_uniqueSID :: "crypto_lib \<Rightarrow> ('a, string) io" where
  "sqlite_uniqueSID L = uniqueSID_loop L 4"

text \<open>The wrappers turn the exceptions of the storage into \<^verbatim>\<open>false\<close>.\<close>

definition sqlite_writeSessionData :: "manager_config \<Rightarrow> string \<Rightarrow> string \<Rightarrow> ('a, bool) io" where
  "sqlite_writeSessionData cfg sid data =
     io_catch (io_bind (storage_write sid data (session_id_max_lifetime cfg)) (\<lambda>_. io_return True))
       (\<lambda>_. io_return False)"

definition sqlite_readSessionData :: "string \<Rightarrow> ('a, bool \<times> string) io" where
  "sqlite_readSessionData sid =
     io_catch (io_bind (storage_read sid) (\<lambda>data. io_return (True, data))) (\<lambda>_. io_return (False, []))"

definition sqlite_remove :: "string \<Rightarrow> ('a, bool) io" where
  "sqlite_remove sid =
     io_catch (io_bind (storage_remove sid) (\<lambda>_. io_return True)) (\<lambda>_. io_return False)"

definition sqlite_write :: "manager_config \<Rightarrow> string \<Rightarrow> dict \<Rightarrow> ('a, bool) io" where
  "sqlite_write cfg sid session_data = sqlite_writeSessionData cfg sid (serializeData session_data)"

definition sqlite_read :: "string \<Rightarrow> dict \<Rightarrow> ('a, bool \<times> dict) io" where
  "sqlite_read sid session_data =
     io_bind (sqlite_readSessionData sid) (\<lambda>(ok, data).
       if \<not> ok then io_return (False, session_data)
       else io_bind (io_lift (deserializeData data session_data)) (\<lambda>m.
         io_bind sqlite_gc (\<lambda>_. io_return (True, m))))"

definition sqlite_open :: "('a, bool) io" where
  "sqlite_open = io_bind sqlite_gc (\<lambda>_. io_return True)"

definition sqlite_close :: "('a, bool) io" where
  "sqlite_close = io_return True"

definition sqlite_manager :: "crypto_lib \<Rightarrow> manager_config \<Rightarrow> 'a session_manager" where
  "sqlite_manager L cfg =
     \<lparr>sm_open = sqlite_open, sm_close = sqlite_close, sm_write = sqlite_write cfg, sm_read = sqlite_read,
      sm_uniqueSID = sqlite_uniqueSID L, sm_isValidId = sqlite_contains, sm_remove = sqlite_remove,
      sm_config = cfg\<rparr>"

section \<open>The application is left alone\<close>

text \<open>Whatever SQLite answers, the manager touches neither the state of the application nor its log.\<close>

lemma io_sql_frame [intro!]: "moves same_app (io_sql stmt err) w"
  by (simp add: moves_def same_app_def io_sql_def Let_def split: sql_outcome.splits prod.splits)

lemma storage_frame [intro!]:
  "moves same_app (storage_write sid data t) w" "moves same_app (storage_read sid) w"
  "moves same_app (storage_remove sid) w" "moves same_app (storage_deleteSessions t) w"
  "moves same_app (storage_contains sid t) w"
proof -
  have "moves same_app (io_bind io_now (\<lambda>now. io_sql (\<lambda>tb. ((), dict_set sid (data, now + t) tb)) ''Error writing session data'')) w"
    by (intro app_frame.moves_bind moves_primitive io_sql_frame)
  then show "moves same_app (storage_write sid data t) w"
    using io_sql_frame [of "\<lambda>t. ((), t)" "[]" w]
    by (simp add: moves_def storage_write_def split: sql_outcome.splits)
  show "moves same_app (storage_read sid) w"
    unfolding storage_read_def by (intro app_frame.moves_bind io_sql_frame) (auto split: option.splits)
qed (auto simp: storage_remove_def storage_deleteSessions_def storage_contains_def)

lemma sqlite_gc_frame [intro!]: "moves same_app sqlite_gc w"
  unfolding sqlite_gc_def by (intro app_frame.moves_bind moves_primitive) auto

lemma sqlite_contains_frame [intro!]: "moves same_app (sqlite_contains sid) w"
  unfolding sqlite_contains_def by (intro app_frame.moves_bind moves_primitive storage_frame)

lemma generateSID_frame [intro!]: "moves same_app (generateSID L) w"
  unfolding generateSID_def by (intro app_frame.moves_bind moves_primitive app_frame.moves_lift)

lemma uniqueSID_frame [intro!]: "moves same_app (uniqueSID_loop L n) w"
  by (induction n arbitrary: w) auto

lemma sqlite_keeps_application:
  "moves same_app (sm_open (sqlite_manager L cfg)) w" "moves same_app (sm_close (sqlite_manager L cfg)) w"
  "moves same_app (sm_write (sqlite_manager L cfg) sid d) w" "moves same_app (sm_read (sqlite_manager L cfg) sid d) w"
  "moves same_app (sm_uniqueSID (sqlite_manager L cfg)) w" "moves same_app (sm_isValidId (sqlite_manager L cfg) sid) w"
  "moves same_app (sm_remove (sqlite_manager L cfg) sid) w"
proof -
  have "moves same_app (sqlite_read sid d) w"
    unfolding sqlite_read_def sqlite_readSessionData_def by (intro app_frame.moves_bind) auto
  then show "moves same_app (sm_read (sqlite_manager L cfg) sid d) w" by (simp add: sqlite_manager_def)
qed (auto simp: sqlite_manager_def sqlite_open_def sqlite_close_def sqlite_write_def sqlite_writeSessionData_def
  sqlite_remove_def sqlite_uniqueSID_def)

section \<open>Reading back what was written\<close>

lemma write_uint32_length [simp]: "length (write_uint32 n) = 4"
  by (simp add: write_uint32_def Let_def)

lemma read_write_uint32:
  assumes "n < 2 ^ 32"
  shows "read_uint32 (istream_of (write_uint32 n @ s)) = Inr (n, istream_of s)"
proof -
  have "byte (write_uint32 n ! 0) + 256 * (byte (write_uint32 n ! 1) +
      256 * (byte (write_uint32 n ! 2) + 256 * byte (write_uint32 n ! 3))) = n"
    using assms bytes_of_32 [of n] unfolding write_uint32_def Let_def be32_byte by simp
  then show ?thesis
    using is_read_good [of "write_uint32 n" s] by (simp add: read_uint32_def)
qed

lemma read_write_string:
  "length u < 2 ^ 32 \<Longrightarrow> read_string (istream_of (write_string u @ s)) = Inr (u, istream_of s)"
  by (simp add: read_string_def write_string_def read_write_uint32 is_read_good)

definition storable :: "dict \<Rightarrow> bool" where
  "storable m \<longleftrightarrow> dict_ok m \<and> length m < 2 ^ 32 \<and> (\<forall>(k, v) \<in> set m. length k < 2 ^ 32 \<and> length v < 2 ^ 32)"

lemma read_write_pairs:
  "\<forall>(k, v) \<in> set m. length k < 2 ^ 32 \<and> length v < 2 ^ 32 \<Longrightarrow>
   read_pairs (length m) (istream_of (concat (map (\<lambda>(k, v). write_string k @ write_string v) m))) acc =
     Inr (fold (\<lambda>(k, v). dict_set k v) m acc)"
  by (induction m arbitrary: acc) (auto simp: read_write_string)

lemma deserialize_serialize: "storable m \<Longrightarrow> deserializeData (serializeData m) [] = Inr m"
  by (simp add: deserializeData_def serializeData_def read_write_uint32 read_write_pairs fold_set_self
      storable_def)

section \<open>The contract\<close>

definition sqlite_stored :: "'a world \<Rightarrow> sessions" where
  "sqlite_stored w sid =
     (case map_of (w_sessions w) sid of
        None \<Rightarrow> None
      | Some (b, t) \<Rightarrow> (case deserializeData b [] of Inl e \<Rightarrow> None | Inr d \<Rightarrow> Some (d, t)))"

definition readable_rows :: "session_table \<Rightarrow> bool" where
  "readable_rows t \<longleftrightarrow> (\<forall>(sid, b, ts) \<in> set t. \<exists>d. deserializeData b [] = Inr d)"

definition sqlite_healthy :: "'a world \<Rightarrow> bool" where
  "sqlite_healthy w \<longleftrightarrow> w_sql w = sconst Sql_runs \<and> dict_ok (w_sessions w) \<and> readable_rows (w_sessions w)"

lemma io_sql_runs:
  "sqlite_healthy w \<Longrightarrow>
     io_sql stmt err w = (Inr (fst (stmt (w_sessions w))), w\<lparr>w_sessions := snd (stmt (w_sessions w))\<rparr>)"
  by (simp add: io_sql_def sqlite_healthy_def split_beta)

lemma healthy_clock [simp]: "sqlite_healthy (w\<lparr>w_clock := c\<rparr>) = sqlite_healthy w"
  "sqlite_healthy (w\<lparr>w_dice := ds\<rparr>) = sqlite_healthy w"
  by (simp_all add: sqlite_healthy_def)

lemma stored_clock [simp]: "sqlite_stored (w\<lparr>w_clock := c\<rparr>) = sqlite_stored w"
  "sqlite_stored (w\<lparr>w_dice := ds\<rparr>) = sqlite_stored w"
  by (simp_all add: sqlite_stored_def fun_eq_iff)

lemma set_dict_set: "set (dict_set k v m) \<subseteq> insert (k, v) (set m)"
  by (induction k v m rule: dict_set.induct) auto

lemma set_dict_erase: "set (dict_erase k m) \<subseteq> set m"
  by (induction k m rule: dict_erase.induct) auto

lemma dict_ok_filter: "dict_ok m \<Longrightarrow> dict_ok (filter P m)"
  unfolding dict_ok_def by (simp add: sorted_wrt_map sorted_wrt_filter)

lemma map_of_filter_ok:
  "dict_ok m \<Longrightarrow> map_of (filter P m) k = (case map_of m k of None \<Rightarrow> None | Some v \<Rightarrow> if P (k, v) then Some v else None)"
proof (induction m)
  case (Cons kv m)
  obtain a b where kv: "kv = (a, b)" by (cases kv)
  with Cons show ?case by (auto simp: dict_ok_Cons map_of_less_None split: option.splits)
qed simp

lemma stored_row:
  "sqlite_healthy w \<Longrightarrow> sqlite_stored w sid = None \<longleftrightarrow> map_of (w_sessions w) sid = None"
  by (fastforce simp: sqlite_stored_def sqlite_healthy_def readable_rows_def split: option.splits sum.splits
      dest: map_of_SomeD)

lemma write_keeps_healthy:
  assumes "sqlite_healthy w" "storable d"
  shows "sqlite_healthy (w\<lparr>w_sessions := dict_set sid (serializeData d, t) (w_sessions w)\<rparr>)"
  using assms deserialize_serialize [OF assms(2)]
    set_dict_set [of sid "(serializeData d, t)" "w_sessions w"]
  by (fastforce simp: sqlite_healthy_def readable_rows_def)

lemma subset_keeps_healthy:
  "sqlite_healthy w \<Longrightarrow> dict_ok t \<Longrightarrow> set t \<subseteq> set (w_sessions w) \<Longrightarrow> sqlite_healthy (w\<lparr>w_sessions := t\<rparr>)"
  by (fastforce simp: sqlite_healthy_def readable_rows_def)

text \<open>Garbage collection drops at most what has expired.\<close>

lemma gc_keeps:
  assumes "sqlite_healthy w"
  shows "\<exists>w' k. sqlite_gc w = (Inr (), w') \<and> sqlite_healthy w' \<and> w_clock w' = sdrop k (w_clock w) \<and> k \<le> 1 \<and>
    keeps (sqlite_stored w) (shd (w_clock w)) (sqlite_stored w')"
proof (cases "shd (w_dice w) \<le> session_gc_probability")
  case True
  let ?t = "filter (\<lambda>(sid, data, ts). \<not> ts < shd (w_clock w)) (w_sessions w)"
  let ?w = "w\<lparr>w_dice := stl (w_dice w), w_clock := stl (w_clock w), w_sessions := ?t\<rparr>"
  have ok: "dict_ok (w_sessions w)" using assms by (simp add: sqlite_healthy_def)
  have "sqlite_gc w = (Inr (), ?w)"
    using True assms by (simp add: sqlite_gc_def storage_deleteSessions_def io_sql_runs)
  moreover have "sqlite_healthy ?w"
    using assms ok by (intro subset_keeps_healthy) (simp_all add: dict_ok_filter)
  moreover have "keeps (sqlite_stored w) (shd (w_clock w)) (sqlite_stored ?w)"
    unfolding keeps_def
  proof
    fix sid
    show "sqlite_stored ?w sid = sqlite_stored w sid \<or>
      (sqlite_stored ?w sid = None \<and> (\<exists>d t. sqlite_stored w sid = Some (d, t) \<and> t < shd (w_clock w)))"
    proof (cases "map_of (w_sessions w) sid")
      case (Some r)
      obtain b t where r: "r = (b, t)" by (cases r)
      have "sqlite_stored w sid \<noteq> None" using stored_row [OF assms, of sid] Some by simp
      then obtain d where "sqlite_stored w sid = Some (d, t)"
        using Some by (auto simp: sqlite_stored_def r split: sum.splits)
      then show ?thesis using Some ok by (auto simp: sqlite_stored_def map_of_filter_ok r)
    qed (use ok in \<open>simp add: sqlite_stored_def map_of_filter_ok\<close>)
  qed
  ultimately show ?thesis by (intro exI [of _ ?w] exI [of _ 1]) simp
next
  case False
  then have "sqlite_gc w = (Inr (), w\<lparr>w_dice := stl (w_dice w)\<rparr>)" by (simp add: sqlite_gc_def)
  then show ?thesis using assms by (intro exI [of _ "w\<lparr>w_dice := stl (w_dice w)\<rparr>"] exI [of _ 0]) simp
qed

interpretation sqlite: session_store "sqlite_manager L cfg" sqlite_stored sqlite_healthy storable
  for L :: crypto_lib and cfg :: manager_config
proof
  fix w :: "'a world" and sid d t c
  show "sqlite_healthy (w\<lparr>w_clock := c\<rparr>) = sqlite_healthy w" "sqlite_stored (w\<lparr>w_clock := c\<rparr>) = sqlite_stored w"
    by simp_all
  assume h: "sqlite_healthy w"
  then have ok: "dict_ok (w_sessions w)" by (simp add: sqlite_healthy_def)
  obtain w1 k where g: "sqlite_gc w = (Inr (), w1)" "sqlite_healthy w1" "w_clock w1 = sdrop k (w_clock w)" "k \<le> 1"
    "keeps (sqlite_stored w) (shd (w_clock w)) (sqlite_stored w1)"
    using gc_keeps [OF h] by blast
  show "\<exists>w' k. sm_open (sqlite_manager L cfg) w = (Inr True, w') \<and> sqlite_healthy w' \<and>
      w_clock w' = sdrop k (w_clock w) \<and> k \<le> 1 \<and> keeps (sqlite_stored w) (shd (w_clock w)) (sqlite_stored w')"
    using g by (intro exI [of _ w1] exI [of _ k]) (simp add: sqlite_manager_def sqlite_open_def io_bind_def)
  show "\<exists>w' b. sm_close (sqlite_manager L cfg) w = (Inr b, w') \<and> sqlite_healthy w' \<and>
      w_clock w' = w_clock w \<and> sqlite_stored w' = sqlite_stored w"
    using h by (intro exI [of _ w] exI [of _ True]) (simp add: sqlite_manager_def sqlite_close_def)
  show "\<exists>w'. sm_isValidId (sqlite_manager L cfg) sid w =
        (Inr (case sqlite_stored w sid of None \<Rightarrow> False | Some (d, t) \<Rightarrow> shd (w_clock w) < t), w') \<and>
      sqlite_healthy w' \<and> w_clock w' = stl (w_clock w) \<and> sqlite_stored w' = sqlite_stored w"
    using h stored_row [OF h, of sid]
    by (auto simp: sqlite_manager_def sqlite_contains_def storage_contains_def io_sql_runs sqlite_stored_def
        split: option.splits sum.splits)
  show "\<exists>w'. sm_remove (sqlite_manager L cfg) sid w = (Inr True, w') \<and> sqlite_healthy w' \<and>
      w_clock w' = w_clock w \<and> sqlite_stored w' = (sqlite_stored w)(sid := None)"
    using h ok set_dict_erase [of sid "w_sessions w"]
    by (auto simp: sqlite_manager_def sqlite_remove_def storage_remove_def io_catch_def io_bind_def io_sql_runs
        sqlite_stored_def map_of_dict_erase fun_eq_iff intro: subset_keeps_healthy)
  show "\<exists>w'. sm_write (sqlite_manager L cfg) sid d w = (Inr True, w') \<and> sqlite_healthy w' \<and>
      w_clock w' = stl (w_clock w) \<and> sqlite_stored w' = (sqlite_stored w)(sid \<mapsto>
        (d, shd (w_clock w) + session_id_max_lifetime (sm_config (sqlite_manager L cfg))))"
    if "storable d"
  proof -
    let ?row = "(serializeData d, shd (w_clock w) + session_id_max_lifetime cfg)"
    let ?w = "w\<lparr>w_clock := stl (w_clock w), w_sessions := dict_set sid ?row (w_sessions w)\<rparr>"
    have "sm_write (sqlite_manager L cfg) sid d w = (Inr True, ?w)"
      using h by (simp add: sqlite_manager_def sqlite_write_def sqlite_writeSessionData_def storage_write_def
          io_catch_def io_sql_runs io_bind_def io_now_def sqlite_healthy_def [of w])
    moreover have "sqlite_healthy ?w"
      using write_keeps_healthy [of "w\<lparr>w_clock := stl (w_clock w)\<rparr>" d sid] h that by simp
    moreover have "sqlite_stored ?w = (sqlite_stored w)(sid \<mapsto> (d, snd ?row))"
      using deserialize_serialize [OF that] by (simp add: sqlite_stored_def map_of_dict_set fun_eq_iff)
    ultimately show ?thesis by (intro exI [of _ ?w]) (simp add: sqlite_manager_def)
  qed
  show "\<exists>w' k. sm_read (sqlite_manager L cfg) sid [] w = (Inr (True, d), w') \<and> sqlite_healthy w' \<and>
      w_clock w' = sdrop k (w_clock w) \<and> k \<le> 1 \<and> keeps (sqlite_stored w) (shd (w_clock w)) (sqlite_stored w')"
    if st: "sqlite_stored w sid = Some (d, t)"
  proof -
    obtain b where b: "map_of (w_sessions w) sid = Some (b, t)" "deserializeData b [] = Inr d"
      using st by (auto simp: sqlite_stored_def split: option.splits sum.splits)
    then have "sm_read (sqlite_manager L cfg) sid [] w = (Inr (True, d), w1)"
      using h g(1) by (simp add: sqlite_manager_def sqlite_read_def sqlite_readSessionData_def storage_read_def
          io_catch_def io_sql_runs io_bind_def io_return_def io_lift_def)
    then show ?thesis using g by blast
  qed
qed

section \<open>Properties\<close>

text \<open>C5: A session that was changed is stored when it ends, and a later request whose cookie carries its id
  gets exactly its data back as long as its lifetime has not passed; when it ends unchanged and empty,
  the stored data are removed.  (With a working database, for the SQLite manager.)\<close>

theorem session_persists:
  assumes "sqlite_healthy w" "ss_started s" "ss_data s \<noteq> []" "ss_modified s" "storable (ss_data s)" "ss_id s \<noteq> []"
    and now: "now = w_clock w !! (if ss_set_cookie s then 1 else 0)"
    and later: "\<forall>n < 3. c !! n < now + session_id_max_lifetime cfg"
    and cookie: "getCookie req (''WSX_SESSION_ID'' @ suf) [] = ss_id s"
  shows "\<exists>res' w1 s' w2. end_session (sqlite_manager L cfg) s res w = (Inr res', w1) \<and>
      new_session (sqlite_manager L cfg) req suf (w1\<lparr>w_clock := c\<rparr>) = (Inr s', w2) \<and>
      ss_data s' = ss_data s \<and> ss_id s' = ss_id s \<and> \<not> ss_set_cookie s' \<and>
      (\<exists>w3 res2. end_session (sqlite_manager L cfg) (session_clear s') res' w2 = (Inr res2, w3) \<and>
        sqlite_stored w3 (ss_id s) = None)"
proof -
  obtain res' w1 where w1: "end_session (sqlite_manager L cfg) s res w = (Inr res', w1)" "sqlite_healthy w1"
    "sqlite_stored w1 = (sqlite_stored w)(ss_id s \<mapsto> (ss_data s, now + session_id_max_lifetime cfg))"
    using sqlite.end_stores [OF assms(1-5), of L cfg res] now by (auto simp: sqlite_manager_def)
  let ?s = "\<lparr>ss_id = ss_id s, ss_data = ss_data s, ss_started = True, ss_set_cookie = False,
    ss_key_name = ''WSX_SESSION_ID'' @ suf, ss_modified = False\<rparr>"
  obtain w2 where w2: "new_session (sqlite_manager L cfg) req suf (w1\<lparr>w_clock := c\<rparr>) = (Inr ?s, w2)" "sqlite_healthy w2"
    using sqlite.reopens [of "w1\<lparr>w_clock := c\<rparr>" req suf "ss_id s" "ss_data s" "now + session_id_max_lifetime cfg" L cfg]
      w1 later cookie assms(6) by auto
  obtain w3 res2 where "end_session (sqlite_manager L cfg) (session_clear ?s) res' w2 = (Inr res2, w3)"
    "sqlite_stored w3 (ss_id s) = None"
    using sqlite.end_removes [OF w2(2), of "session_clear ?s" L cfg res'] by (auto simp: session_clear_def)
  then show ?thesis using w1(1) w2(1) by fastforce
qed

theorem session_persists_witness:
  "\<exists>res' w1 s' w2. end_session (sqlite_manager sample_crypto default_config)
      \<lparr>ss_id = ''abc'', ss_data = [(''user_id'', ''7'')], ss_started = True, ss_set_cookie = False,
        ss_key_name = ''WSX_SESSION_ID'', ss_modified = True\<rparr> empty_response sample_world = (Inr res', w1) \<and>
    new_session (sqlite_manager sample_crypto default_config)
      (empty_request\<lparr>rq_cookie := [(''WSX_SESSION_ID'', ''abc'')]\<rparr>) [] (w1\<lparr>w_clock := sconst 2000\<rparr>) = (Inr s', w2) \<and>
    ss_data s' = [(''user_id'', ''7'')]"
proof -
  have healthy: "sqlite_healthy sample_world" by (simp add: sqlite_healthy_def sample_world_def readable_rows_def)
  have clock: "w_clock sample_world !! 0 = 1000" "session_id_max_lifetime default_config = 86400"
    by (simp_all add: sample_world_def default_config_def)
  have later: "\<forall>n < 3. sconst (2000 :: int) !! n < 1000 + 86400"
    by (simp add: numeral_3_eq_3 less_Suc_eq)
  have cookie: "getCookie (empty_request\<lparr>rq_cookie := [(''WSX_SESSION_ID'', ''abc'')]\<rparr>) (''WSX_SESSION_ID'' @ []) [] = ''abc''"
    by (simp add: getCookie_def dict_get_def)
  let ?s = "\<lparr>ss_id = ''abc'', ss_data = [(''user_id'', ''7'')], ss_started = True, ss_set_cookie = False,
    ss_key_name = ''WSX_SESSION_ID'', ss_modified = True\<rparr>"
  have "storable (ss_data ?s)" by (simp add: storable_def dict_ok_def)
  from session_persists [OF healthy _ _ _ this, of 1000 "sconst 2000" default_config
      "empty_request\<lparr>rq_cookie := [(''WSX_SESSION_ID'', ''abc'')]\<rparr>" "[]" sample_crypto empty_response]
  obtain res' w1 s' w2 where "end_session (sqlite_manager sample_crypto default_config) ?s empty_response sample_world = (Inr res', w1)"
    "new_session (sqlite_manager sample_crypto default_config)
      (empty_request\<lparr>rq_cookie := [(''WSX_SESSION_ID'', ''abc'')]\<rparr>) [] (w1\<lparr>w_clock := sconst 2000\<rparr>) = (Inr s', w2)"
    "ss_data s' = ss_data ?s"
    unfolding clock(2) using clock(1) later cookie by auto
  then show ?thesis by auto
qed

end
