(* ===== verification/Csrf.thy ===== *)
theory Csrf
  imports Session
begin

text \<open>
  \<^verbatim>\<open>src/middleware/csrf.cpp\<close>: the middleware that hands a token to pages and demands it back from every
  request that is not read-only.
\<close>

unbundle bit_operations_syntax

section \<open>Comparing tokens\<close>

definition byte_word :: "char \<Rightarrow> 8 word" where
  "byte_word c = of_nat (byte c)"

definition constant_time_compare :: "string \<Rightarrow> string \<Rightarrow> bool" where
  "constant_time_compare a b =
     (if length a \<noteq> length b then False
      else foldl (\<lambda>result i. result OR (byte_word (a ! i) XOR byte_word (b ! i))) 0 [0..<length a] = 0)"

lemma byte_word_inject: "byte_word c = byte_word d \<longleftrightarrow> c = d"
proof
  assume "byte_word c = byte_word d"
  then have "unat (byte_word c) = unat (byte_word d)" by simp
  then show "c = d" by (simp add: byte_word_def unat_of_nat)
qed simp

lemma xor_zero: "x XOR y = 0 \<longleftrightarrow> x = y" for x y :: "'a::len word"
  by (metis xor.assoc xor.right_neutral xor_self_eq)

lemma or_fold_zero: "foldl (\<lambda>r i. r OR f i) z is = 0 \<longleftrightarrow> z = 0 \<and> (\<forall>i \<in> set is. f i = 0)"
  for f :: "'b \<Rightarrow> 'a::len word"
  by (induction "is" arbitrary: z) (auto simp: or_eq_0_iff)

lemma constant_time_compare_eq: "constant_time_compare a b \<longleftrightarrow> a = b"
  by (auto simp: constant_time_compare_def or_fold_zero xor_zero byte_word_inject intro: nth_equalityI)

section \<open>The middleware\<close>

definition generate_secure_token :: "crypto_lib \<Rightarrow> ('a, string) io" where
  "generate_secure_token L =
     io_bind (randomBytes 32) (\<lambda>bytes. io_lift (rmap token_chars (encodeBase64 L bytes)))"

definition set_csrf_data :: "string \<Rightarrow> request \<Rightarrow> request" where
  "set_csrf_data token req = req\<lparr>rq_mw := mw_set_csrf (Some token) (rq_mw req)\<rparr>"

definition ensure_session_has_token :: "crypto_lib \<Rightarrow> request \<Rightarrow> session \<Rightarrow> ('a, request \<times> session) io" where
  "ensure_session_has_token L req s =
     (let session_token = session_get s ''csrf_token'' []
      in if session_token = [] then
           io_bind (generate_secure_token L) (\<lambda>token.
             io_return (set_csrf_data token req, session_add ''csrf_token'' token s))
         else io_return (set_csrf_data session_token req, s))"

definition csrf_body :: "crypto_lib \<Rightarrow> session \<Rightarrow> 'a exchange \<Rightarrow> session \<times> 'a onion" where
  "csrf_body L s ex =
     (let req = ex_req ex; method = rq_method req
      in if method = ''GET'' \<or> method = ''HEAD'' \<or> method = ''OPTIONS'' then
           (case ensure_session_has_token L req s (ex_world ex) of
              (Inl e, w) \<Rightarrow> (s, Stop (Inl e, ex\<lparr>ex_world := w\<rparr>))
            | (Inr (req', s'), w) \<Rightarrow> (s', Pass (ex\<lparr>ex_req := req', ex_world := w\<rparr>) id))
         else
           (let post_token = getPostAttribute req ''csrf_token'' [];
                submitted_token = (if post_token = [] then getServerAttribute req ''X-CSRF-Token'' [] else post_token);
                session_token = session_get s ''csrf_token'' []
            in if submitted_token = [] \<or> session_token = [] \<or> \<not> constant_time_compare submitted_token session_token
               then (s, Stop (Inr (), ex\<lparr>ex_res := stockReply Forbidden\<rparr>))
               else (s, Pass (ex\<lparr>ex_req := set_csrf_data session_token req\<rparr>) id)))"

definition csrf_handle :: "crypto_lib \<Rightarrow> 'a session_manager \<Rightarrow> 'a exchange \<Rightarrow> 'a onion" where
  "csrf_handle L mgr = with_session mgr (csrf_body L)"

section \<open>Properties\<close>

definition submitted_csrf :: "request \<Rightarrow> string" where
  "submitted_csrf req =
     (case map_of (rq_post req) ''csrf_token'' of
        Some (c # t) \<Rightarrow> c # t
      | _ \<Rightarrow> dict_get (rq_server req) ''X-CSRF-Token'' [])"

lemma submitted_csrf_eq:
  "submitted_csrf req =
     (let t = getPostAttribute req ''csrf_token'' []
      in if t = [] then getServerAttribute req ''X-CSRF-Token'' [] else t)"
  by (auto simp: submitted_csrf_def getPostAttribute_def getServerAttribute_def dict_get_def
      split: option.splits list.splits)

text \<open>C4: A request that is not read-only reaches the middleware and the handler behind the CSRF middleware exactly when the token it
  submits (in the form or else in the header) is not empty and equals the token of its session, byte by byte;
  otherwise nothing behind it runs and the reply is 403, whatever the pipeline is.  The session ends in
  both cases.\<close>

theorem csrf_guards:
  assumes "new_session mgr (ex_req ex) [] (ex_world ex) = (Inr s, w)"
    and unsafe: "rq_method (ex_req ex) \<notin> {''GET'', ''HEAD'', ''OPTIONS''}"
  shows "run_context (map (\<lambda>m ex. onion_prog (m ex)) (csrf_handle L mgr # ms)) h ex =
    leave_session mgr s
      (if submitted_csrf (ex_req ex) \<noteq> [] \<and> submitted_csrf (ex_req ex) = session_get s ''csrf_token'' []
       then wrap ms h (ex\<lparr>ex_world := w, ex_req := set_csrf_data (submitted_csrf (ex_req ex)) (ex_req ex)\<rparr>)
       else (Inr (), ex\<lparr>ex_world := w, ex_res := stockReply Forbidden\<rparr>))"
proof -
  have "csrf_handle L mgr ex =
      (if submitted_csrf (ex_req ex) \<noteq> [] \<and> submitted_csrf (ex_req ex) = session_get s ''csrf_token'' []
       then Pass (ex\<lparr>ex_world := w, ex_req := set_csrf_data (submitted_csrf (ex_req ex)) (ex_req ex)\<rparr>)
         (leave_session mgr s)
       else Stop (leave_session mgr s (Inr (), ex\<lparr>ex_world := w, ex_res := stockReply Forbidden\<rparr>)))"
    using unsafe
    by (auto simp: csrf_handle_def with_session_def assms(1) csrf_body_def constant_time_compare_eq submitted_csrf_eq Let_def)
  moreover have "run_context (map (\<lambda>m ex. onion_prog (m ex)) (csrf_handle L mgr # ms)) h ex =
      wrap (csrf_handle L mgr # ms) h ex"
    unfolding run_context_def by (subst mw_next_onions) simp_all
  ultimately show ?thesis by simp
qed

text \<open>A manager without sessions, for the witnesses: it opens, and never knows an id.\<close>

definition empty_manager :: "'a session_manager" where
  "empty_manager = \<lparr>sm_open = io_return False, sm_close = io_return True, sm_write = \<lambda>sid d. io_return True,
     sm_read = \<lambda>sid d. io_return (False, d), sm_uniqueSID = io_return [], sm_isValidId = \<lambda>sid. io_return False,
     sm_remove = \<lambda>sid. io_return True, sm_config = default_config\<rparr>"

theorem csrf_guards_witness:
  "run_context (map (\<lambda>m ex. onion_prog (m ex)) [csrf_handle sample_crypto empty_manager]) None
     (sample_exchange ()\<lparr>ex_req := empty_request\<lparr>rq_method := ''POST'', rq_post := [(''csrf_token'', ''x'')]\<rparr>\<rparr>) =
   (Inr (), sample_exchange ()\<lparr>ex_req := empty_request\<lparr>rq_method := ''POST'', rq_post := [(''csrf_token'', ''x'')]\<rparr>,
      ex_res := stockReply Forbidden\<rparr>)"
  using csrf_guards [of empty_manager "sample_exchange ()\<lparr>ex_req := empty_request\<lparr>rq_method := ''POST'',
      rq_post := [(''csrf_token'', ''x'')]\<rparr>\<rparr>" empty_session "ex_world (sample_exchange ())" sample_crypto "[]" None]
  by (simp add: new_session_def empty_manager_def io_bind_def submitted_csrf_def session_get_def dict_get_def
      empty_session_def leave_session_def end_session_def Let_def)

text \<open>A read-only request always passes, with a token in its data that is the one the session holds when it
  ends: the token it had, or a fresh one of letters, digits and dashes that makes the session dirty.\<close>

lemma csrf_issues_token:
  assumes "rq_method (ex_req ex) \<in> {''GET'', ''HEAD'', ''OPTIONS''}" "dict_ok (ss_data s)"
    "map_of (ss_data s) ''csrf_token'' \<noteq> Some []" "\<And>b. cl_base64_encode L b \<noteq> []"
  shows "\<exists>token s' w'. csrf_body L s ex =
      (s', Pass (ex\<lparr>ex_req := set_csrf_data token (ex_req ex), ex_world := w'\<rparr>) id) \<and>
    map_of (ss_data s') ''csrf_token'' = Some token \<and>
    (case map_of (ss_data s) ''csrf_token'' of
       Some t \<Rightarrow> token = t \<and> s' = s
     | None \<Rightarrow> ss_modified s' \<and> token = token_chars (butlast (cl_base64_encode L (stake 32 (w_random (ex_world ex))))) \<and>
         (\<forall>c \<in> set token. isalnum c \<or> c = CHR ''-''))"
proof (cases "map_of (ss_data s) ''csrf_token''")
  case None
  let ?token = "token_chars (butlast (cl_base64_encode L (stake 32 (w_random (ex_world ex)))))"
  have "csrf_body L s ex = (session_add ''csrf_token'' ?token s,
      Pass (ex\<lparr>ex_req := set_csrf_data ?token (ex_req ex),
        ex_world := (ex_world ex)\<lparr>w_random := sdrop 32 (w_random (ex_world ex))\<rparr>\<rparr>) id)"
    using assms(1,4) None
    by (auto simp: csrf_body_def ensure_session_has_token_def session_get_def dict_get_def generate_secure_token_def
        encodeBase64_def Let_def io_bind_def randomBytes_def)
  moreover have "map_of (ss_data (session_add ''csrf_token'' ?token s)) ''csrf_token'' = Some ?token"
    using None assms(2) by (simp add: session_add_def map_of_dict_emplace)
  moreover have "ss_modified (session_add ''csrf_token'' ?token s)" by (simp add: session_add_def)
  moreover have "\<forall>c \<in> set ?token. isalnum c \<or> c = CHR ''-''" using token_chars_clean by blast
  ultimately show ?thesis
    unfolding None option.case by (intro exI conjI) (assumption | rule refl)+
next
  case (Some t)
  with assms(1,3) have "csrf_body L s ex = (s, Pass (ex\<lparr>ex_req := set_csrf_data t (ex_req ex), ex_world := ex_world ex\<rparr>) id)"
    by (auto simp: csrf_body_def ensure_session_has_token_def session_get_def dict_get_def Let_def)
  then show ?thesis unfolding Some option.case by (intro exI conjI) (assumption | rule refl Some)+
qed

end
