(* ===== verification/Auth.thy ===== *)
theory Auth
  imports Session
begin

text \<open>
  \<^verbatim>\<open>src/auth/authenticator.cpp\<close> and \<^verbatim>\<open>src/auth/jwt_service.cpp\<close>: the middleware that requires or looks up
  the user of a session, the login and logout controllers, and their counterparts with JSON web tokens.
  The application's authentication provider and the JWT library are parameters; a user is known by
  the id \<^verbatim>\<open>getUniqueId()\<close> returns.
\<close>

record 'a auth_provider =
  ap_authenticate :: "string \<Rightarrow> string \<Rightarrow> ('a, string option) io"
  ap_loadUser :: "string \<Rightarrow> ('a, string option) io"

definition USER_KEY :: string where
  "USER_KEY = ''user_id''"

definition set_user :: "string option \<Rightarrow> request \<Rightarrow> request" where
  "set_user user req = req\<lparr>rq_mw := mw_set_user user (rq_mw req)\<rparr>"

section \<open>Sessions\<close>

text \<open>Loading the user of a session into the request, and going on.\<close>

definition load_and_pass :: "'a auth_provider \<Rightarrow> string \<Rightarrow> session \<Rightarrow> 'a exchange \<Rightarrow> session \<times> 'a onion" where
  "load_and_pass P user_id s ex =
     (case ap_loadUser P user_id (ex_world ex) of
        (Inl e, w) \<Rightarrow> (s, Stop (Inl e, ex\<lparr>ex_world := w\<rparr>))
      | (Inr user, w) \<Rightarrow> (s, Pass (ex\<lparr>ex_req := set_user user (ex_req ex), ex_world := w\<rparr>) id))"

definition SessionRequireAuth :: "'a session_manager \<Rightarrow> 'a auth_provider \<Rightarrow> 'a exchange \<Rightarrow> 'a onion" where
  "SessionRequireAuth mgr P =
     with_session mgr (\<lambda>s ex.
       let user_id = session_get s USER_KEY []
       in if user_id = [] then (s, Stop (Inr (), ex\<lparr>ex_res := stockReply Forbidden\<rparr>))
          else load_and_pass P user_id s ex)"

definition SessionCheckAuth :: "'a session_manager \<Rightarrow> 'a auth_provider \<Rightarrow> 'a exchange \<Rightarrow> 'a onion" where
  "SessionCheckAuth mgr P =
     with_session mgr (\<lambda>s ex.
       let user_id = session_get s USER_KEY []
       in if user_id \<noteq> [] then load_and_pass P user_id s ex else (s, Pass ex id))"

definition login_body :: "'a auth_provider \<Rightarrow> session \<Rightarrow> 'a exchange \<Rightarrow> session \<times> 'a onion" where
  "login_body P s ex =
     (if rq_method (ex_req ex) = ''POST'' then
        (let username = getPostAttribute (ex_req ex) ''username'' [];
             password = getPostAttribute (ex_req ex) ''password'' []
         in case ap_authenticate P username password (ex_world ex) of
              (Inl e, w) \<Rightarrow> (s, Stop (Inl e, ex\<lparr>ex_world := w\<rparr>))
            | (Inr None, w) \<Rightarrow> (s, Pass (ex\<lparr>ex_world := w\<rparr>) id)
            | (Inr (Some user), w) \<Rightarrow>
                (session_add USER_KEY user s,
                 Pass (ex\<lparr>ex_req := set_user (Some user) (ex_req ex), ex_world := w\<rparr>) id))
      else
        (let user_id = session_get s USER_KEY []
         in if user_id \<noteq> [] then load_and_pass P user_id s ex else (s, Pass ex id)))"

definition SessionLoginController :: "'a session_manager \<Rightarrow> 'a auth_provider \<Rightarrow> 'a exchange \<Rightarrow> 'a onion" where
  "SessionLoginController mgr P = with_session mgr (login_body P)"

definition logout_body :: "session \<Rightarrow> 'a exchange \<Rightarrow> session \<times> 'a onion" where
  "logout_body s ex =
     (let user_id = session_get s USER_KEY [];
          s' = (if user_id \<noteq> [] then session_remove USER_KEY s else s);
          req = ex_req ex
      in (s', Pass (ex\<lparr>ex_req := req\<lparr>rq_mw := mw_remove_user (rq_mw req)\<rparr>\<rparr>) id))"

definition SessionLogoutController :: "'a session_manager \<Rightarrow> 'a exchange \<Rightarrow> 'a onion" where
  "SessionLogoutController mgr = with_session mgr logout_body"

section \<open>Tokens\<close>

text \<open>
  The JWT library: a signed token for issuer, time of issue, expiry and subject with a secret; and decoding,
  verifying against secret, issuer and the time, and taking the subject of a token, which throws when any
  of it fails.
\<close>

record jwt_lib =
  jl_sign :: "string \<Rightarrow> int \<Rightarrow> int \<Rightarrow> string \<Rightarrow> string \<Rightarrow> string"
  jl_verify :: "string \<Rightarrow> string \<Rightarrow> int \<Rightarrow> string \<Rightarrow> string option"

record jwt_service =
  jwt_secret :: string
  jwt_issuer :: string

definition JWTService :: "string \<Rightarrow> jwt_service" where
  "JWTService secret = \<lparr>jwt_secret = secret, jwt_issuer = ''wsrv''\<rparr>"

definition generateToken :: "jwt_lib \<Rightarrow> jwt_service \<Rightarrow> string \<Rightarrow> int \<Rightarrow> ('a, string) io" where
  "generateToken J jwt user expiry_seconds =
     io_bind io_now (\<lambda>now.
       io_return (jl_sign J (jwt_issuer jwt) now (now + expiry_seconds) user (jwt_secret jwt)))"

definition verifyToken :: "jwt_lib \<Rightarrow> jwt_service \<Rightarrow> string \<Rightarrow> ('a, string) io" where
  "verifyToken J jwt token =
     io_bind io_now (\<lambda>now.
       io_return (case jl_verify J (jwt_secret jwt) (jwt_issuer jwt) now token of None \<Rightarrow> [] | Some subj \<Rightarrow> subj))"

text \<open>Both controllers verify a bearer token and drop the result.\<close>

definition verify_bearer :: "jwt_lib \<Rightarrow> jwt_service \<Rightarrow> 'a exchange \<Rightarrow> 'a onion" where
  "verify_bearer J jwt ex =
     (let auth_header = getServerAttribute (ex_req ex) ''Authorization'' []
      in if prefix ''Bearer '' auth_header then
           (case verifyToken J jwt (drop 7 auth_header) (ex_world ex) of
              (Inl e, w) \<Rightarrow> Stop (Inl e, ex\<lparr>ex_world := w\<rparr>)
            | (Inr user_id, w) \<Rightarrow> Pass (ex\<lparr>ex_world := w\<rparr>) id)
         else Pass ex id)"

definition JWTAuthController :: "jwt_lib \<Rightarrow> jwt_service \<Rightarrow> 'a exchange \<Rightarrow> 'a onion" where
  "JWTAuthController J jwt ex = verify_bearer J jwt ex"

definition JWTLoginController :: "jwt_lib \<Rightarrow> jwt_service \<Rightarrow> 'a auth_provider \<Rightarrow> 'a exchange \<Rightarrow> 'a onion" where
  "JWTLoginController J jwt P ex =
     (if rq_method (ex_req ex) = ''POST'' then
        (let username = getPostAttribute (ex_req ex) ''username'' [];
             password = getPostAttribute (ex_req ex) ''password'' []
         in case ap_authenticate P username password (ex_world ex) of
              (Inl e, w) \<Rightarrow> Stop (Inl e, ex\<lparr>ex_world := w\<rparr>)
            | (Inr None, w) \<Rightarrow> Pass (ex\<lparr>ex_world := w\<rparr>) id
            | (Inr (Some user), w) \<Rightarrow>
                (case generateToken J jwt user 3600 w of
                   (Inl e, w1) \<Rightarrow> Stop (Inl e, ex\<lparr>ex_world := w1\<rparr>)
                 | (Inr token, w1) \<Rightarrow>
                     Pass (ex\<lparr>ex_res := setCookie ''jwt_token'' token 900 ''/'' [] True True ''Lax'' (ex_res ex),
                       ex_world := w1\<rparr>) id))
      else verify_bearer J jwt ex)"

definition JWTLogoutController :: "'a exchange \<Rightarrow> 'a onion" where
  "JWTLogoutController ex =
     Pass (ex\<lparr>ex_res := addHeader ''Set-Cookie''
       (''jwt_token=; '' @ ''Path=/; '' @ ''Expires=Thu, 01 Jan 1970 00:00:00 GMT; '' @
        ''HttpOnly; Secure; SameSite=Strict'') (ex_res ex)\<rparr>) id"

section \<open>Lemmas\<close>

lemma leave_session_req: "ex_req (snd (leave_session mgr s out)) = ex_req (snd out)"
  by (auto simp: leave_session_def split: prod.splits sum.splits)

lemma require_auth_cases:
  assumes "new_session mgr (ex_req ex) [] (ex_world ex) = (Inr s, w)"
  shows "SessionRequireAuth mgr P ex =
    (if session_get s USER_KEY [] = []
     then Stop (leave_session mgr s (Inr (), ex\<lparr>ex_world := w, ex_res := stockReply Forbidden\<rparr>))
     else case ap_loadUser P (session_get s USER_KEY []) w of
            (Inl e, w') \<Rightarrow> Stop (leave_session mgr s (Inl e, ex\<lparr>ex_world := w'\<rparr>))
          | (Inr user, w') \<Rightarrow>
              Pass (ex\<lparr>ex_world := w', ex_req := set_user user (ex_req ex)\<rparr>) (leave_session mgr s))"
  by (auto simp: SessionRequireAuth_def with_session_def assms load_and_pass_def Let_def
      split: prod.splits sum.splits)

section \<open>Properties\<close>

text \<open>C13: Behind \<^verbatim>\<open>SessionRequireAuth\<close> the handler never runs for a request whose session names no user:
  the pipeline replies 403, whatever stands behind.  A session that names a user lets the request pass,
  also when the provider no longer knows that user: then the handler runs without one.\<close>

theorem require_auth_guards:
  assumes "new_session mgr (ex_req ex) [] (ex_world ex) = (Inr s, w)"
  shows "(session_get s ''user_id'' [] = [] \<longrightarrow>
      run_context (map (\<lambda>m ex. onion_prog (m ex)) (SessionRequireAuth mgr P # ms)) h ex =
        leave_session mgr s (Inr (), ex\<lparr>ex_world := w, ex_res := stockReply Forbidden\<rparr>)) \<and>
    (session_get s ''user_id'' [] \<noteq> [] \<longrightarrow>
      ap_loadUser P (session_get s ''user_id'' []) w = (Inr None, w') \<longrightarrow>
      run_context (map (\<lambda>m ex. onion_prog (m ex)) (SessionRequireAuth mgr P # ms)) h ex =
        leave_session mgr s (wrap ms h (ex\<lparr>ex_world := w'\<rparr>)))"
proof -
  have "run_context (map (\<lambda>m ex. onion_prog (m ex)) (SessionRequireAuth mgr P # ms)) h ex =
      wrap (SessionRequireAuth mgr P # ms) h ex"
    unfolding run_context_def by (subst mw_next_onions) simp_all
  then show ?thesis
    using require_auth_cases [OF assms, of P]
    by (simp add: USER_KEY_def set_user_def mw_set_user_def)
qed

definition nobody :: "'a auth_provider" where
  "nobody = \<lparr>ap_authenticate = \<lambda>u p. io_return (if p = ''pw'' then Some u else None), ap_loadUser = \<lambda>u. io_return None\<rparr>"

definition sessionless :: "'a session_manager" where
  "sessionless = \<lparr>sm_open = io_return False, sm_close = io_return True, sm_write = \<lambda>sid d. io_return True,
     sm_read = \<lambda>sid d. io_return (False, d), sm_uniqueSID = io_return [], sm_isValidId = \<lambda>sid. io_return False,
     sm_remove = \<lambda>sid. io_return True, sm_config = default_config\<rparr>"

theorem require_auth_guards_witness:
  "run_context (map (\<lambda>m ex. onion_prog (m ex)) [SessionRequireAuth sessionless nobody]) None (sample_exchange ()) =
     (Inr (), sample_exchange ()\<lparr>ex_res := stockReply Forbidden\<rparr>)"
  using require_auth_guards [of sessionless "sample_exchange ()" empty_session "ex_world (sample_exchange ())" nobody "[]" None]
  by (simp add: new_session_def sessionless_def io_bind_def session_get_def dict_get_def
      empty_session_def leave_session_def end_session_def Let_def)

text \<open>Logging in puts the authenticated user into the request, but into the session only when the session
  names no user yet: a user who logs in while another is logged in acts as themself during that
  request and as the other one afterwards.  Logging out removes the user from both.\<close>

lemma login_logout_session:
  assumes "rq_method (ex_req ex) = ''POST''" "dict_ok (ss_data s)"
    "ap_authenticate P (getPostAttribute (ex_req ex) ''username'' []) (getPostAttribute (ex_req ex) ''password'' []) (ex_world ex) =
       (Inr (Some user), w)"
  shows "\<exists>s' ex'. login_body P s ex = (s', Pass ex' id) \<and> mw_user (rq_mw (ex_req ex')) = Some user \<and>
      map_of (ss_data s') ''user_id'' =
        (case map_of (ss_data s) ''user_id'' of None \<Rightarrow> Some user | Some old \<Rightarrow> Some old) \<and>
      (\<exists>s'' ex''. logout_body s' ex' = (s'', Pass ex'' id) \<and> mw_user (rq_mw (ex_req ex'')) = None \<and>
        session_get s'' ''user_id'' [] = [])"
proof -
  let ?s = "session_add USER_KEY user s"
  let ?ex = "ex\<lparr>ex_req := set_user (Some user) (ex_req ex), ex_world := w\<rparr>"
  have ok: "dict_ok (ss_data ?s)" using assms(2) by (simp add: session_add_def)
  have "login_body P s ex = (?s, Pass ?ex id)"
    using assms(1,3) by (simp add: login_body_def Let_def)
  moreover have "map_of (ss_data ?s) ''user_id'' =
      (case map_of (ss_data s) ''user_id'' of None \<Rightarrow> Some user | Some old \<Rightarrow> Some old)"
    using assms(2) by (auto simp: session_add_def map_of_dict_emplace USER_KEY_def split: option.splits)
  moreover obtain s'' ex'' where "logout_body ?s ?ex = (s'', Pass ex'' id)" "mw_user (rq_mw (ex_req ex'')) = None"
    "session_get s'' ''user_id'' [] = []"
    using session_get_remove [OF ok, of "''user_id''" "''user_id''" "[]"]
    by (fastforce simp: logout_body_def mw_remove_user_def USER_KEY_def Let_def)
  ultimately show ?thesis
    by (intro exI [of _ ?s] exI [of _ ?ex]) (auto simp: set_user_def mw_set_user_def)
qed

text \<open>The JWT controllers authenticate nothing: the request they pass on is the one they got, whether the
  bearer token verifies or not.\<close>

lemma jwt_has_no_effect:
  "\<exists>ex' k. JWTAuthController J jwt ex = Pass ex' k \<and> ex_req ex' = ex_req ex \<and> ex_res ex' = ex_res ex \<and> k = id"
  by (simp add: JWTAuthController_def verify_bearer_def verifyToken_def Let_def)

end
