(* ===== verification/LocaleResolver.thy ===== *)
theory LocaleResolver
  imports Complex_Main Middleware
begin

text \<open>
  \<^verbatim>\<open>src/middleware/locale.cpp\<close>: the middleware that picks the language of a reply.  Weights are the
  exact values of the decimals \<^verbatim>\<open>std::stod\<close> reads (its spellings of infinity, not-a-number and hexadecimal
  numbers are not modelled); \<^verbatim>\<open>std::sort\<close> leaves equal weights in an unspecified order, here the order
  of the header, which insertion sort, what the library uses for up to 16 elements, gives.
\<close>

section \<open>Decimals\<close>

definition split_digits :: "string \<Rightarrow> string \<times> string" where
  "split_digits s = (takeWhile isdigit s, dropWhile isdigit s)"

text \<open>The exponent is read only when digits follow it.\<close>

definition read_exponent :: "string \<Rightarrow> int" where
  "read_exponent s =
     (case s of
        c # cs \<Rightarrow>
          if c = CHR ''e'' \<or> c = CHR ''E'' then
            (let (sg, t) = strip_sign cs; ds = takeWhile isdigit t in sg * int (digits_value ds))
          else 0
      | [] \<Rightarrow> 0)"

definition scale10 :: "rat \<Rightarrow> int \<Rightarrow> rat" where
  "scale10 m e = (if 0 \<le> e then m * 10 ^ nat e else m / 10 ^ nat (- e))"

text \<open>None is an exception: no number, or one outside the range of \<^verbatim>\<open>double\<close>.\<close>

definition stod :: "string \<Rightarrow> rat option" where
  "stod s =
     (let (sg, t) = strip_sign (dropWhile isspace s);
          (whole, t1) = split_digits t;
          (frac, t2) = (case t1 of c # cs \<Rightarrow> if c = CHR ''.'' then split_digits cs else ([], t1) | [] \<Rightarrow> ([], []));
          v = scale10 (of_nat (digits_value (whole @ frac))) (read_exponent t2 - int (length frac))
      in if whole @ frac = [] then None
         else if 2 ^ 1024 \<le> v \<or> (v \<noteq> 0 \<and> v * 2 ^ 1022 < 1) then None
         else Some (of_int sg * v))"

section \<open>The header\<close>

text \<open>\<^verbatim>\<open>std::getline(ss, item, ',')\<close> in a loop: nothing follows a comma at the end.\<close>

function getlines :: "char \<Rightarrow> string \<Rightarrow> string list" where
  "getlines c s =
     (if s = [] then []
      else takeWhile (\<lambda>x. x \<noteq> c) s # getlines c (drop 1 (dropWhile (\<lambda>x. x \<noteq> c) s)))"
  by auto
termination
proof (relation "measure (length \<circ> snd)")
  fix c :: char and s :: string
  assume s: "s \<noteq> []"
  have "length (drop 1 (dropWhile (\<lambda>x. x \<noteq> c) s)) \<le> length (tl s)"
    using length_dropWhile_le [of "\<lambda>x. x \<noteq> c" s] by (simp add: diff_le_mono)
  also have "\<dots> < length s" using s by simp
  finally show "((c, drop 1 (dropWhile (\<lambda>x. x \<noteq> c) s)), c, s) \<in> measure (length \<circ> snd)" by simp
qed simp

declare getlines.simps [simp del]

lemma getlines_Nil [simp]: "getlines c [] = []"
  by (simp add: getlines.simps [of c "[]"])

record language_preference =
  lp_code :: string
  lp_weight :: rat

definition parse_item :: "string \<Rightarrow> language_preference option" where
  "parse_item item0 =
     (let item = filter (\<lambda>c. \<not> isspace c) item0
      in if item = [] then None
         else (case find_from item '';q='' 0 of
                 None \<Rightarrow> Some \<lparr>lp_code = item, lp_weight = 1\<rparr>
               | Some q_pos \<Rightarrow>
                   Some \<lparr>lp_code = take q_pos item,
                     lp_weight = (case stod (drop (q_pos + 3) item) of None \<Rightarrow> 0 | Some w \<Rightarrow> w)\<rparr>))"

definition parse_accept_language :: "string \<Rightarrow> language_preference list" where
  "parse_accept_language header =
     sort_key (\<lambda>p. - lp_weight p) (List.map_filter parse_item (getlines (CHR '','') header))"

section \<open>The resolver\<close>

record locale_resolver =
  lr_supported :: "string list"
  lr_fallback :: string

fun supported_from :: "string list \<Rightarrow> string \<Rightarrow> int \<Rightarrow> int" where
  "supported_from [] loc i = - 1"
| "supported_from (lang # langs) loc i =
     (if lang = loc then i
      else if 2 \<le> length loc \<and> take 2 lang = take 2 loc then i
      else supported_from langs loc (i + 1))"

definition isLocaleSupported :: "locale_resolver \<Rightarrow> string \<Rightarrow> int" where
  "isLocaleSupported lr loc = supported_from (lr_supported lr) loc 0"

fun first_supported :: "locale_resolver \<Rightarrow> language_preference list \<Rightarrow> string option" where
  "first_supported lr [] = None"
| "first_supported lr (p # ps) =
     (let res_idx = isLocaleSupported lr (lp_code p)
      in if res_idx \<noteq> - 1 then Some (lr_supported lr ! nat res_idx) else first_supported lr ps)"

text \<open>In the first test the index itself is the condition.\<close>

definition resolve :: "locale_resolver \<Rightarrow> request \<Rightarrow> string" where
  "resolve lr req =
     (let route = getRouteAttribute req ''_locale'' [];
          lang = getQueryAttribute req ''lang'' [];
          cookie = getCookie req ''locale'' [];
          accept = getServerAttribute req ''Accept-Language'' []
      in if route \<noteq> [] \<and> isLocaleSupported lr route \<noteq> 0 then route
         else if lang \<noteq> [] \<and> isLocaleSupported lr lang \<noteq> - 1
         then lr_supported lr ! nat (isLocaleSupported lr lang)
         else if cookie \<noteq> [] \<and> isLocaleSupported lr cookie \<noteq> - 1
         then lr_supported lr ! nat (isLocaleSupported lr cookie)
         else if accept \<noteq> []
         then (case first_supported lr (parse_accept_language accept) of
                 Some l \<Rightarrow> l | None \<Rightarrow> lr_fallback lr)
         else lr_fallback lr)"

definition locale_handle :: "locale_resolver \<Rightarrow> 'a exchange \<Rightarrow> 'a onion" where
  "locale_handle lr ex =
     (let req = ex_req ex
      in Pass (ex\<lparr>ex_req := req\<lparr>rq_mw := mw_set_locale (Some (resolve lr req)) (rq_mw req)\<rparr>\<rparr>) id)"

section \<open>Lemmas\<close>

definition locale_fits :: "string \<Rightarrow> string \<Rightarrow> bool" where
  "locale_fits loc lang \<longleftrightarrow> lang = loc \<or> (2 \<le> length loc \<and> take 2 lang = take 2 loc)"

lemma supported_none: "\<forall>lang \<in> set langs. \<not> locale_fits loc lang \<Longrightarrow> supported_from langs loc i = - 1"
  by (induction langs arbitrary: i) (auto simp: locale_fits_def)

lemma supported_first:
  "k < length langs \<Longrightarrow> locale_fits loc (langs ! k) \<Longrightarrow> \<forall>j < k. \<not> locale_fits loc (langs ! j) \<Longrightarrow>
   supported_from langs loc i = i + int k"
proof (induction langs arbitrary: i k)
  case (Cons lang langs)
  show ?case
  proof (cases k)
    case 0
    then show ?thesis using Cons.prems by (auto simp: locale_fits_def)
  next
    case (Suc k')
    then have "\<not> locale_fits loc lang" "\<forall>j < k'. \<not> locale_fits loc (langs ! j)"
      using Cons.prems(3) by (auto dest: spec [of _ 0] spec [of _ "Suc j" for j])
    then show ?thesis
      using Cons.IH [of k' "i + 1"] Cons.prems(1,2) Suc by (auto simp: locale_fits_def)
  qed
qed simp

lemma first_supported_best:
  "sorted (map (\<lambda>p. - lp_weight p) ps) \<Longrightarrow>
   (case first_supported lr ps of
      None \<Rightarrow> \<forall>p \<in> set ps. isLocaleSupported lr (lp_code p) = - 1
    | Some l \<Rightarrow> \<exists>p \<in> set ps. isLocaleSupported lr (lp_code p) \<noteq> - 1 \<and>
        l = lr_supported lr ! nat (isLocaleSupported lr (lp_code p)) \<and>
        (\<forall>q \<in> set ps. lp_weight p < lp_weight q \<longrightarrow> isLocaleSupported lr (lp_code q) = - 1))"
proof (induction ps)
  case (Cons p ps)
  then show ?case
    by (cases "isLocaleSupported lr (lp_code p) = - 1")
      (fastforce simp: Let_def split: option.splits)+
qed simp

section \<open>Properties\<close>



end
