(* ===== verification/Filters.thy ===== *)
theory Filters
  imports Middleware
begin

text \<open>
  \<^verbatim>\<open>src/middleware/request_logger.cpp\<close> and \<^verbatim>\<open>include/wsrv/middleware/compress.hpp\<close>: the two middlewares that
  act on the way back.
\<close>

definition request_logger_handle :: "'a exchange \<Rightarrow> 'a onion" where
  "request_logger_handle ex =
     Pass ex (\<lambda>(r, ex').
       case r of
         Inl e \<Rightarrow> (Inl e, ex')
       | Inr _ \<Rightarrow>
           (let strm = request_toString (ex_req ex') @ '' -> '' @ response_toString (ex_res ex');
                (r', w) = io_log strm (ex_world ex')
            in (r', ex'\<lparr>ex_world := w\<rparr>)))"

text \<open>\<^verbatim>\<open>gzip\<close> is the compressor behind \<^verbatim>\<open>HTTPServerResponse::compress\<close>.\<close>

definition compress_handle :: "(string \<Rightarrow> string) \<Rightarrow> 'a exchange \<Rightarrow> 'a onion" where
  "compress_handle gzip ex =
     Pass ex (\<lambda>(r, ex').
       case r of
         Inl e \<Rightarrow> (Inl e, ex')
       | Inr _ \<Rightarrow>
           (Inr (), if supportsGzip (ex_req ex') \<and> contentBenefitsFromCompression (ex_res ex')
                    then ex'\<lparr>ex_res := compress gzip (ex_res ex')\<rparr> else ex'))"

text \<open>Compressing is done once: a second compression layer around the first leaves its result alone.\<close>

lemma compress_once: "\<not> contentBenefitsFromCompression (compress gzip r)"
  by (simp add: contentBenefitsFromCompression_def compress_def setContentLength_def addHeader_def
      getHeaderAttribute_def dict_get_def map_of_dict_set)

lemma compress_layers:
  "wrap [compress_handle gzip, compress_handle gzip] h = wrap [compress_handle gzip] h"
proof
  fix ex
  obtain r ex' where "call_handler h ex = (r, ex')" by (cases "call_handler h ex")
  then show "wrap [compress_handle gzip, compress_handle gzip] h ex = wrap [compress_handle gzip] h ex"
    by (cases r) (simp_all add: compress_handle_def compress_once)
qed

end
