(* ===== verification/Logger.thy ===== *)
theory Logger
  imports Dict
begin

text \<open>
  \<^verbatim>\<open>src/util/logger.cpp\<close> and \<^verbatim>\<open>include/wsrv/util/logger.hpp\<close>: the file logger with rotation and
  compression.  The directory is a map from paths to contents; what zlib makes of a file is the
  parameter \<^verbatim>\<open>gz\<close>: nothing when the output cannot be opened, otherwise the bytes written and whether all
  writes succeeded.  The time stamp of a line is an argument.
\<close>

datatype LogLevel = Debug | Info | Warning | Error | Critical

fun level_to_string :: "LogLevel \<Rightarrow> string" where
  "level_to_string Debug = ''DEBUG''"
| "level_to_string Info = ''INFO''"
| "level_to_string Warning = ''WARN''"
| "level_to_string Error = ''ERROR''"
| "level_to_string Critical = ''CRIT''"

type_synonym directory = "(string, string) smap"

record file_logger =
  log_path :: string
  max_file_sz :: nat
  max_log_file_idx :: nat

definition log_line :: "string \<Rightarrow> LogLevel \<Rightarrow> string \<Rightarrow> string" where
  "log_line timestamp lv msg = timestamp @ '' '' @ level_to_string lv @ '' '' @ msg @ [LF]"

text \<open>\<^verbatim>\<open>log_path_ + "." + std::to_string(i) + ".gz"\<close>.\<close>

definition gz_name :: "file_logger \<Rightarrow> nat \<Rightarrow> string" where
  "gz_name lg i = log_path lg @ ''.'' @ nat_digits i @ ''.gz''"

text \<open>Opening for appending creates the file.\<close>

definition logger_open :: "file_logger \<Rightarrow> directory \<Rightarrow> directory" where
  "logger_open lg d = dict_emplace (log_path lg) [] d"

text \<open>\<^verbatim>\<open>fs::rename\<close> of an existing file, which replaces the target.\<close>

definition rename_file :: "string \<Rightarrow> string \<Rightarrow> directory \<Rightarrow> directory" where
  "rename_file old new d =
     (case map_of d old of None \<Rightarrow> d | Some c \<Rightarrow> dict_set new c (dict_erase old d))"

definition compress_file_gzip ::
  "(string \<Rightarrow> (string \<times> bool) option) \<Rightarrow> string \<Rightarrow> string \<Rightarrow> directory \<Rightarrow> bool \<times> directory" where
  "compress_file_gzip gz src dst d =
     (case map_of d src of
        None \<Rightarrow> (False, d)
      | Some c \<Rightarrow> (case gz c of None \<Rightarrow> (False, d) | Some (z, ok) \<Rightarrow> (ok, dict_set dst z d)))"

text \<open>The loop from \<^verbatim>\<open>max_log_file_idx_\<close> down to 1.\<close>

primrec shift_files :: "file_logger \<Rightarrow> nat \<Rightarrow> directory \<Rightarrow> directory" where
  "shift_files lg 0 d = d"
| "shift_files lg (Suc i) d = shift_files lg i (rename_file (gz_name lg (Suc i)) (gz_name lg (Suc i + 1)) d)"

definition rotateLogs :: "(string \<Rightarrow> (string \<times> bool) option) \<Rightarrow> file_logger \<Rightarrow> directory \<Rightarrow> directory" where
  "rotateLogs gz lg d =
     (let d1 = dict_erase (gz_name lg (max_log_file_idx lg)) d;
          d2 = shift_files lg (max_log_file_idx lg) d1;
          target_gz = log_path lg @ ''.1.gz'';
          (ok, d3) = compress_file_gzip gz (log_path lg) target_gz d2;
          d4 = (if ok then dict_erase (log_path lg) d3
                else rename_file (log_path lg) (log_path lg @ ''.1'') d3)
      in logger_open lg d4)"

definition append_file :: "string \<Rightarrow> string \<Rightarrow> directory \<Rightarrow> directory" where
  "append_file path s d = (case map_of d path of None \<Rightarrow> d | Some c \<Rightarrow> dict_set path (c @ s) d)"

definition logger_log ::
  "(string \<Rightarrow> (string \<times> bool) option) \<Rightarrow> file_logger \<Rightarrow> string \<Rightarrow> LogLevel \<Rightarrow> string \<Rightarrow> directory \<Rightarrow> directory" where
  "logger_log gz lg timestamp lv msg d =
     (let d1 = (case map_of d (log_path lg) of
                  Some c \<Rightarrow> if max_file_sz lg \<le> length c then rotateLogs gz lg d else d
                | None \<Rightarrow> d)
      in append_file (log_path lg) (log_line timestamp lv msg) d1)"

text \<open>\<^verbatim>\<open>DebugLogger::log\<close>: what it adds to the standard output.\<close>

definition debug_log :: "string \<Rightarrow> LogLevel \<Rightarrow> string \<Rightarrow> string \<Rightarrow> string" where
  "debug_log timestamp lv msg out = out @ log_line timestamp lv msg"

section \<open>Names\<close>

lemma nat_digits_inject [simp]: "nat_digits m = nat_digits n \<longleftrightarrow> m = n"
  using digits_value_nat_digits by metis

lemma gz_name_inject [simp]: "gz_name lg i = gz_name lg j \<longleftrightarrow> i = j"
  by (simp add: gz_name_def)

lemma gz_name_log [simp]: "gz_name lg i \<noteq> log_path lg" "log_path lg \<noteq> gz_name lg i"
  by (simp_all add: gz_name_def)

lemma gz_name_one: "log_path lg @ ''.1.gz'' = gz_name lg 1"
proof -
  have "char_of (49 :: nat) = CHR ''1''" by (simp add: char_of_eq_iff)
  then show ?thesis by (simp add: gz_name_def nat_digits.simps digit_char_def)
qed

lemma gz_name_plain [simp]: "gz_name lg i \<noteq> log_path lg @ ''.1''" "log_path lg @ ''.1'' \<noteq> gz_name lg i"
proof -
  show "gz_name lg i \<noteq> log_path lg @ ''.1''"
  proof
    assume "gz_name lg i = log_path lg @ ''.1''"
    then have "nat_digits i @ ''.gz'' = ''1''" by (simp add: gz_name_def)
    then have "length (nat_digits i @ ''.gz'') = 1" by simp
    then show False by simp
  qed
  then show "log_path lg @ ''.1'' \<noteq> gz_name lg i" by metis
qed

section \<open>Rotation\<close>

lemma dict_ok_rename: "dict_ok d \<Longrightarrow> dict_ok (rename_file old new d)"
  by (auto simp: rename_file_def split: option.splits)

lemma map_of_rename:
  "dict_ok d \<Longrightarrow> old \<noteq> new \<Longrightarrow> map_of (rename_file old new d) =
     (case map_of d old of None \<Rightarrow> map_of d | Some c \<Rightarrow> (map_of d)(old := None, new \<mapsto> c))"
  by (auto simp: rename_file_def map_of_dict_set map_of_dict_erase split: option.splits)

lemma shift_files_ok: "dict_ok d \<Longrightarrow> dict_ok (shift_files lg n d)"
  by (induction n arbitrary: d) (simp_all add: dict_ok_rename)

text \<open>When the last file has no successor, every file moves up by one and its place becomes free.\<close>

lemma shift_files_spec:
  assumes "dict_ok d" "map_of d (gz_name lg (Suc n)) = None"
  shows "(\<forall>i. 1 \<le> i \<longrightarrow> i \<le> n \<longrightarrow> map_of (shift_files lg n d) (gz_name lg (Suc i)) = map_of d (gz_name lg i)) \<and>
    map_of (shift_files lg n d) (gz_name lg 1) = (if n = 0 then map_of d (gz_name lg 1) else None) \<and>
    (\<forall>f. (\<forall>i. 1 \<le> i \<longrightarrow> i \<le> Suc n \<longrightarrow> f \<noteq> gz_name lg i) \<longrightarrow> map_of (shift_files lg n d) f = map_of d f)"
  using assms
proof (induction n arbitrary: d)
  case (Suc n)
  let ?d = "rename_file (gz_name lg (Suc n)) (gz_name lg (Suc (Suc n))) d"
  have ok: "dict_ok ?d" using Suc.prems by (simp add: dict_ok_rename)
  have m: "map_of ?d = (map_of d)(gz_name lg (Suc n) := None, gz_name lg (Suc (Suc n)) := map_of d (gz_name lg (Suc n)))"
    using Suc.prems by (cases "map_of d (gz_name lg (Suc n))")
      (auto simp: map_of_rename fun_eq_iff)
  then have none: "map_of ?d (gz_name lg (Suc n)) = None" by simp
  note IH = Suc.IH [OF ok none]
  have moved: "map_of (shift_files lg n ?d) (gz_name lg (Suc i)) = map_of d (gz_name lg i)" if "1 \<le> i" "i \<le> Suc n" for i
  proof (cases "i = Suc n")
    case True
    have "map_of (shift_files lg n ?d) (gz_name lg (Suc (Suc n))) = map_of ?d (gz_name lg (Suc (Suc n)))"
      by (rule IH [THEN conjunct2, THEN conjunct2, rule_format]) simp
    then show ?thesis by (simp add: True m)
  next
    case False
    with that IH have "map_of (shift_files lg n ?d) (gz_name lg (Suc i)) = map_of ?d (gz_name lg i)" by simp
    with that False show ?thesis by (simp add: m)
  qed
  have first: "map_of (shift_files lg n ?d) (gz_name lg 1) = None"
    using IH none by (cases n) simp_all
  have other: "map_of (shift_files lg n ?d) f = map_of d f" if "\<forall>i. 1 \<le> i \<longrightarrow> i \<le> Suc (Suc n) \<longrightarrow> f \<noteq> gz_name lg i" for f
  proof -
    have "f \<noteq> gz_name lg (Suc n)" "f \<noteq> gz_name lg (Suc (Suc n))" using that by simp_all
    moreover have "map_of (shift_files lg n ?d) f = map_of ?d f"
      using that by (intro IH [THEN conjunct2, THEN conjunct2, rule_format]) simp
    ultimately show ?thesis by (simp add: m)
  qed
  show ?case using moved first other by simp
qed simp

text \<open>The rotated files are numbered from 1 to the maximum.\<close>

definition rotated_ok :: "file_logger \<Rightarrow> directory \<Rightarrow> bool" where
  "rotated_ok lg d \<longleftrightarrow> dict_ok d \<and>
     (\<forall>i. map_of d (gz_name lg i) \<noteq> None \<longrightarrow> 1 \<le> i \<and> i \<le> max_log_file_idx lg)"

lemma rotate_spec:
  assumes "rotated_ok lg d" "1 \<le> max_log_file_idx lg" "map_of d (log_path lg) = Some c" "gz c = Some (z, True)"
  shows "dict_ok (rotateLogs gz lg d) \<and> map_of (rotateLogs gz lg d) (log_path lg) = Some [] \<and>
    map_of (rotateLogs gz lg d) (gz_name lg 1) = Some z \<and>
    (\<forall>i. 1 \<le> i \<longrightarrow> i < max_log_file_idx lg \<longrightarrow>
      map_of (rotateLogs gz lg d) (gz_name lg (Suc i)) = map_of d (gz_name lg i)) \<and>
    (\<forall>i. i = 0 \<or> max_log_file_idx lg < i \<longrightarrow> map_of (rotateLogs gz lg d) (gz_name lg i) = None)"
proof -
  let ?n = "max_log_file_idx lg"
  let ?d1 = "dict_erase (gz_name lg ?n) d"
  let ?d2 = "shift_files lg ?n ?d1"
  have ok: "dict_ok d" "dict_ok ?d1" "dict_ok ?d2" using assms(1) by (simp_all add: rotated_ok_def shift_files_ok)
  have d1: "map_of ?d1 = (map_of d)(gz_name lg ?n := None)" using ok by (simp add: map_of_dict_erase)
  have none: "map_of d (gz_name lg i) = None" if "i = 0 \<or> ?n < i" for i
    using assms(1) that unfolding rotated_ok_def by (metis not_le not_one_le_zero)
  have "map_of ?d1 (gz_name lg (Suc ?n)) = None" using none by (simp add: d1)
  note shift = shift_files_spec [OF ok(2) this]
  have log: "map_of ?d2 (log_path lg) = Some c" using shift assms(3) by (simp add: d1)
  then have rot: "rotateLogs gz lg d = logger_open lg (dict_erase (log_path lg) (dict_set (gz_name lg 1) z ?d2))"
    using assms(4) by (simp add: rotateLogs_def compress_file_gzip_def gz_name_one Let_def)
  have m: "map_of (rotateLogs gz lg d) = (map_of ?d2)(gz_name lg 1 \<mapsto> z, log_path lg \<mapsto> [])"
    unfolding rot logger_open_def using ok
    by (simp add: map_of_dict_emplace map_of_dict_erase map_of_dict_set fun_eq_iff)
  have far: "map_of ?d2 (gz_name lg i) = None" if "i = 0 \<or> ?n < i" for i
  proof (cases "i = Suc ?n")
    case True
    then show ?thesis using shift assms(2) by (simp add: d1)
  next
    case False
    then have "\<forall>k. 1 \<le> k \<longrightarrow> k \<le> Suc ?n \<longrightarrow> gz_name lg i \<noteq> gz_name lg k" using that by auto
    then have "map_of ?d2 (gz_name lg i) = map_of ?d1 (gz_name lg i)"
      by (rule shift [THEN conjunct2, THEN conjunct2, THEN spec, THEN mp])
    then show ?thesis using none that by (simp add: d1)
  qed
  have "map_of ?d2 (gz_name lg (Suc i)) = map_of d (gz_name lg i)" if "1 \<le> i" "i < ?n" for i
    using shift that by (simp add: d1)
  moreover have "dict_ok (rotateLogs gz lg d)" unfolding rot logger_open_def using ok by simp
  ultimately show ?thesis using far assms(2) by (auto simp: m)
qed

section \<open>Properties\<close>



end
