(* ===== verification/IoPool.thy ===== *)
theory IoPool
  imports Prelude
begin

text \<open>
  \<^verbatim>\<open>src/io_service_pool.cpp\<close>: the pool of I/O services, each run by a thread of its own, handed out in turn.
\<close>

datatype service_state = Idle | Running | Stopped

record io_service_pool =
  io_services :: "service_state list"
  next_io_service :: nat

definition new_pool :: "nat \<Rightarrow> io_service_pool result" where
  "new_pool pool_size =
     (if pool_size = 0 then Inl (Runtime_error ''io_service_pool size is 0'')
      else Inr \<lparr>io_services = replicate pool_size Idle, next_io_service = 0\<rparr>)"

text \<open>Starting the threads; they return when their service is stopped.\<close>

definition pool_run :: "io_service_pool \<Rightarrow> io_service_pool" where
  "pool_run p = p\<lparr>io_services := map (\<lambda>s. if s = Stopped then Stopped else Running) (io_services p)\<rparr>"

definition pool_stop :: "io_service_pool \<Rightarrow> io_service_pool" where
  "pool_stop p = p\<lparr>io_services := map (\<lambda>s. Stopped) (io_services p)\<rparr>"

text \<open>\<^verbatim>\<open>run\<close> comes back when every thread has been joined.\<close>

definition pool_returns :: "io_service_pool \<Rightarrow> bool" where
  "pool_returns p \<longleftrightarrow> list_all (\<lambda>s. s = Stopped) (io_services p)"

definition get_io_service :: "io_service_pool \<Rightarrow> nat \<times> io_service_pool" where
  "get_io_service p =
     (let k = next_io_service p; n = k + 1
      in (k, p\<lparr>next_io_service := if n = length (io_services p) then 0 else n\<rparr>))"

section \<open>Lemmas\<close>

definition pool_ok :: "io_service_pool \<Rightarrow> bool" where
  "pool_ok p \<longleftrightarrow> next_io_service p < length (io_services p)"

lemma new_pool_ok: "new_pool n = Inr p \<Longrightarrow> pool_ok p \<and> length (io_services p) = n \<and> next_io_service p = 0"
  by (auto simp: new_pool_def pool_ok_def split: if_splits)

lemma get_ok: "pool_ok p \<Longrightarrow> get_io_service p = (k, p') \<Longrightarrow> pool_ok p' \<and> io_services p' = io_services p \<and> k < length (io_services p)"
  by (auto simp: get_io_service_def pool_ok_def Let_def)

primrec get_many :: "nat \<Rightarrow> io_service_pool \<Rightarrow> nat list" where
  "get_many 0 p = []"
| "get_many (Suc m) p = (case get_io_service p of (k, p') \<Rightarrow> k # get_many m p')"

lemma get_many_turns:
  "pool_ok p \<Longrightarrow> get_many m p = map (\<lambda>j. (next_io_service p + j) mod length (io_services p)) [0..<m]"
proof (induction m arbitrary: p)
  case (Suc m)
  let ?n = "length (io_services p)"
  obtain k p' where g: "get_io_service p = (k, p')" by (cases "get_io_service p")
  have k: "k = next_io_service p" "k < ?n" using g Suc.prems by (auto simp: get_io_service_def pool_ok_def Let_def)
  have p': "pool_ok p'" "io_services p' = io_services p" using get_ok [OF Suc.prems g] by simp_all
  have step: "next_io_service p' = (next_io_service p + 1) mod ?n"
    using g k by (auto simp: get_io_service_def Let_def)
  have "get_many (Suc m) p = k # map (\<lambda>j. (next_io_service p' + j) mod ?n) [0..<m]"
    using Suc.IH [OF p'(1)] p'(2) by (simp add: g)
  also have "map (\<lambda>j. (next_io_service p' + j) mod ?n) [0..<m] = map (\<lambda>j. (next_io_service p + j) mod ?n) [1..<Suc m]"
    unfolding step by (simp add: map_Suc_upt [symmetric] mod_simps del: upt_Suc)
  also have "k # \<dots> = map (\<lambda>j. (next_io_service p + j) mod ?n) [0..<Suc m]"
    using k by (simp add: upt_conv_Cons del: upt_Suc)
  finally show ?case .
qed simp

end
