(* ===== verification/Server.thy ===== *)
theory Server
  imports Multipart Middleware IoPool
begin

text \<open>
  \<^verbatim>\<open>src/server_impl.cpp\<close>, \<^verbatim>\<open>src/connection_manager.cpp\<close> and \<^verbatim>\<open>src/detail/connection.hpp\<close>: connections,
  their manager and the accept loop.  A completion handler of the asio library is one step of the
  server, and what the library reports (bytes read, errors, signals) is the label of the step; only the
  accept handler takes two steps, because a signal handled by another thread can come between its
  test of the acceptor and the start of the connection.  The HTTP parser library, the address of the
  peer and the application's handler are parameters.
\<close>

section \<open>One connection\<close>

datatype conn_phase =
    Reading
  | Writing string
  | Finished

record 'p connection =
  cn_parser :: "'p request_parser"
  cn_request :: request
  cn_response :: response
  cn_phase :: conn_phase
  cn_open :: bool
  cn_service :: nat

text \<open>A connection runs on the I/O service of the socket it was accepted into.\<close>

definition new_connection :: "'p http_parser_lib \<Rightarrow> bool \<Rightarrow> nat \<Rightarrow> 'p connection" where
  "new_connection lib garbage service =
     \<lparr>cn_parser = RequestParser lib garbage, cn_request = empty_request, cn_response = empty_response,
      cn_phase = Reading, cn_open = True, cn_service = service\<rparr>"

text \<open>\<^verbatim>\<open>write(response_to_buffers(response_, request_.method_ == "HEAD"))\<close>.\<close>

definition cn_write :: "response \<Rightarrow> 'p connection \<Rightarrow> 'p connection" where
  "cn_write res cn =
     cn\<lparr>cn_response := res,
        cn_phase := Writing (concat (response_to_buffers res (rq_method (cn_request cn) = ''HEAD'')))\<rparr>"

text \<open>The handler under its \<^verbatim>\<open>try\<close>: only a runtime error is caught, every other fault leaves the read handler.\<close>

definition call_application :: "'a handler \<Rightarrow> request \<Rightarrow> response \<Rightarrow> 'a world \<Rightarrow> (request \<times> response) result \<times> 'a world" where
  "call_application h req res w =
     (case h \<lparr>ex_req = req, ex_res = res, ex_world = w\<rparr> of
        (Inr _, ex) \<Rightarrow> (Inr (ex_req ex, ex_res ex), ex_world ex)
      | (Inl (Runtime_error m), ex) \<Rightarrow> (Inr (ex_req ex, stockReply InternalServerError), ex_world ex)
      | (Inl e, ex) \<Rightarrow> (Inl e, ex_world ex))"

text \<open>The completion of a read without an error; \<^const>\<open>None\<close> would be a decoder that does not return.\<close>

definition on_read ::
  "'p http_parser_lib \<Rightarrow> 'a handler \<Rightarrow> string result \<Rightarrow> string \<Rightarrow> 'p connection \<Rightarrow> 'a world
    \<Rightarrow> ('p connection result \<times> 'a world) option" where
  "on_read lib h addr buf cn w =
     (let (res, rp) = rp_parse lib buf (cn_parser cn); cn = cn\<lparr>cn_parser := rp\<rparr>
      in case res of
           HTTP_PARSER_OK \<Rightarrow>
             (case decode_message lib rp (cn_request cn) of
                None \<Rightarrow> None
              | Some (Inl e) \<Rightarrow> Some (Inl e, w)
              | Some (Inr (False, req)) \<Rightarrow>
                  Some (Inr (cn_write (stockReply BadRequest) (cn\<lparr>cn_request := req\<rparr>)), w)
              | Some (Inr (True, req)) \<Rightarrow>
                  (case addr of
                     Inl e \<Rightarrow> Some (Inl e, w)
                   | Inr a \<Rightarrow>
                       (let req1 = req\<lparr>rq_server := dict_emplace ''REMOTE_ADDR'' a (rq_server req)\<rparr>
                        in case call_application h req1 (cn_response cn) w of
                             (Inl e, w') \<Rightarrow> Some (Inl e, w')
                           | (Inr (req2, res2), w') \<Rightarrow>
                               Some (Inr (cn_write res2 (cn\<lparr>cn_request := req2\<rparr>)), w'))))
         | HTTP_PARSER_ERROR \<Rightarrow> Some (Inr (cn_write (stockReply BadRequest) cn), w)
         | HTTP_PARSER_INDETERMINATE \<Rightarrow> Some (Inr cn, w))"

section \<open>The server\<close>

text \<open>
  Connections are known by the order in which they were accepted.  A fault that leaves a completion
  handler ends the thread and with it the program.
\<close>

record ('p, 'a) server =
  sv_conns :: "nat \<Rightarrow> 'p connection option"
  sv_next :: nat
  sv_managed :: "nat set"
  sv_acceptor_open :: bool
  sv_accept_pending :: bool
  sv_accepting :: bool
  sv_pool :: io_service_pool
  sv_signals_service :: nat
  sv_acceptor_service :: nat
  sv_socket_service :: nat
  sv_world :: "'a world"
  sv_crashed :: "fault option"

text \<open>The constructor: the pool hands out a service each to the signal set, the acceptor and the socket
  that every connection is accepted into; the address has to have two parts.\<close>

definition ServerImpl :: "string \<Rightarrow> nat \<Rightarrow> 'a world \<Rightarrow> ('p, 'a) server result" where
  "ServerImpl address pool_size w =
     rbind (new_pool pool_size) (\<lambda>p0.
       let (signals, p1) = get_io_service p0;
           (acceptor, p2) = get_io_service p1;
           (socket, p3) = get_io_service p2;
           atokens = split address '':''
       in if length atokens < 2 then Inl Undefined
          else Inr \<lparr>sv_conns = \<lambda>_. None, sv_next = 0, sv_managed = {}, sv_acceptor_open = True,
            sv_accept_pending = False, sv_accepting = False, sv_pool = p3, sv_signals_service = signals,
            sv_acceptor_service = acceptor, sv_socket_service = socket, sv_world = w, sv_crashed = None\<rparr>)"

definition start_accept :: "('p, 'a) server \<Rightarrow> ('p, 'a) server" where
  "start_accept s = s\<lparr>sv_accept_pending := True\<rparr>"

definition server_run :: "('p, 'a) server \<Rightarrow> ('p, 'a) server" where
  "server_run s = (start_accept s)\<lparr>sv_pool := pool_run (sv_pool s)\<rparr>"

definition close_conn :: "nat \<Rightarrow> ('p, 'a) server \<Rightarrow> ('p, 'a) server" where
  "close_conn i s = s\<lparr>sv_conns := (sv_conns s)(i := map_option (\<lambda>c. c\<lparr>cn_open := False\<rparr>) (sv_conns s i))\<rparr>"

text \<open>The manager.\<close>

definition manager_start :: "'p connection \<Rightarrow> ('p, 'a) server \<Rightarrow> ('p, 'a) server" where
  "manager_start c s =
     s\<lparr>sv_conns := (sv_conns s)(sv_next s \<mapsto> c), sv_managed := insert (sv_next s) (sv_managed s),
       sv_next := sv_next s + 1\<rparr>"

definition manager_stop :: "nat \<Rightarrow> ('p, 'a) server \<Rightarrow> ('p, 'a) server" where
  "manager_stop i s = close_conn i (s\<lparr>sv_managed := sv_managed s - {i}\<rparr>)"

definition manager_stop_all :: "('p, 'a) server \<Rightarrow> ('p, 'a) server" where
  "manager_stop_all s =
     s\<lparr>sv_conns := (\<lambda>i. if i \<in> sv_managed s then map_option (\<lambda>c. c\<lparr>cn_open := False\<rparr>) (sv_conns s i) else sv_conns s i),
       sv_managed := {}\<rparr>"

definition handle_stop :: "('p, 'a) server \<Rightarrow> ('p, 'a) server" where
  "handle_stop s =
     (let s1 = manager_stop_all (s\<lparr>sv_acceptor_open := False\<rparr>)
      in s1\<lparr>sv_pool := pool_stop (sv_pool s1)\<rparr>)"

definition set_conn :: "nat \<Rightarrow> 'p connection \<Rightarrow> ('p, 'a) server \<Rightarrow> ('p, 'a) server" where
  "set_conn i c s = s\<lparr>sv_conns := (sv_conns s)(i \<mapsto> c)\<rparr>"

text \<open>How an asynchronous operation on a socket ends, other than well: aborted or in error.\<close>

datatype io_end = Aborted_op | Failed_op

datatype label =
    Accepted_ok
  | Accepted_error
  | Accept_checked
  | Accept_started bool
  | Read_ok nat "string result" string
  | Read_end nat io_end
  | Write_ok nat
  | Write_end nat io_end
  | Signal

definition live :: "('p, 'a) server \<Rightarrow> bool" where
  "live s \<longleftrightarrow> sv_crashed s = None"

definition working :: "('p, 'a) server \<Rightarrow> bool" where
  "working s \<longleftrightarrow> live s \<and> \<not> pool_returns (sv_pool s)"

inductive server_step ::
  "'p http_parser_lib \<Rightarrow> 'a handler \<Rightarrow> ('p, 'a) server \<Rightarrow> label \<Rightarrow> ('p, 'a) server \<Rightarrow> bool"
  for lib :: "'p http_parser_lib" and h :: "'a handler"
where
  accept_error:
    "working s \<Longrightarrow> sv_accept_pending s \<Longrightarrow> \<not> sv_accepting s \<Longrightarrow> sv_acceptor_open s \<Longrightarrow>
     server_step lib h s Accepted_error (start_accept s)"
| accept_closed:
    "working s \<Longrightarrow> sv_accept_pending s \<Longrightarrow> \<not> sv_accepting s \<Longrightarrow> \<not> sv_acceptor_open s \<Longrightarrow>
     server_step lib h s Accepted_ok (s\<lparr>sv_accept_pending := False\<rparr>)"
| accept_checked:
    "working s \<Longrightarrow> sv_accept_pending s \<Longrightarrow> \<not> sv_accepting s \<Longrightarrow> sv_acceptor_open s \<Longrightarrow>
     server_step lib h s Accept_checked (s\<lparr>sv_accepting := True\<rparr>)"
| accept_started:
    "live s \<Longrightarrow> sv_accepting s \<Longrightarrow>
     server_step lib h s (Accept_started garbage)
       (start_accept (manager_start (new_connection lib garbage (sv_socket_service s)) (s\<lparr>sv_accepting := False\<rparr>)))"
| read_ok:
    "working s \<Longrightarrow> sv_conns s i = Some c \<Longrightarrow> cn_phase c = Reading \<Longrightarrow>
     on_read lib h addr buf c (sv_world s) = Some (Inr c', w) \<Longrightarrow>
     server_step lib h s (Read_ok i addr buf) ((set_conn i c' s)\<lparr>sv_world := w\<rparr>)"
| read_crash:
    "working s \<Longrightarrow> sv_conns s i = Some c \<Longrightarrow> cn_phase c = Reading \<Longrightarrow>
     on_read lib h addr buf c (sv_world s) = Some (Inl e, w) \<Longrightarrow>
     server_step lib h s (Read_ok i addr buf) (s\<lparr>sv_world := w, sv_crashed := Some e\<rparr>)"
| read_aborted:
    "working s \<Longrightarrow> sv_conns s i = Some c \<Longrightarrow> cn_phase c = Reading \<Longrightarrow> \<not> cn_open c \<Longrightarrow>
     server_step lib h s (Read_end i Aborted_op) (set_conn i (c\<lparr>cn_phase := Finished\<rparr>) s)"
| read_failed:
    "working s \<Longrightarrow> sv_conns s i = Some c \<Longrightarrow> cn_phase c = Reading \<Longrightarrow>
     server_step lib h s (Read_end i Failed_op) (manager_stop i (set_conn i (c\<lparr>cn_phase := Finished\<rparr>) s))"
| write_ok:
    "working s \<Longrightarrow> sv_conns s i = Some c \<Longrightarrow> cn_phase c = Writing out \<Longrightarrow>
     server_step lib h s (Write_ok i) (manager_stop i (set_conn i (c\<lparr>cn_phase := Finished\<rparr>) s))"
| write_aborted:
    "working s \<Longrightarrow> sv_conns s i = Some c \<Longrightarrow> cn_phase c = Writing out \<Longrightarrow> \<not> cn_open c \<Longrightarrow>
     server_step lib h s (Write_end i Aborted_op) (set_conn i (c\<lparr>cn_phase := Finished\<rparr>) s)"
| write_failed:
    "working s \<Longrightarrow> sv_conns s i = Some c \<Longrightarrow> cn_phase c = Writing out \<Longrightarrow>
     server_step lib h s (Write_end i Failed_op) (manager_stop i (set_conn i (c\<lparr>cn_phase := Finished\<rparr>) s))"
| signal:
    "live s \<Longrightarrow> server_step lib h s Signal (handle_stop s)"

inductive_cases server_step_E: "server_step lib h s l s'"
inductive_simps server_step_signal: "server_step lib h s Signal s'"

inductive run :: "'p http_parser_lib \<Rightarrow> 'a handler \<Rightarrow> ('p, 'a) server \<Rightarrow> label list \<Rightarrow> ('p, 'a) server \<Rightarrow> bool"
  for lib :: "'p http_parser_lib" and h :: "'a handler" and s0 :: "('p, 'a) server"
where
  run_Nil: "run lib h s0 [] s0"
| run_snoc: "run lib h s0 ls s \<Longrightarrow> server_step lib h s l s' \<Longrightarrow> run lib h s0 (ls @ [l]) s'"

section \<open>Lemmas about one connection\<close>

lemma on_read_keeps:
  "on_read lib h addr buf c w = Some (Inr c', w') \<Longrightarrow>
     cn_open c' = cn_open c \<and> cn_service c' = cn_service c \<and> (cn_phase c' = cn_phase c \<or> (\<exists>out. cn_phase c' = Writing out))"
  by (auto simp: on_read_def cn_write_def Let_def split: prod.splits parse_result.splits option.splits
      sum.splits bool.splits)

section \<open>The manager's invariant\<close>

text \<open>
  The managed connections are the open ones; every open connection waits for a read or a write; all run on one
  service; the connections beyond the counter do not exist.
\<close>

definition conn_ok :: "nat \<Rightarrow> 'p connection \<Rightarrow> bool" where
  "conn_ok service c \<longleftrightarrow> (cn_open c \<longrightarrow> cn_phase c \<noteq> Finished) \<and> cn_service c = service"

definition managed_ok :: "('p, 'a) server \<Rightarrow> bool" where
  "managed_ok s \<longleftrightarrow>
     (\<forall>i. i \<in> sv_managed s \<longleftrightarrow> (\<exists>c. sv_conns s i = Some c \<and> cn_open c)) \<and>
     (\<forall>i c. sv_conns s i = Some c \<longrightarrow> i < sv_next s \<and> conn_ok (sv_socket_service s) c)"

lemma managed_start:
  "managed_ok s \<Longrightarrow> managed_ok (manager_start (new_connection lib g (sv_socket_service s)) s)"
  by (auto simp: managed_ok_def manager_start_def new_connection_def conn_ok_def less_Suc_eq)

lemma managed_finish:
  "managed_ok s \<Longrightarrow> sv_conns s i = Some c \<Longrightarrow> managed_ok (manager_stop i (set_conn i (c\<lparr>cn_phase := Finished\<rparr>) s))"
  by (auto simp: managed_ok_def manager_stop_def close_conn_def set_conn_def conn_ok_def split: if_splits)

lemma managed_stop_all: "managed_ok s \<Longrightarrow> managed_ok (manager_stop_all s)"
  by (fastforce simp: managed_ok_def manager_stop_all_def conn_ok_def)

lemma managed_set:
  "managed_ok s \<Longrightarrow> sv_conns s i = Some c \<Longrightarrow> cn_open c' = cn_open c \<Longrightarrow> conn_ok (sv_socket_service s) c' \<Longrightarrow>
   managed_ok (set_conn i c' s)"
  by (auto simp: managed_ok_def set_conn_def)

lemma managed_other: "managed_ok s \<Longrightarrow> sv_conns s' = sv_conns s \<Longrightarrow> sv_managed s' = sv_managed s \<Longrightarrow>
  sv_next s' = sv_next s \<Longrightarrow> sv_socket_service s' = sv_socket_service s \<Longrightarrow> managed_ok s'"
  by (simp add: managed_ok_def)

lemma managed_conn: "managed_ok s \<Longrightarrow> sv_conns s i = Some c \<Longrightarrow> conn_ok (sv_socket_service s) c"
  by (simp add: managed_ok_def)

lemma managed_step:
  assumes "server_step lib h s l s'" "managed_ok s"
  shows "managed_ok s' \<and> sv_socket_service s' = sv_socket_service s"
  using assms(1)
proof (cases rule: server_step.cases)
  case (accept_started garbage)
  have "managed_ok (s\<lparr>sv_accepting := False\<rparr>)" using assms(2) by (simp add: managed_ok_def)
  from managed_start [OF this, of lib garbage] show ?thesis
    unfolding accept_started start_accept_def by (simp add: managed_ok_def manager_start_def)
next
  case (read_ok i c addr buf c' w)
  note keeps = on_read_keeps [OF read_ok(6)]
  have "cn_phase c' \<noteq> Finished" using keeps read_ok(5) by auto
  then have "conn_ok (sv_socket_service s) c'"
    using keeps managed_conn [OF assms(2) read_ok(4)] by (simp add: conn_ok_def)
  then have "managed_ok (set_conn i c' s)"
    using keeps by (intro managed_set [OF assms(2) read_ok(4)]) simp_all
  then show ?thesis unfolding read_ok by (simp add: managed_ok_def set_conn_def)
next
  case signal
  have "managed_ok (s\<lparr>sv_acceptor_open := False\<rparr>)" using assms(2) by (simp add: managed_ok_def)
  from managed_stop_all [OF this] show ?thesis
    unfolding signal handle_stop_def Let_def by (simp add: managed_ok_def manager_stop_all_def)
next
  case (read_aborted i c)
  then show ?thesis
    using managed_set [OF assms(2) read_aborted(4)] managed_conn [OF assms(2) read_aborted(4)]
    by (simp add: conn_ok_def set_conn_def)
next
  case (write_aborted i c out)
  then show ?thesis
    using managed_set [OF assms(2) write_aborted(4)] managed_conn [OF assms(2) write_aborted(4)]
    by (simp add: conn_ok_def set_conn_def)
next
  case (read_failed i c)
  then show ?thesis
    using managed_finish [OF assms(2)] by (simp add: manager_stop_def close_conn_def set_conn_def)
next
  case (write_ok i c out)
  then show ?thesis
    using managed_finish [OF assms(2)] by (simp add: manager_stop_def close_conn_def set_conn_def)
next
  case (write_failed i c out)
  then show ?thesis
    using managed_finish [OF assms(2)] by (simp add: manager_stop_def close_conn_def set_conn_def)
qed (use assms(2) in \<open>auto simp: start_accept_def intro: managed_other\<close>)

lemma managed_run:
  "run lib h s0 ls s \<Longrightarrow> managed_ok s0 \<Longrightarrow> managed_ok s \<and> sv_socket_service s = sv_socket_service s0"
  by (induction rule: run.induct) (auto dest: managed_step)

lemma new_server:
  assumes "ServerImpl address n w = Inr s"
  shows "managed_ok (server_run s) \<and> sv_socket_service s = 2 mod n \<and> sv_acceptor_service s = 1 mod n \<and>
    sv_signals_service s = 0"
proof -
  obtain p0 where p0: "new_pool n = Inr p0" using assms by (cases "new_pool n") (simp_all add: ServerImpl_def)
  note ok = new_pool_ok [OF p0]
  let ?p1 = "snd (get_io_service p0)"
  let ?p2 = "snd (get_io_service ?p1)"
  have "[fst (get_io_service p0), fst (get_io_service ?p1), fst (get_io_service ?p2)] = get_many 3 p0"
    by (simp add: numeral_3_eq_3 split_beta)
  also have "\<dots> = map (\<lambda>j. (0 + j) mod n) [0..<3]" using get_many_turns [of p0 3] ok by simp
  also have "[0..<3] = [0, 1, 2 :: nat]" by (simp add: upt_rec)
  finally have "fst (get_io_service p0) = 0" "fst (get_io_service ?p1) = 1 mod n" "fst (get_io_service ?p2) = 2 mod n"
    by (simp_all only: list.map list.inject add_0 mod_0)
  then show ?thesis
    using assms p0 by (auto simp: ServerImpl_def server_run_def start_accept_def managed_ok_def split_beta Let_def
        split: if_splits)
qed

section \<open>A connection only goes forward\<close>

text \<open>Reading comes before writing and finished comes last; two different replies are not comparable.\<close>

instantiation conn_phase :: order
begin

definition less_eq_conn_phase :: "conn_phase \<Rightarrow> conn_phase \<Rightarrow> bool" where
  "less_eq_conn_phase p q \<longleftrightarrow> p = q \<or> p = Reading \<or> q = Finished"

definition less_conn_phase :: "conn_phase \<Rightarrow> conn_phase \<Rightarrow> bool" where
  "less_conn_phase p q \<longleftrightarrow> p \<noteq> q \<and> (p = Reading \<or> q = Finished)"

instance
  by standard (auto simp: less_eq_conn_phase_def less_conn_phase_def)

end

lemmas phase_le = less_eq_conn_phase_def

text \<open>What a step does to a connection there is: it stays, its phase does not go back, and it is not opened again.\<close>

definition forward :: "'p connection option \<Rightarrow> 'p connection option \<Rightarrow> bool" where
  "forward c c' \<longleftrightarrow> (\<forall>x. c = Some x \<longrightarrow>
     (\<exists>y. c' = Some y \<and> cn_phase x \<le> cn_phase y \<and> (cn_open y \<longrightarrow> cn_open x) \<and> cn_service y = cn_service x))"

lemma forward_refl [simp]: "forward c c"
  by (simp add: forward_def)

lemma forward_trans: "forward a b \<Longrightarrow> forward b c \<Longrightarrow> forward a c"
  by (cases a; cases b; cases c) (auto simp: forward_def intro: order_trans)

lemma forward_close [simp]: "forward c (map_option (\<lambda>c. c\<lparr>cn_open := False\<rparr>) c)"
  by (simp add: forward_def)

lemma forward_set:
  "sv_conns s i = Some c \<Longrightarrow> forward (Some c) (Some c') \<Longrightarrow> forward (sv_conns s j) (sv_conns (set_conn i c' s) j)"
  by (simp add: set_conn_def)

lemma forward_finish:
  "sv_conns s i = Some c \<Longrightarrow>
     forward (sv_conns s j) (sv_conns (manager_stop i (set_conn i (c\<lparr>cn_phase := Finished\<rparr>) s)) j)"
  by (simp add: manager_stop_def close_conn_def set_conn_def) (simp add: forward_def phase_le)

lemma step_forward:
  assumes "server_step lib h s l s'" "managed_ok s"
  shows "forward (sv_conns s j) (sv_conns s' j)"
  using assms(1)
proof (cases rule: server_step.cases)
  case (accept_started garbage)
  have "sv_conns s (sv_next s) = None"
    using assms(2) by (cases "sv_conns s (sv_next s)") (auto simp: managed_ok_def)
  then show ?thesis
    unfolding accept_started start_accept_def by (auto simp: manager_start_def forward_def)
next
  case (read_ok i c addr buf c' w)
  have "forward (Some c) (Some c')"
    using on_read_keeps [OF read_ok(6)] read_ok(5) by (auto simp: forward_def phase_le)
  then show ?thesis using forward_set [OF read_ok(4)] by (simp add: read_ok(2))
next
  case (read_aborted i c)
  have "forward (Some c) (Some (c\<lparr>cn_phase := Finished\<rparr>))" by (simp add: forward_def phase_le)
  then show ?thesis using forward_set [OF read_aborted(4)] by (simp add: read_aborted(2))
next
  case (write_aborted i c out)
  have "forward (Some c) (Some (c\<lparr>cn_phase := Finished\<rparr>))" by (simp add: forward_def phase_le)
  then show ?thesis using forward_set [OF write_aborted(4)] by (simp add: write_aborted(2))
next
  case signal
  then show ?thesis by (simp add: handle_stop_def manager_stop_all_def Let_def)
qed (simp_all add: start_accept_def forward_finish)

lemma run_forward:
  assumes "run lib h s0 ls s" "managed_ok s0"
  shows "forward (sv_conns s0 j) (sv_conns s j)"
  using assms
proof (induction rule: run.induct)
  case (run_snoc ls s l s')
  then show ?case
    using step_forward [OF run_snoc.hyps(2), of j] managed_run [OF run_snoc.hyps(1)] by (blast intro: forward_trans)
qed simp

section \<open>Properties\<close>

text \<open>C3: In every state the server can reach, the connections the manager holds are exactly the open ones, every
  open connection is waiting for a read or has a reply to write, and stopping the server closes every
  connection there is, the acceptor and the pool, after which \<^verbatim>\<open>run\<close> returns.  All connections run
  on one service, number 2 modulo the size of the pool, however large the pool is.\<close>

theorem server_manages_connections:
  assumes "ServerImpl address n w = Inr s0" "run lib h (server_run s0) ls s"
  shows "(\<forall>i. i \<in> sv_managed s \<longleftrightarrow> (\<exists>c. sv_conns s i = Some c \<and> cn_open c)) \<and>
    (\<forall>i c. sv_conns s i = Some c \<longrightarrow> (cn_open c \<longrightarrow> cn_phase c \<noteq> Finished) \<and> cn_service c = 2 mod n) \<and>
    (\<forall>s'. server_step lib h s Signal s' \<longrightarrow>
      sv_managed s' = {} \<and> (\<forall>i c. sv_conns s' i = Some c \<longrightarrow> \<not> cn_open c) \<and>
      \<not> sv_acceptor_open s' \<and> pool_returns (sv_pool s'))"
proof -
  have new: "managed_ok (server_run s0)" "sv_socket_service (server_run s0) = 2 mod n"
    using new_server [OF assms(1)] by (simp_all add: server_run_def start_accept_def)
  then have ok: "managed_ok s" "sv_socket_service s = 2 mod n"
    using managed_run [OF assms(2)] by simp_all
  have "sv_managed s' = {} \<and> (\<forall>i c. sv_conns s' i = Some c \<longrightarrow> \<not> cn_open c) \<and>
      \<not> sv_acceptor_open s' \<and> pool_returns (sv_pool s')" if "server_step lib h s Signal s'" for s'
  proof -
    have s': "s' = handle_stop s" using that by (simp add: server_step_signal)
    have m: "sv_managed s' = {}"
      by (simp add: s' handle_stop_def manager_stop_all_def Let_def)
    moreover have "managed_ok s'" using managed_step [OF that ok(1)] by simp
    ultimately have "\<forall>i c. sv_conns s' i = Some c \<longrightarrow> \<not> cn_open c" by (auto simp: managed_ok_def)
    then show ?thesis
      using m by (simp add: s' handle_stop_def manager_stop_all_def Let_def pool_returns_def pool_stop_def list_all_iff)
  qed
  moreover have "\<forall>i c. sv_conns s i = Some c \<longrightarrow> (cn_open c \<longrightarrow> cn_phase c \<noteq> Finished) \<and> cn_service c = 2 mod n"
    using ok by (auto simp: managed_ok_def conn_ok_def)
  ultimately show ?thesis using ok(1) by (simp add: managed_ok_def)
qed

theorem server_manages_connections_witness:
  "\<exists>s0 :: (unit, unit) server. ServerImpl ''localhost:80'' 4 sample_world = Inr s0 \<and> sv_managed (server_run s0) = {} \<and>
     (\<forall>s'. server_step sample_lib (\<lambda>ex. (Inr (), ex)) (server_run s0) Signal s' \<longrightarrow> pool_returns (sv_pool s'))"
proof -
  have "split ''localhost:80'' '':'' = [''localhost'', ''80'']" by code_simp
  then obtain s0 :: "(unit, unit) server" where s0: "ServerImpl ''localhost:80'' 4 sample_world = Inr s0" "sv_managed s0 = {}"
    by (simp add: ServerImpl_def new_pool_def get_io_service_def)
  from server_manages_connections [OF s0(1) run_Nil] s0 show ?thesis
    by (simp add: server_run_def start_accept_def)
qed

text \<open>A server of four services that has been started.\<close>

definition running_server :: "('p, unit) server" where
  "running_server =
     (case ServerImpl ''localhost:80'' 4 sample_world of Inr s \<Rightarrow> server_run s | Inl _ \<Rightarrow> undefined)"

text \<open>C34: The manager can be left with an open connection after a stop: when the signal comes between the accept
  handler's test of the acceptor and the start of the connection, which runs on another thread when the
  pool has more than one service, the new connection is added after all were closed, and no step but
  another stop is left to close it.\<close>

theorem stop_races_with_accept:
  fixes lib :: "'p http_parser_lib"
  shows "\<exists>s. run lib h running_server [Accept_checked, Signal, Accept_started g] s \<and>
     \<not> sv_acceptor_open s \<and> pool_returns (sv_pool s) \<and> sv_managed s = {0} \<and>
     (\<exists>c. sv_conns s 0 = Some c \<and> cn_open c) \<and>
     {l. \<exists>s'. server_step lib h s l s'} = {Signal} \<and>
     sv_signals_service s \<noteq> sv_acceptor_service s"
proof -
  have "split ''localhost:80'' '':'' = [''localhost'', ''80'']" by code_simp
  then have start: "running_server = \<lparr>sv_conns = \<lambda>_. None, sv_next = 0, sv_managed = {}, sv_acceptor_open = True,
      sv_accept_pending = True, sv_accepting = False,
      sv_pool = \<lparr>io_services = [Running, Running, Running, Running], next_io_service = 3\<rparr>, sv_signals_service = 0,
      sv_acceptor_service = 1, sv_socket_service = 2, sv_world = sample_world, sv_crashed = None\<rparr>"
    by (simp add: running_server_def ServerImpl_def new_pool_def get_io_service_def server_run_def start_accept_def
        pool_run_def numeral_eq_Suc)
  define s1 :: "('p, unit) server" where "s1 = running_server\<lparr>sv_accepting := True\<rparr>"
  define s2 where "s2 = handle_stop s1"
  define s3 where "s3 = start_accept (manager_start (new_connection lib g (sv_socket_service s2)) (s2\<lparr>sv_accepting := False\<rparr>))"
  have "server_step lib h running_server Accept_checked s1"
    unfolding s1_def by (rule accept_checked)
      (simp_all add: start working_def live_def pool_returns_def)
  moreover have "server_step lib h s1 Signal s2"
    unfolding s2_def by (rule signal) (simp add: s1_def start live_def)
  moreover have "server_step lib h s2 (Accept_started g) s3"
    unfolding s3_def by (rule accept_started)
      (simp_all add: s2_def s1_def start live_def handle_stop_def manager_stop_all_def)
  ultimately have "run lib h running_server ((([] @ [Accept_checked]) @ [Signal]) @ [Accept_started g]) s3"
    by (rule run_snoc [OF run_snoc [OF run_snoc [OF run_Nil]]])
  then have run: "run lib h running_server [Accept_checked, Signal, Accept_started g] s3" by simp
  have s3: "\<not> sv_acceptor_open s3" "pool_returns (sv_pool s3)" "sv_managed s3 = {0}"
    "\<exists>c. sv_conns s3 0 = Some c \<and> cn_open c" "\<not> sv_accepting s3" "sv_signals_service s3 = 0" "sv_acceptor_service s3 = 1"
    by (simp_all add: s3_def s2_def s1_def start handle_stop_def manager_stop_all_def manager_start_def start_accept_def
        pool_returns_def pool_stop_def list_all_iff new_connection_def)
  have "l = Signal" if "server_step lib h s3 l s'" for l s'
    using that
  proof (cases rule: server_step.cases)
    case (accept_started garbage)
    then show ?thesis using s3(5) by simp
  qed (use s3(2) in \<open>simp_all add: working_def\<close>)
  moreover have "server_step lib h s3 Signal (handle_stop s3)"
    by (rule signal) (simp add: s3_def s2_def s1_def start live_def start_accept_def manager_start_def handle_stop_def
        manager_stop_all_def)
  ultimately have "{l. \<exists>s'. server_step lib h s3 l s'} = {Signal}" by blast
  then show ?thesis using run s3(1-4,6,7) by (intro exI [of _ s3] conjI) simp_all
qed

definition replies :: "'p connection \<Rightarrow> response \<Rightarrow> bool" where
  "replies c res \<longleftrightarrow>
     cn_phase c = Writing (concat (response_to_buffers res (rq_method (cn_request c) = ''HEAD'')))"

lemma application_replies:
  "case call_application h req res w of
     (Inr (req', res'), w') \<Rightarrow>
       (\<exists>ex. h \<lparr>ex_req = req, ex_res = res, ex_world = w\<rparr> = (Inr (), ex) \<and> res' = ex_res ex \<and> w' = ex_world ex) \<or>
       (\<exists>m ex. h \<lparr>ex_req = req, ex_res = res, ex_world = w\<rparr> = (Inl (Runtime_error m), ex) \<and>
          res' = stockReply InternalServerError \<and> w' = ex_world ex)
   | (Inl e, w') \<Rightarrow>
       (\<exists>ex. h \<lparr>ex_req = req, ex_res = res, ex_world = w\<rparr> = (Inl e, ex) \<and> (\<forall>m. e \<noteq> Runtime_error m))"
proof -
  obtain r ex where h: "h \<lparr>ex_req = req, ex_res = res, ex_world = w\<rparr> = (r, ex)"
    by (cases "h \<lparr>ex_req = req, ex_res = res, ex_world = w\<rparr>")
  then show ?thesis by (cases r; cases "projl r") (simp_all add: call_application_def)
qed


text \<open>C12: A connection goes through its phases once: on every run it stays in its place, its phase never goes
  back, what it reads leads to at most one reply, which stays the same until it is written, and once closed
  it is never open again.\<close>

theorem connection_goes_forward:
  assumes "ServerImpl address n w = Inr s0" "run lib h (server_run s0) ls s" "run lib h s ls' s'" "sv_conns s i = Some c"
  shows "\<exists>c'. sv_conns s' i = Some c' \<and> cn_phase c \<le> cn_phase c' \<and> (cn_open c' \<longrightarrow> cn_open c) \<and>
    (\<forall>reply. cn_phase c = Writing reply \<longrightarrow> cn_phase c' = Writing reply \<or> cn_phase c' = Finished)"
proof -
  have "managed_ok s" using managed_run [OF assms(2)] new_server [OF assms(1)] by simp
  then have "forward (sv_conns s i) (sv_conns s' i)" using run_forward [OF assms(3)] by simp
  then obtain c' where "sv_conns s' i = Some c'" "cn_phase c \<le> cn_phase c'" "cn_open c' \<longrightarrow> cn_open c"
    using assms(4) by (auto simp: forward_def)
  moreover from this(2) have "\<forall>reply. cn_phase c = Writing reply \<longrightarrow> cn_phase c' = Writing reply \<or> cn_phase c' = Finished"
    by (auto simp: phase_le)
  ultimately show ?thesis by blast
qed

theorem connection_goes_forward_witness:
  "\<exists>(s :: (unit, unit) server) s' c'. run sample_lib (\<lambda>ex. (Inr (), ex)) running_server [Accept_checked, Accept_started True] s \<and>
     run sample_lib (\<lambda>ex. (Inr (), ex)) s [Signal] s' \<and> sv_conns s' 0 = Some c' \<and> Reading \<le> cn_phase c' \<and> \<not> cn_open c'"
proof -
  have "split ''localhost:80'' '':'' = [''localhost'', ''80'']" by code_simp
  then obtain s0 :: "(unit, unit) server" where s0: "ServerImpl ''localhost:80'' 4 sample_world = Inr s0"
    by (simp add: ServerImpl_def new_pool_def get_io_service_def)
  let ?h = "\<lambda>ex. (Inr (), ex)" and ?s = "running_server :: (unit, unit) server"
  have start: "?s = server_run s0" by (simp add: running_server_def s0)
  have up: "live ?s" "working ?s" "sv_accept_pending ?s" "\<not> sv_accepting ?s" "sv_acceptor_open ?s" "sv_next ?s = 0"
    using s0 unfolding start
    by (auto simp: ServerImpl_def new_pool_def get_io_service_def server_run_def start_accept_def working_def live_def
        pool_returns_def pool_run_def Let_def numeral_eq_Suc split: if_splits)
  define s1 where "s1 = ?s\<lparr>sv_accepting := True\<rparr>"
  define c where "c = new_connection sample_lib True (sv_socket_service ?s)"
  define s2 where "s2 = start_accept (manager_start c (s1\<lparr>sv_accepting := False\<rparr>))"
  have "server_step sample_lib ?h ?s Accept_checked s1" unfolding s1_def by (rule accept_checked) (use up in auto)
  moreover have "server_step sample_lib ?h s1 (Accept_started True) s2"
    using accept_started [of s1 sample_lib ?h True] up(1) by (simp add: s2_def s1_def c_def live_def)
  ultimately have "run sample_lib ?h ?s (([] @ [Accept_checked]) @ [Accept_started True]) s2"
    by (rule run_snoc [OF run_snoc [OF run_Nil]])
  then have run: "run sample_lib ?h ?s [Accept_checked, Accept_started True] s2" by simp
  have c: "sv_conns s2 0 = Some c" "cn_phase c = Reading" "sv_managed s2 = insert 0 (sv_managed ?s)"
    using up(6) by (simp_all add: s2_def s1_def c_def start_accept_def manager_start_def new_connection_def)
  have "server_step sample_lib ?h s2 Signal (handle_stop s2)"
    by (rule signal) (use up(1) in \<open>simp add: s2_def s1_def start_accept_def manager_start_def live_def\<close>)
  then have stop: "run sample_lib ?h s2 [Signal] (handle_stop s2)" using run_snoc [OF run_Nil] by fastforce
  from connection_goes_forward [OF s0 run [unfolded start] stop c(1)] c(2)
  obtain c' where "sv_conns (handle_stop s2) 0 = Some c'" "Reading \<le> cn_phase c'" by auto
  moreover from this(1) have "\<not> cn_open c'" using c(1,3) by (auto simp: handle_stop_def manager_stop_all_def)
  ultimately show ?thesis using run stop by blast
qed

end
