(* ===== verification/ResponseParser.thy ===== *)
theory ResponseParser
  imports RequestParser Response
begin

text \<open>
  \<^verbatim>\<open>src/response_parser.cpp\<close>: the client's side of HTTP.  Its callbacks are those of the request parser, with the
  status line in addition, and never the protocol; the library is the same parameter with the status code
  it has parsed.
\<close>

record 'p response_parser_lib = "'p http_parser_lib" +
  hp_status_code :: "'p \<Rightarrow> nat"

record 'p response_parser =
  rsp_parser :: 'p
  rsp_field :: string
  rsp_value :: string
  rsp_url :: string
  rsp_body :: string
  rsp_status_message :: string
  rsp_headers :: dict
  rsp_complete :: bool

definition rsp_reset :: "('p, 'z) http_parser_lib_scheme \<Rightarrow> 'p response_parser \<Rightarrow> 'p response_parser" where
  "rsp_reset lib p = p\<lparr>rsp_parser := hp_init lib, rsp_url := [], rsp_field := [], rsp_value := [], rsp_body := []\<rparr>"

definition ResponseParser :: "('p, 'z) http_parser_lib_scheme \<Rightarrow> bool \<Rightarrow> 'p response_parser" where
  "ResponseParser lib garbage =
     rsp_reset lib \<lparr>rsp_parser = hp_init lib, rsp_field = [], rsp_value = [], rsp_url = [], rsp_body = [],
       rsp_status_message = [], rsp_headers = [], rsp_complete = garbage\<rparr>"

definition rsp_flush_header :: "'p response_parser \<Rightarrow> 'p response_parser" where
  "rsp_flush_header p =
     (if rsp_value p \<noteq> []
      then p\<lparr>rsp_headers := dict_set (rsp_field p) (rsp_value p) (rsp_headers p), rsp_field := [], rsp_value := []\<rparr>
      else p)"

fun rsp_event :: "parser_event \<Rightarrow> 'p response_parser \<Rightarrow> 'p response_parser" where
  "rsp_event On_message_begin p = p\<lparr>rsp_complete := False\<rparr>"
| "rsp_event (On_url d) p = p\<lparr>rsp_url := d\<rparr>"
| "rsp_event (On_status d) p = p\<lparr>rsp_status_message := d\<rparr>"
| "rsp_event (On_header_field d) p =
     (let p1 = rsp_flush_header p in p1\<lparr>rsp_field := rsp_field p1 @ d\<rparr>)"
| "rsp_event (On_header_value d) p = p\<lparr>rsp_value := rsp_value p @ d\<rparr>"
| "rsp_event (On_headers_complete major minor) p = rsp_flush_header p"
| "rsp_event (On_body d) p = p\<lparr>rsp_body := rsp_body p @ d\<rparr>"
| "rsp_event On_message_complete p = p\<lparr>rsp_complete := True\<rparr>"

definition rsp_execute :: "('p, 'z) http_parser_lib_scheme \<Rightarrow> string \<Rightarrow> 'p response_parser \<Rightarrow> nat \<times> 'p response_parser" where
  "rsp_execute lib buf p =
     (case hp_execute lib (rsp_parser p) buf of
        (evs, used, q) \<Rightarrow> (used, (fold rsp_event evs p)\<lparr>rsp_parser := q\<rparr>))"

definition rsp_parse :: "('p, 'z) http_parser_lib_scheme \<Rightarrow> string \<Rightarrow> 'p response_parser \<Rightarrow> parse_result \<times> 'p response_parser" where
  "rsp_parse lib buf p =
     (let (used, p) = rsp_execute lib buf p;
          error = hp_errno lib (rsp_parser p);
          p = (if error = HPE_PAUSED then p\<lparr>rsp_parser := hp_pause lib False (rsp_parser p)\<rparr> else p);
          answer = (\<lambda>p. (if rsp_complete p then HTTP_PARSER_OK else HTTP_PARSER_INDETERMINATE, p))
      in if used < length buf then
           (if error = HPE_PAUSED then
              (if \<not> rsp_complete p then answer (snd (rsp_execute lib (drop used buf) p)) else answer p)
            else (HTTP_PARSER_ERROR, p))
         else answer p)"

definition rsp_decode_message :: "'p response_parser_lib \<Rightarrow> 'p response_parser \<Rightarrow> response \<Rightarrow> response" where
  "rsp_decode_message lib p resp =
     resp\<lparr>rs_headers := fold (\<lambda>(k, v). dict_emplace k v) (rsp_headers p) (rs_headers resp),
          rs_content := rsp_body p, rs_status := hp_status_code lib (rsp_parser p)\<rparr>"

section \<open>The client collects what the server would\<close>

text \<open>A response parser seen as a request parser that keeps no protocol.  Event by event the two do the
  same, so the lemmas on how the request parser assembles headers hold here.\<close>

definition as_request :: "'p response_parser \<Rightarrow> 'p request_parser" where
  "as_request p = \<lparr>rp_parser = rsp_parser p, rp_field = rsp_field p, rp_value = rsp_value p, rp_url = rsp_url p,
     rp_body = rsp_body p, rp_protocol = [], rp_headers = rsp_headers p, rp_complete = rsp_complete p\<rparr>"

lemmas event_defs = on_message_begin_def on_url_def on_header_field_def on_header_value_def on_headers_complete_def
  on_body_def on_message_complete_def flush_header_def rsp_flush_header_def Let_def

lemma rsp_event_simulates: "as_request (rsp_event e p) = (handle_event e (as_request p))\<lparr>rp_protocol := []\<rparr>"
  by (cases e) (simp_all add: as_request_def event_defs)

lemma handle_event_protocol:
  "(handle_event e (rp\<lparr>rp_protocol := x\<rparr>))\<lparr>rp_protocol := y\<rparr> = (handle_event e rp)\<lparr>rp_protocol := y\<rparr>"
  by (cases e) (simp_all add: event_defs)

lemma handle_events_protocol:
  "(handle_events evs (rp\<lparr>rp_protocol := x\<rparr>))\<lparr>rp_protocol := y\<rparr> = (handle_events evs rp)\<lparr>rp_protocol := y\<rparr>"
proof (induction evs arbitrary: rp x)
  case Nil
  show ?case by (simp add: handle_events_def)
next
  case (Cons e evs)
  have "(handle_events (e # evs) (rp\<lparr>rp_protocol := x\<rparr>))\<lparr>rp_protocol := y\<rparr> =
      (handle_events evs ((handle_event e (rp\<lparr>rp_protocol := x\<rparr>))\<lparr>rp_protocol := []\<rparr>))\<lparr>rp_protocol := y\<rparr>"
    using Cons.IH [of "[]" "handle_event e (rp\<lparr>rp_protocol := x\<rparr>)"] by (simp add: handle_events_def)
  also have "\<dots> = (handle_events evs ((handle_event e rp)\<lparr>rp_protocol := []\<rparr>))\<lparr>rp_protocol := y\<rparr>"
    by (simp only: handle_event_protocol)
  also have "\<dots> = (handle_events (e # evs) rp)\<lparr>rp_protocol := y\<rparr>"
    using Cons.IH [of "[]" "handle_event e rp"] by (simp add: handle_events_def)
  finally show ?case .
qed

lemma rsp_events_simulate:
  "as_request (fold rsp_event evs p) = (handle_events evs (as_request p))\<lparr>rp_protocol := []\<rparr>"
proof (induction evs arbitrary: p)
  case Nil
  show ?case by (simp add: handle_events_def as_request_def)
next
  case (Cons e evs)
  show ?case using Cons.IH [of "rsp_event e p"]
    by (simp add: rsp_event_simulates handle_events_protocol) (simp add: handle_events_def)
qed

section \<open>The events of a response\<close>

text \<open>What the library reports of a message: the status, the pieces of the headers and of the body.\<close>

definition message_head ::
  "string list \<Rightarrow> (string list \<times> string list) list \<Rightarrow> nat \<Rightarrow> nat \<Rightarrow> string list \<Rightarrow> parser_event list" where
  "message_head sts hs a b bs =
     [On_message_begin] @ map On_status sts @ header_events hs @ [On_headers_complete a b] @ map On_body bs"

definition message_events ::
  "string list \<Rightarrow> (string list \<times> string list) list \<Rightarrow> nat \<Rightarrow> nat \<Rightarrow> string list \<Rightarrow> parser_event list" where
  "message_events sts hs a b bs = message_head sts hs a b bs @ [On_message_complete]"

definition pieces_of :: "dict \<Rightarrow> (string list \<times> string list) list \<Rightarrow> bool" where
  "pieces_of d hs \<longleftrightarrow> map (\<lambda>(fs, vs). (concat fs, concat vs)) hs = d \<and>
     (\<forall>(fs, vs) \<in> set hs. fs \<noteq> [] \<and> concat vs \<noteq> [])"

lemma handle_statuses: "handle_events (map On_status sts) rp = rp"
  by (induction sts) (simp_all add: handle_events_def)

lemma store_headers: "fold store_header hs m = fold (\<lambda>(k, v). dict_set k v) (map (\<lambda>(fs, vs). (concat fs, concat vs)) hs) m"
  by (induction hs arbitrary: m) (auto simp: store_header_def)

lemma head_collected:
  assumes "pieces_of d hs" "dict_ok d" "p = fold rsp_event (message_head sts hs a b bs) (ResponseParser lib g)"
  shows "rsp_headers p = d" "rsp_body p = concat bs" "\<not> rsp_complete p"
proof -
  let ?rp = "(as_request (ResponseParser lib g))\<lparr>rp_complete := False\<rparr>"
  have rp: "rp_field ?rp = []" "rp_value ?rp = []" "rp_headers ?rp = []" "rp_body ?rp = []"
    by (simp_all add: as_request_def ResponseParser_def rsp_reset_def)
  have "flush_header ?rp = ?rp" using rp(2) by (simp add: flush_header_def)
  then have hs: "flush_header (handle_events (header_events hs) ?rp) = ?rp\<lparr>rp_headers := d\<rparr>"
    using header_events_collect [of hs ?rp] assms(1) rp fold_set_self [OF assms(2)]
    by (simp add: pieces_of_def store_headers)
  have "handle_events (message_head sts hs a b bs) (as_request (ResponseParser lib g)) =
      handle_events (map On_body bs) (on_headers_complete a b (handle_events (header_events hs) ?rp))"
    unfolding message_head_def handle_events_append handle_statuses
    by (simp add: handle_events_def on_message_begin_def)
  also have "\<dots> = ?rp\<lparr>rp_headers := d, rp_protocol := ''HTTP/'' @ nat_digits a @ ''.'' @ nat_digits b,
      rp_body := concat bs\<rparr>"
    using rp(4) by (simp add: on_headers_complete_def hs bodies_collect)
  finally have "as_request p = ?rp\<lparr>rp_headers := d, rp_protocol := [], rp_body := concat bs\<rparr>"
    by (simp add: assms(3) rsp_events_simulate)
  then show "rsp_headers p = d" "rsp_body p = concat bs" "\<not> rsp_complete p" by (simp_all add: as_request_def)
qed

lemma message_collected:
  assumes "pieces_of d hs" "dict_ok d" "p = fold rsp_event (message_events sts hs a b bs) (ResponseParser lib g)"
  shows "rsp_headers p = d" "rsp_body p = concat bs" "rsp_complete p"
  using head_collected [OF assms(1,2) refl] by (simp_all add: assms(3) message_events_def)

lemma head_incomplete: "On_message_complete \<notin> set (message_head sts hs a b bs)"
  by (auto simp: message_head_def header_events_def)

text \<open>Until the end of the message is reported, the parser is not complete.\<close>

lemma stays_incomplete:
  "On_message_complete \<notin> set evs \<Longrightarrow> \<not> rsp_complete p \<Longrightarrow> \<not> rsp_complete (fold rsp_event evs p)"
proof (induction evs arbitrary: p)
  case (Cons e evs)
  then have "\<not> rsp_complete (rsp_event e p)" by (cases e) (auto simp: rsp_flush_header_def Let_def)
  with Cons show ?case by simp
qed simp

lemma incomplete_until_end:
  "hd evs = On_message_begin \<Longrightarrow> evs \<noteq> [] \<Longrightarrow> On_message_complete \<notin> set evs \<Longrightarrow>
     \<not> rsp_complete (fold rsp_event evs p)"
  using stays_incomplete [of "tl evs" "rsp_event On_message_begin p"] by (cases evs) auto

end
