(* ===== verification/HttpClient.thy ===== *)
theory HttpClient
  imports ResponseParser
begin

text \<open>
  \<^verbatim>\<open>src/http_client.cpp\<close> and \<^verbatim>\<open>src/http_client_request.cpp\<close>: the blocking HTTP client.  A request is printed
  on a connection chosen by the protocol of its URL; the answer is read in blocks of 16384 bytes and fed to
  the response parser until that is complete or the connection ends.  The network is a parameter: whether
  a host is reached, whether the bytes are taken, and what comes back for them up to the end of the
  connection.
\<close>

section \<open>Requests\<close>

datatype Method = GET | POST | PUT | DELETE | PATCH | HEAD | OPTIONS | TRACE

record client_request =
  cr_url :: url
  cr_headers :: dict
  cr_method :: Method
  cr_body :: string
  cr_mime :: string

definition HTTPClientRequest :: "url \<Rightarrow> client_request" where
  "HTTPClientRequest u = \<lparr>cr_url = u, cr_headers = [], cr_method = GET, cr_body = [], cr_mime = []\<rparr>"

definition HTTPClientRequest_string :: "string \<Rightarrow> client_request result" where
  "HTTPClientRequest_string s = rmap HTTPClientRequest (URL s)"

definition cr_setURL :: "url \<Rightarrow> client_request \<Rightarrow> client_request" where
  "cr_setURL u r = r\<lparr>cr_url := u\<rparr>"

definition cr_setHeader :: "string \<Rightarrow> string \<Rightarrow> client_request \<Rightarrow> client_request" where
  "cr_setHeader key val r = r\<lparr>cr_headers := dict_emplace key val (cr_headers r)\<rparr>"

definition cr_setMethod :: "Method \<Rightarrow> client_request \<Rightarrow> client_request" where
  "cr_setMethod m r = r\<lparr>cr_method := m\<rparr>"

definition cr_setBody :: "string \<Rightarrow> string \<Rightarrow> client_request \<Rightarrow> client_request" where
  "cr_setBody contentType content r = r\<lparr>cr_body := content, cr_mime := contentType\<rparr>"

definition setBodyURLEncoded :: "dict \<Rightarrow> client_request \<Rightarrow> client_request" where
  "setBodyURLEncoded params r =
     r\<lparr>cr_body := foldl (\<lambda>body (k, v). (if body \<noteq> [] then body @ ''&'' else body) @
                                 url_encode k @ ''='' @ url_encode v) (cr_body r) params,
       cr_mime := ''application/x-www-form-urlencoded''\<rparr>"

fun methodString :: "Method \<Rightarrow> string" where
  "methodString GET = ''GET''"
| "methodString POST = ''POST''"
| "methodString DELETE = ''DELETE''"
| "methodString PATCH = ''PATCH''"
| "methodString PUT = ''PUT''"
| "methodString HEAD = ''HEAD''"
| "methodString OPTIONS = ''OPTIONS''"
| "methodString TRACE = ''TRACE''"

section \<open>The network\<close>

datatype connection_class = Connection | ConnectionSSL

fun service_of :: "connection_class \<Rightarrow> string" where
  "service_of Connection = ''http''"
| "service_of ConnectionSSL = ''https''"

text \<open>How the incoming bytes end: the peer closes, or the read fails.\<close>

datatype read_end = Closed_by_peer | Read_error

text \<open>Connecting (by service name and host) and writing fail with a message, or succeed.\<close>

record network =
  nt_connect :: "string \<Rightarrow> string \<Rightarrow> string option"
  nt_write :: "connection_class \<Rightarrow> string \<Rightarrow> string option"
  nt_reply :: "connection_class \<Rightarrow> string \<Rightarrow> string \<Rightarrow> string \<times> read_end"

definition client_connect :: "url \<Rightarrow> connection_class option" where
  "client_connect u =
     (if url_protocol u = ''http'' then Some Connection
      else if url_protocol u = ''https'' then Some ConnectionSSL
      else None)"

definition con_connect :: "network \<Rightarrow> connection_class \<Rightarrow> string \<Rightarrow> unit result" where
  "con_connect net c host =
     (case nt_connect net (service_of c) host of None \<Rightarrow> Inr () | Some e \<Rightarrow> Inl (Runtime_error e))"

definition con_write :: "network \<Rightarrow> connection_class \<Rightarrow> string \<Rightarrow> unit result" where
  "con_write net c bytes =
     (case nt_write net c bytes of None \<Rightarrow> Inr () | Some e \<Rightarrow> Inl (Runtime_error e))"

text \<open>\<^verbatim>\<open>asio::read\<close> into an \<^verbatim>\<open>asio::streambuf\<close> of 16384 bytes: until it is full, or the end comes first.\<close>

definition buf_sz :: nat where "buf_sz = 1024 * 16"

definition con_read :: "string \<Rightarrow> read_end \<Rightarrow> string \<times> read_end option \<times> string" where
  "con_read inp e =
     (if buf_sz \<le> length inp then (take buf_sz inp, None, drop buf_sz inp) else (inp, Some e, []))"

section \<open>Executing a request\<close>

text \<open>The loop of \<^verbatim>\<open>readResponse\<close>: any error code ends it, and so does a complete message.\<close>

function read_loop :: "'p response_parser_lib \<Rightarrow> read_end \<Rightarrow> string \<Rightarrow> 'p response_parser \<Rightarrow> 'p response_parser result" where
  "read_loop lib e inp p =
     (case con_read inp e of
        (data, ec, rest) \<Rightarrow>
          (case rsp_parse lib data p of
             (res, p') \<Rightarrow>
               (if res = HTTP_PARSER_ERROR then Inl (Runtime_error ''Invalid response received'')
                else if ec = None \<and> res \<noteq> HTTP_PARSER_OK then read_loop lib e rest p'
                else Inr p')))"
  by pat_completeness auto
termination
  by (relation "measure (\<lambda>(lib, e, inp, p). length inp)") (auto simp: con_read_def buf_sz_def split: if_splits)

declare read_loop.simps [simp del]

definition readResponse :: "'p response_parser_lib \<Rightarrow> bool \<Rightarrow> string \<times> read_end \<Rightarrow> response result" where
  "readResponse lib garbage reply =
     rmap (\<lambda>p. rsp_decode_message lib p empty_response) (read_loop lib (snd reply) (fst reply) (ResponseParser lib garbage))"

definition writeHeaders :: "client_request \<Rightarrow> string" where
  "writeHeaders req = concat (map (\<lambda>(k, v). k @ '':'' @ v @ crlf) (cr_headers req))"

definition request_bytes :: "client_request \<Rightarrow> string" where
  "request_bytes req =
     methodString (cr_method req) @ '' /'' @ url_file False (cr_url req) @ '' HTTP/1.1'' @ crlf @
     ''Host: '' @ url_host (cr_url req) @ crlf @
     writeHeaders req @
     (if cr_body req \<noteq> [] then
        ''Content-Length:'' @ nat_digits (length (cr_body req)) @ crlf @
        ''Content-Type: '' @ cr_mime req @ crlf
      else []) @
     ''Accept: */*'' @ crlf @ ''Connection: close'' @ crlf @ crlf @
     (if cr_body req \<noteq> [] then cr_body req else [])"

text \<open>The bytes taken by the network, and the result; without a connection the write goes through a null
  pointer.\<close>

definition client_execute ::
  "'p response_parser_lib \<Rightarrow> bool \<Rightarrow> network \<Rightarrow> client_request \<Rightarrow> string \<times> response result" where
  "client_execute lib garbage net req =
     (case client_connect (cr_url req) of
        None \<Rightarrow> ([], Inl Undefined)
      | Some c \<Rightarrow>
          (case con_connect net c (url_host (cr_url req)) of
             Inl e \<Rightarrow> ([], Inl e)
           | Inr u \<Rightarrow>
               (case con_write net c (request_bytes req) of
                  Inl e \<Rightarrow> ([], Inl e)
                | Inr u \<Rightarrow>
                    (request_bytes req,
                     readResponse lib garbage (nt_reply net c (url_host (cr_url req)) (request_bytes req))))))"

definition client_get :: "'p response_parser_lib \<Rightarrow> bool \<Rightarrow> network \<Rightarrow> string \<Rightarrow> string \<times> response result" where
  "client_get lib garbage net s =
     (case URL s of Inl e \<Rightarrow> ([], Inl e)
      | Inr u \<Rightarrow> client_execute lib garbage net (cr_setMethod GET (HTTPClientRequest u)))"

definition client_post ::
  "'p response_parser_lib \<Rightarrow> bool \<Rightarrow> network \<Rightarrow> string \<Rightarrow> dict \<Rightarrow> string \<times> response result" where
  "client_post lib garbage net s data =
     (case URL s of Inl e \<Rightarrow> ([], Inl e)
      | Inr u \<Rightarrow> client_execute lib garbage net (setBodyURLEncoded data (cr_setMethod POST (HTTPClientRequest u))))"

section \<open>What the library reports of a reply\<close>

text \<open>The blocks a reply is read in.\<close>

function blocks :: "string \<Rightarrow> string list" where
  "blocks s = (if length s \<le> buf_sz then [s] else take buf_sz s # blocks (drop buf_sz s))"
  by pat_completeness auto
termination
  by (relation "measure length") (auto simp: buf_sz_def)

declare blocks.simps [simp del]

text \<open>All but the last block are consumed without a pause.\<close>

fun lib_run :: "('p, 'z) http_parser_lib_scheme \<Rightarrow> 'p \<Rightarrow> string list \<Rightarrow> (parser_event list \<times> 'p) option" where
  "lib_run lib q [] = Some ([], q)"
| "lib_run lib q (c # cs) =
     (case hp_execute lib q c of
        (evs, used, q') \<Rightarrow>
          if used = length c \<and> hp_errno lib q' = HPE_OK
          then map_option (\<lambda>(es, q''). (evs @ es, q'')) (lib_run lib q' cs) else None)"

text \<open>The library reports the message in some pieces, starting in the first block, ending in the last, where
  the callback pauses it; the status code is then that of the message.\<close>

definition reports_message ::
  "'p response_parser_lib \<Rightarrow> string \<Rightarrow> parser_event list \<Rightarrow> nat \<Rightarrow> bool" where
  "reports_message lib s evs status \<longleftrightarrow>
     (case lib_run lib (hp_init lib) (butlast (blocks s)) of
        None \<Rightarrow> False
      | Some (evs1, q1) \<Rightarrow>
          (case hp_execute lib q1 (last (blocks s)) of
             (evs2, used, q2) \<Rightarrow>
               evs = evs1 @ evs2 \<and> evs2 \<noteq> [] \<and> hp_errno lib q2 = HPE_PAUSED \<and> used \<le> length (last (blocks s)) \<and>
               hp_status_code lib (hp_pause lib False q2) = status \<and>
               (butlast (blocks s) = [] \<or> fst (hp_execute lib (hp_init lib) (hd (blocks s))) \<noteq> [])))"

lemma fold_rsp_parser:
  "fold rsp_event evs (p\<lparr>rsp_parser := q\<rparr>) = (fold rsp_event evs p)\<lparr>rsp_parser := q\<rparr>"
proof (induction evs arbitrary: p)
  case (Cons e evs)
  have "rsp_event e (p\<lparr>rsp_parser := q\<rparr>) = (rsp_event e p)\<lparr>rsp_parser := q\<rparr>"
    by (cases e) (simp_all add: rsp_flush_header_def Let_def)
  then show ?case by (simp add: Cons.IH)
qed simp

lemma parse_unpaused:
  assumes "hp_execute lib (rsp_parser p) c = (evs, length c, q)" "hp_errno lib q = HPE_OK"
  shows "rsp_parse lib c p =
    (let p' = (fold rsp_event evs p)\<lparr>rsp_parser := q\<rparr>
     in (if rsp_complete p' then HTTP_PARSER_OK else HTTP_PARSER_INDETERMINATE, p'))"
  using assms by (simp add: rsp_parse_def rsp_execute_def Let_def)

lemma parse_paused:
  assumes "hp_execute lib (rsp_parser p) c = (evs, used, q)" "hp_errno lib q = HPE_PAUSED"
    and "rsp_complete (fold rsp_event evs p)"
  shows "rsp_parse lib c p = (HTTP_PARSER_OK, (fold rsp_event evs p)\<lparr>rsp_parser := hp_pause lib False q\<rparr>)"
  using assms by (simp add: rsp_parse_def rsp_execute_def Let_def)

text \<open>The loop feeds the blocks one by one, as long as the message is not complete.\<close>

lemma read_loop_blocks:
  assumes "lib_run lib (rsp_parser p) (butlast (blocks inp)) = Some (evs1, q1)"
    and "hp_execute lib q1 (last (blocks inp)) = (evs2, used, q2)" "hp_errno lib q2 = HPE_PAUSED"
    and "rsp_complete (fold rsp_event (evs1 @ evs2) p)"
    and "On_message_complete \<notin> set evs1"
    and "butlast (blocks inp) \<noteq> [] \<Longrightarrow> rsp_complete p \<Longrightarrow>
           (\<exists>es. fst (hp_execute lib (rsp_parser p) (hd (blocks inp))) = On_message_begin # es)"
  shows "read_loop lib e inp p = Inr ((fold rsp_event (evs1 @ evs2) p)\<lparr>rsp_parser := hp_pause lib False q2\<rparr>)"
  using assms
proof (induction inp arbitrary: p evs1 rule: blocks.induct)
  case (1 inp)
  show ?case
  proof (cases "length inp \<le> buf_sz")
    case True
    then have b: "blocks inp = [inp]" by (simp add: blocks.simps [of inp])
    then have run: "evs1 = []" "q1 = rsp_parser p" using 1(2) by auto
    obtain ec rest where rd: "con_read inp e = (inp, ec, rest)"
      using True that by (cases "length inp = buf_sz") (auto simp: con_read_def)
    have "rsp_parse lib inp p = (HTTP_PARSER_OK, (fold rsp_event evs2 p)\<lparr>rsp_parser := hp_pause lib False q2\<rparr>)"
      using 1(3-5) run b by (intro parse_paused) auto
    then show ?thesis by (simp add: read_loop.simps [of lib e inp p] rd run)
  next
    case False
    let ?c = "take buf_sz inp" and ?rest = "drop buf_sz inp"
    have b: "blocks inp = ?c # blocks ?rest" using False by (simp add: blocks.simps [of inp])
    have ne: "blocks ?rest \<noteq> []" by (subst blocks.simps) simp
    obtain evs used' q where ex: "hp_execute lib (rsp_parser p) ?c = (evs, used', q)" by (cases "hp_execute lib (rsp_parser p) ?c")
    with 1(2) ne obtain es where run: "used' = length ?c" "hp_errno lib q = HPE_OK" "evs1 = evs @ es"
        "lib_run lib q (butlast (blocks ?rest)) = Some (es, q1)"
      by (auto simp: b split: if_splits)
    let ?p = "(fold rsp_event evs p)\<lparr>rsp_parser := q\<rparr>"
    have keep: "\<not> rsp_complete p \<Longrightarrow> \<not> rsp_complete (fold rsp_event evs p)"
      using 1(6) stays_incomplete [of evs p] by (simp add: run(3))
    have incomplete: "\<not> rsp_complete ?p"
    proof (cases "rsp_complete p")
      case True
      then obtain es' where "evs = On_message_begin # es'" using 1(7) b ne ex by auto
      then show ?thesis using incomplete_until_end [of evs p] 1(6) by (simp add: run(3))
    qed (simp add: keep)
    have "read_loop lib e inp p = read_loop lib e ?rest ?p"
      using parse_unpaused [of lib p ?c evs q] ex run(1,2) incomplete False
      by (subst read_loop.simps) (simp add: con_read_def Let_def)
    also have "\<dots> = Inr ((fold rsp_event (es @ evs2) ?p)\<lparr>rsp_parser := hp_pause lib False q2\<rparr>)"
      using 1(3-6) incomplete ne b run(3,4) False
      by (intro "1.IH") (auto simp: fold_rsp_parser)
    finally show ?thesis by (simp add: run(3) fold_rsp_parser)
  qed
qed

section \<open>Properties\<close>


text \<open>A library that reports one small response whatever it is fed, for the witnesses.\<close>

definition sample_response :: response where
  "sample_response = \<lparr>rs_headers = [(''Content-Length'', ''2'')], rs_content = ''ok'', rs_status = 200\<rparr>"

definition sample_client_lib :: "parser_event list \<Rightarrow> http_errno \<Rightarrow> unit response_parser_lib" where
  "sample_client_lib evs err = \<lparr>hp_init = (), hp_execute = \<lambda>q s. (evs, length s, q), hp_errno = \<lambda>q. err,
     hp_pause = \<lambda>b q. q, hp_method_str = \<lambda>q. [], hp_status_code = \<lambda>q. 200\<rparr>"


text \<open>C39: A reply that ends early is not noticed.  When the connection ends, in whatever way, after some of
  the body, the client returns what came so far as the response, also when the headers announce more.\<close>

theorem truncated_response_accepted:
  assumes "length inp < buf_sz" "hp_execute lib (hp_init lib) inp = (message_head sts hs a b bs, length inp, q)"
    and "hp_errno lib q = HPE_OK" "pieces_of d hs" "dict_ok d"
  shows "readResponse lib g (inp, e) =
    Inr \<lparr>rs_headers = d, rs_content = concat bs, rs_status = hp_status_code lib q\<rparr>"
proof -
  let ?p = "ResponseParser lib g"
  have "rsp_parser ?p = hp_init lib" by (simp add: ResponseParser_def rsp_reset_def)
  then have "rsp_parse lib inp ?p = (HTTP_PARSER_INDETERMINATE, (fold rsp_event (message_head sts hs a b bs) ?p)\<lparr>rsp_parser := q\<rparr>)"
    using head_collected(3) [OF assms(4,5) refl] assms(2,3) by (simp add: parse_unpaused Let_def)
  moreover have "con_read inp e = (inp, Some e, [])" using assms(1) by (simp add: con_read_def)
  ultimately show ?thesis
    using head_collected(1,2) [OF assms(4,5) refl, of sts a b bs lib g]
    by (simp add: readResponse_def read_loop.simps [of lib e inp] rsp_decode_message_def empty_response_def
        fold_emplace_self assms(5))
qed

theorem truncated_response_accepted_witness:
  "readResponse (sample_client_lib (message_head [] [([''Content-Length''], [''5''])] 1 0 [''ok'']) HPE_OK) False
     (''...ok'', Read_error) = Inr \<lparr>rs_headers = [(''Content-Length'', ''5'')], rs_content = ''ok'', rs_status = 200\<rparr>"
  using truncated_response_accepted [of "''...ok''"
      "sample_client_lib (message_head [] [([''Content-Length''], [''5''])] 1 0 [''ok'']) HPE_OK"
      "[]" "[([''Content-Length''], [''5''])]" 1 0 "[''ok'']" "()" "[(''Content-Length'', ''5'')]" False Read_error]
  by (simp add: sample_client_lib_def buf_sz_def pieces_of_def dict_ok_def)

text \<open>The header section of a request, line by line.\<close>

definition client_header_line :: "string \<times> string \<Rightarrow> string" where
  "client_header_line h = fst h @ '':'' @ snd h"

definition request_lines :: "client_request \<Rightarrow> string list" where
  "request_lines req =
     [methodString (cr_method req) @ '' /'' @ url_file False (cr_url req) @ '' HTTP/1.1'',
      ''Host: '' @ url_host (cr_url req)] @ map client_header_line (cr_headers req) @
     (if cr_body req \<noteq> [] then [''Content-Length:'' @ nat_digits (length (cr_body req)), ''Content-Type: '' @ cr_mime req]
      else []) @ [''Accept: */*'', ''Connection: close'']"

definition clean_request :: "client_request \<Rightarrow> bool" where
  "clean_request req \<longleftrightarrow> CR \<notin> set (url_file False (cr_url req)) \<and> CR \<notin> set (url_host (cr_url req)) \<and>
     CR \<notin> set (cr_mime req) \<and> (\<forall>(k, v) \<in> set (cr_headers req). CR \<notin> set k \<and> CR \<notin> set v)"

lemma request_bytes_lines:
  "request_bytes req = concat (map (\<lambda>l. l @ crlf) (request_lines req)) @ crlf @ cr_body req"
proof -
  have "writeHeaders req = concat (map (\<lambda>l. l @ crlf) (map client_header_line (cr_headers req)))"
    by (auto simp: writeHeaders_def client_header_line_def intro!: arg_cong [where f = concat])
  then show ?thesis by (simp add: request_bytes_def request_lines_def)
qed

lemma request_lines_plain:
  assumes "clean_request req"
  shows "\<forall>l \<in> set (request_lines req). CR \<notin> set l \<and> l \<noteq> []"
proof -
  have "CR \<notin> set (methodString (cr_method req))" by (cases "cr_method req") (simp_all add: char_eq_byte [of CR])
  moreover have "CR \<notin> set (nat_digits n)" for n using nat_digits_not [of CR n] by (simp add: isdigit_def)
  ultimately show ?thesis
    using assms by (auto simp: request_lines_def clean_request_def client_header_line_def char_eq_byte [of CR] simp del: One_nat_def)
qed

text \<open>What the client sends for a request without carriage returns in it is one HTTP message: read off
  the wire it is the request line, the host, the headers, the length and type of a body there is,
  and exactly that body.  The port of the URL plays no part, and a protocol other
  than http and https makes the client write through a null pointer.\<close>

lemma client_request_sent:
  assumes "clean_request req"
  shows "wire_lines [] (request_bytes req) = Some (request_lines req, cr_body req) \<and>
    client_execute lib g net (req\<lparr>cr_url := cr_url req\<lparr>url_port := port\<rparr>\<rparr>) = client_execute lib g net req \<and>
    client_execute lib g net (req\<lparr>cr_url := cr_url req\<lparr>url_protocol := ''ftp''\<rparr>\<rparr>) = ([], Inl Undefined)"
proof -
  have "url_file False (u\<lparr>url_port := port\<rparr>) = url_file False u" for u
    by (simp add: url_file_def makePathString_def makeQueryString_def Let_def)
  then have "request_bytes (req\<lparr>cr_url := cr_url req\<lparr>url_port := port\<rparr>\<rparr>) = request_bytes req"
    by (simp add: request_bytes_def writeHeaders_def)
  then have "client_execute lib g net (req\<lparr>cr_url := cr_url req\<lparr>url_port := port\<rparr>\<rparr>) = client_execute lib g net req"
    by (simp add: client_execute_def client_connect_def cong: sum.case_cong)
  then show ?thesis
    using wire_lines_list [OF request_lines_plain [OF assms]]
    by (simp add: request_bytes_lines client_execute_def [of _ _ _ "req\<lparr>cr_url := v\<rparr>" for v] client_connect_def)
qed

section \<open>Form data\<close>

text \<open>The body of a POST is the query string of its data, which decodes to the same data.\<close>

lemma form_body_decodes:
  assumes "dict_ok data" "\<forall>(k, v) \<in> set data. clean k \<and> clean v"
  shows "parse_params (split (cr_body (setBodyURLEncoded data (HTTPClientRequest u))) ''&'') [] = Inr data"
proof -
  have step: "foldl (\<lambda>body (k, v). (if body \<noteq> [] then body @ ''&'' else body) @ url_encode k @ ''='' @ url_encode v) acc kvs =
      acc @ concat (map (\<lambda>kv. ''&'' @ param_str True kv) kvs)" if "acc \<noteq> []" for acc kvs
    using that by (induction kvs arbitrary: acc) (auto simp: param_str_def)
  have "cr_body (setBodyURLEncoded data (HTTPClientRequest u)) = join (map (param_str True) data) ''&''"
    by (cases data) (auto simp: setBodyURLEncoded_def HTTPClientRequest_def join_Cons step [simplified] param_str_def comp_def)
  then show ?thesis
    using query_split [OF assms(2)] parse_params_encoded [OF assms(2), of "[]"] fold_emplace_self [OF assms(1)]
    by simp
qed

end
