(* ===== verification/Mime.thy ===== *)
theory Mime
  imports Crypto
begin

text \<open>
  \<^verbatim>\<open>src/mime.cpp\<close> and \<^verbatim>\<open>include/wsrv/mime.hpp\<close>: the parts of a mail message.  A part is a leaf with its content or
  a multipart with a boundary and the parts inside; \<^verbatim>\<open>format()\<close> prints the headers and the encoded content.
\<close>

section \<open>Parts\<close>

datatype Encoding = SevenBit | EightBit | EncBase64 | QuotedPrintable

record mime_fields =
  mp_header :: string
  mp_name :: string
  mp_id :: string
  mp_type :: string
  mp_charset :: string
  mp_boundary :: string
  mp_content :: string
  mp_encoding :: Encoding

datatype mime_part = MimeLeaf mime_fields | MimeMulti mime_fields "mime_part list"

text \<open>A new part; its encoding is not initialised, \<^verbatim>\<open>garbage\<close> is its value.\<close>

definition MimePart :: "Encoding \<Rightarrow> mime_fields" where
  "MimePart garbage = \<lparr>mp_header = [], mp_name = [], mp_id = [], mp_type = [], mp_charset = [], mp_boundary = [],
     mp_content = [], mp_encoding = garbage\<rparr>"

definition addHeaderLine :: "string \<Rightarrow> mime_fields \<Rightarrow> mime_fields" where
  "addHeaderLine line f = f\<lparr>mp_header := mp_header f @ line @ crlf\<rparr>"

text \<open>Other encodings leave the content as it is.\<close>

definition encodeRaw :: "crypto_lib \<Rightarrow> string \<Rightarrow> mime_fields \<Rightarrow> mime_fields result" where
  "encodeRaw L txt f =
     (case mp_encoding f of
        EightBit \<Rightarrow> Inr (f\<lparr>mp_content := txt\<rparr>)
      | EncBase64 \<Rightarrow> rmap (\<lambda>c. f\<lparr>mp_content := c\<rparr>) (encodeBase64 L txt)
      | _ \<Rightarrow> Inr f)"

definition MimePlainText :: "crypto_lib \<Rightarrow> string \<Rightarrow> mime_fields result" where
  "MimePlainText L txt =
     encodeRaw L txt ((MimePart EightBit)\<lparr>mp_type := ''text/plain'', mp_charset := ''utf-8'', mp_encoding := EightBit\<rparr>)"

definition MimeHtml :: "crypto_lib \<Rightarrow> string \<Rightarrow> mime_fields result" where
  "MimeHtml L txt = rmap (\<lambda>f. f\<lparr>mp_type := ''text/html''\<rparr>) (MimePlainText L txt)"

text \<open>The stream of a file is its whole content.\<close>

definition MimeFile :: "crypto_lib \<Rightarrow> string \<Rightarrow> string \<Rightarrow> string \<Rightarrow> mime_fields result" where
  "MimeFile L content file_name ctype =
     encodeRaw L content ((MimePart EncBase64)\<lparr>mp_encoding := EncBase64, mp_type := ctype, mp_name := file_name\<rparr>)"

definition MimeFileInline :: "crypto_lib \<Rightarrow> string \<Rightarrow> string \<Rightarrow> string \<Rightarrow> mime_fields result" where
  "MimeFileInline L content file_name mime =
     rmap (addHeaderLine ''Content-Disposition: inline'') (MimeFile L content file_name mime)"

datatype MultiPartType = Mixed | Digest | Alternative | Related | Report | Signed | Encrypted

fun MULTI_PART_NAMES :: "MultiPartType \<Rightarrow> string" where
  "MULTI_PART_NAMES Mixed = ''multipart/mixed''"
| "MULTI_PART_NAMES Digest = ''multipart/digest''"
| "MULTI_PART_NAMES Alternative = ''multipart/alternative''"
| "MULTI_PART_NAMES Related = ''multipart/related''"
| "MULTI_PART_NAMES Report = ''multipart/report''"
| "MULTI_PART_NAMES Signed = ''multipart/signed''"
| "MULTI_PART_NAMES Encrypted = ''multipart/encrypted''"

text \<open>The constructor; \<^verbatim>\<open>bytes\<close> are the 16 random bytes it draws for the boundary.\<close>

definition MimeMultiPart :: "crypto_lib \<Rightarrow> string \<Rightarrow> MultiPartType \<Rightarrow> mime_part" where
  "MimeMultiPart L bytes ty =
     MimeMulti ((MimePart EightBit)\<lparr>mp_type := MULTI_PART_NAMES ty, mp_encoding := EightBit,
       mp_boundary := binToHex L bytes\<rparr>) []"

fun addPart :: "mime_part \<Rightarrow> mime_part \<Rightarrow> mime_part" where
  "addPart p (MimeMulti f ps) = MimeMulti f (ps @ [p])"
| "addPart p (MimeLeaf f) = MimeLeaf f"

section \<open>Printing\<close>

fun encoding_line :: "Encoding \<Rightarrow> string" where
  "encoding_line SevenBit = ''7bit'' @ crlf"
| "encoding_line EightBit = ''8bit'' @ crlf"
| "encoding_line EncBase64 = ''base64'' @ crlf"
| "encoding_line QuotedPrintable = ''quoted-printable'' @ crlf"

definition mime_head :: "mime_fields \<Rightarrow> string" where
  "mime_head f =
     ''Content-Type: '' @ mp_type f @
     (if mp_name f \<noteq> [] then ''; name='' @ [DQ] @ mp_name f @ [DQ] else []) @
     (if mp_charset f \<noteq> [] then ''; charset='' @ mp_charset f else []) @
     (if mp_boundary f \<noteq> [] then ''; boundary='' @ mp_boundary f else []) @
     crlf @ ''Content-Transfer-Encoding: '' @ encoding_line (mp_encoding f) @
     (if mp_id f \<noteq> [] then ''Content-ID: <'' @ mp_id f @ ''>'' @ crlf else []) @
     mp_header f @ crlf"

fun fields_of :: "mime_part \<Rightarrow> mime_fields" where
  "fields_of (MimeLeaf f) = f"
| "fields_of (MimeMulti f ps) = f"

text \<open>\<^verbatim>\<open>MimeMultiPart::encode\<close>, of the parts already formatted, and the virtual \<^verbatim>\<open>encode\<close>.\<close>

definition multipart_encode :: "string \<Rightarrow> string list \<Rightarrow> string" where
  "multipart_encode boundary parts =
     concat (map (\<lambda>p. ''--'' @ boundary @ crlf @ p) parts) @ ''--'' @ boundary @ ''--'' @ crlf"

fun mime_format :: "mime_part \<Rightarrow> string" where
  "mime_format (MimeLeaf f) = mime_head f @ mp_content f @ crlf"
| "mime_format (MimeMulti f ps) =
     mime_head f @ multipart_encode (mp_boundary f) (map mime_format ps) @ crlf"

fun mime_encode :: "mime_part \<Rightarrow> string" where
  "mime_encode (MimeLeaf f) = mp_content f"
| "mime_encode (MimeMulti f ps) = multipart_encode (mp_boundary f) (map mime_format ps)"

lemma mime_format_encode: "mime_format p = mime_head (fields_of p) @ mime_encode p @ crlf"
  by (cases p) simp_all

section \<open>Reading a multipart\<close>

text \<open>The specification of RFC 2046: a part begins after a line with two dashes and the boundary and ends
  before the line break of the next such line; the header section of a part ends at its first empty
  line.\<close>

function split_at :: "string \<Rightarrow> string \<Rightarrow> string list" where
  "split_at d s =
     (if d = [] then [s]
      else (case find_aux d 0 s of None \<Rightarrow> [s] | Some i \<Rightarrow> take i s # split_at d (drop (i + length d) s)))"
  by pat_completeness auto
termination
proof (relation "measure (\<lambda>(d, s). length s)")
  fix d s i
  assume "d \<noteq> []" "find_aux d 0 s = Some i"
  then have "s \<noteq> []" by auto
  with \<open>d \<noteq> []\<close> show "((d, drop (i + length d) s), (d, s)) \<in> measure (\<lambda>(d, s). length s)" by simp
qed simp

declare split_at.simps [simp del]

definition delimiter :: "string \<Rightarrow> string" where
  "delimiter b = crlf @ ''--'' @ b"

definition mime_read :: "string \<Rightarrow> string \<Rightarrow> (string list \<times> string) option list" where
  "mime_read b s = map (\<lambda>t. wire_lines [] (drop 2 t)) (butlast (tl (split_at (delimiter b) (crlf @ s))))"

text \<open>The lines a part prints before its content; its own header is given as lines.\<close>

definition part_lines :: "string list \<Rightarrow> mime_fields \<Rightarrow> string list" where
  "part_lines hl f =
     [''Content-Type: '' @ mp_type f @
        (if mp_name f \<noteq> [] then ''; name='' @ [DQ] @ mp_name f @ [DQ] else []) @
        (if mp_charset f \<noteq> [] then ''; charset='' @ mp_charset f else []) @
        (if mp_boundary f \<noteq> [] then ''; boundary='' @ mp_boundary f else []),
      ''Content-Transfer-Encoding: '' @ takeWhile (\<lambda>c. c \<noteq> CR) (encoding_line (mp_encoding f))] @
     (if mp_id f \<noteq> [] then [''Content-ID: <'' @ mp_id f @ ''>''] else []) @ hl"

definition clean_part :: "string list \<Rightarrow> mime_fields \<Rightarrow> bool" where
  "clean_part hl f \<longleftrightarrow> mp_header f = concat (map (\<lambda>l. l @ crlf) hl) \<and> (\<forall>l \<in> set hl. CR \<notin> set l \<and> l \<noteq> []) \<and>
     CR \<notin> set (mp_type f) \<and> CR \<notin> set (mp_name f) \<and> CR \<notin> set (mp_charset f) \<and> CR \<notin> set (mp_boundary f) \<and>
     CR \<notin> set (mp_id f)"

lemma encoding_line_crlf: "encoding_line e = takeWhile (\<lambda>c. c \<noteq> CR) (encoding_line e) @ crlf"
  by (cases e) (simp_all add: crlf_def char_eq_byte [of _ CR])

lemma mime_head_lines:
  "mp_header f = concat (map (\<lambda>l. l @ crlf) hl) \<Longrightarrow>
     mime_head f = concat (map (\<lambda>l. l @ crlf) (part_lines hl f)) @ crlf"
  unfolding mime_head_def part_lines_def by (subst encoding_line_crlf) simp

lemma part_lines_plain:
  assumes "clean_part hl f"
  shows "\<forall>l \<in> set (part_lines hl f). CR \<notin> set l \<and> l \<noteq> []"
proof -
  have "CR \<notin> set (takeWhile (\<lambda>c. c \<noteq> CR) s)" for s by (metis set_takeWhileD)
  then show ?thesis
    using assms by (auto simp: clean_part_def part_lines_def char_eq_byte [of CR])
qed

text \<open>A part without its last line break.\<close>

definition part_text :: "mime_part \<Rightarrow> string" where
  "part_text p = mime_head (fields_of p) @ mime_encode p"

lemma part_text_readable:
  assumes "clean_part hl (fields_of p)"
  shows "wire_lines [] (part_text p) = Some (part_lines hl (fields_of p), mime_encode p)"
  using wire_lines_list [OF part_lines_plain [OF assms], of "mime_encode p"] mime_head_lines [of "fields_of p" hl] assms
  by (simp add: part_text_def clean_part_def)

text \<open>A delimiter that begins with its only carriage return is found where it is first written.\<close>

lemma find_aux_delimiter:
  "CR \<notin> set d \<Longrightarrow> \<not> sublist (CR # d) x \<Longrightarrow> find_aux (CR # d) i (x @ CR # d @ r) = Some (i + length x)"
proof (induction x arbitrary: i)
  case (Cons c x)
  have "\<not> prefix (CR # d) (c # x @ CR # d @ r)"
  proof
    assume p: "prefix (CR # d) (c # x @ CR # d @ r)"
    then have c: "c = CR" and d: "prefix d (x @ CR # d @ r)" by auto
    show False
    proof (cases "length d \<le> length x")
      case True
      with d have "prefix d x" by (auto simp: prefix_def append_eq_append_conv2)
      with c have "prefix (CR # d) (c # x)" by simp
      with Cons.prems(2) show False using prefix_imp_sublist by blast
    next
      case False
      with d have "d ! length x = CR" by (auto simp: prefix_def) (metis nth_append nth_append_length not_le)
      with False Cons.prems(1) show False by (metis not_le nth_mem)
    qed
  qed
  moreover have "\<not> sublist (CR # d) x" using Cons.prems(2) by (meson sublist_Cons_right)
  ultimately show ?case using Cons.IH [of "Suc i"] Cons.prems(1) by simp
qed simp

lemma find_aux_absent: "\<not> sublist d x \<Longrightarrow> find_aux d i x = None"
proof (induction d i x rule: find_aux.induct)
  case (2 needle i c cs)
  then show ?case using prefix_imp_sublist [of needle "c # cs"] by (auto simp: sublist_Cons_right)
qed simp

lemma split_at_parts:
  assumes "CR \<notin> set d" "\<forall>t \<in> set ts. \<not> sublist (CR # d) t" "\<not> sublist (CR # d) x"
  shows "split_at (CR # d) (x @ concat (map (\<lambda>t. CR # d @ t) ts)) = x # ts"
  using assms(2,3)
proof (induction ts arbitrary: x)
  case Nil
  then show ?case by (simp add: split_at.simps find_aux_absent)
next
  case (Cons t ts)
  then show ?case
    using find_aux_delimiter [OF assms(1), of x 0 "t @ concat (map (\<lambda>t. CR # d @ t) ts)"]
    by (subst split_at.simps) simp
qed

text \<open>Splitting what was written before and after such a delimiter.\<close>

lemma find_aux_append: "find_aux d i x = Some j \<Longrightarrow> find_aux d i (x @ r) = Some j"
proof (induction d i x rule: find_aux.induct)
  case (1 d i)
  then show ?case by (cases r) (auto split: if_splits)
next
  case (2 d i c x)
  show ?case
  proof (cases "prefix d (c # x)")
    case True
    then have "prefix d ((c # x) @ r)" by (rule prefix_prefix)
    with 2(2) True show ?thesis by simp
  next
    case False
    with 2(2) have j: "find_aux d (Suc i) x = Some j" by simp
    then have "length d \<le> length x" using find_aux_Some [OF j] by (auto dest!: prefix_length_le)
    then have "\<not> prefix d (c # x @ r)"
      using False by (auto simp: prefix_def append_eq_append_conv2 Cons_eq_append_conv)
    with 2(1) False j show ?thesis by simp
  qed
qed

lemma find_aux_None_sublist: "find_aux d i x = None \<Longrightarrow> \<not> sublist d x"
proof
  assume none: "find_aux d i x = None" and "sublist d x"
  then obtain u v where "x = u @ d @ v" by (auto simp: sublist_def)
  with find_aux_None [OF none, of "length u"] show False by simp
qed

lemma split_at_append:
  assumes "CR \<notin> set d"
  shows "split_at (CR # d) (x @ CR # d @ r) = split_at (CR # d) x @ split_at (CR # d) r"
proof (induction "length x" arbitrary: x rule: less_induct)
  case less
  show ?case
  proof (cases "find_aux (CR # d) 0 x")
    case None
    with assms have "find_aux (CR # d) 0 (x @ CR # d @ r) = Some (length x)"
      using find_aux_delimiter [OF assms, of x 0 r] find_aux_None_sublist by auto
    with None show ?thesis
      by (simp add: split_at.simps [of "CR # d" "x @ CR # d @ r"] split_at.simps [of "CR # d" x])
  next
    case (Some i)
    have "i + length (CR # d) \<le> length x"
      using find_aux_Some [OF Some] by (auto dest!: prefix_length_le)
    moreover from this have "length (drop (i + length (CR # d)) x) < length x" by simp
    note less [OF this]
    ultimately show ?thesis
      using find_aux_append [OF Some, of "CR # d @ r"] Some
      by (simp add: split_at.simps [of "CR # d" "x @ CR # d @ r"] split_at.simps [of "CR # d" x])
  qed
qed

section \<open>Properties\<close>

text \<open>C29: The parts of a multipart are read back: for parts whose text does not hold the delimiter
  (a line break, two dashes and the boundary), a reader that follows RFC 2046 gets every part in order, with its header lines
  and exactly its encoded content, also when the parts are multiparts themselves.\<close>

theorem mime_parts_recovered:
  assumes "CR \<notin> set (mp_boundary f)" "\<forall>(hl, p) \<in> set ps. clean_part hl (fields_of p)"
    and "\<forall>(hl, p) \<in> set ps. \<not> sublist (delimiter (mp_boundary f)) (crlf @ part_text p)"
  shows "mime_read (mp_boundary f) (mime_encode (MimeMulti f (map snd ps))) =
    map (\<lambda>(hl, p). Some (part_lines hl (fields_of p), mime_encode p)) ps"
proof -
  let ?d = "LF # ''--'' @ mp_boundary f" and ?ts = "map (\<lambda>(hl, p). crlf @ part_text p) ps @ [''--'' @ crlf]"
  have d: "delimiter (mp_boundary f) = CR # ?d" "CR \<notin> set ?d"
    using assms(1) by (auto simp: delimiter_def crlf_def char_eq_byte [of CR])
  have last: "\<not> sublist (CR # ?d) (''--'' @ crlf)" "\<not> sublist (CR # ?d) []"
    using sublist_length_le [of "CR # ?d" "''--'' @ crlf"]
    by (auto simp: crlf_def sublist_Cons_right char_eq_byte [of CR])
  have "crlf @ mime_encode (MimeMulti f (map snd ps)) = [] @ concat (map (\<lambda>t. CR # ?d @ t) ?ts)"
    by (induction ps) (auto simp: mime_format_encode multipart_encode_def part_text_def crlf_def)
  then have "split_at (CR # ?d) (crlf @ mime_encode (MimeMulti f (map snd ps))) = [] # ?ts"
    using assms(3) d last by (simp only:, intro split_at_parts) auto
  then show ?thesis
    using assms(2) by (auto simp: mime_read_def d butlast_append crlf_def intro!: part_text_readable)
qed

definition sample_leaf :: "string \<Rightarrow> mime_part" where
  "sample_leaf txt = MimeLeaf ((MimePart EightBit)\<lparr>mp_type := ''text/plain'', mp_content := txt\<rparr>)"

definition sample_boundary :: mime_fields where
  "sample_boundary = (MimePart EightBit)\<lparr>mp_type := ''multipart/related'', mp_boundary := ''0f''\<rparr>"

theorem mime_parts_recovered_witness:
  "mime_read ''0f'' (mime_encode (MimeMulti sample_boundary [sample_leaf ''one'', sample_leaf ''a--0f''])) =
     [Some ([''Content-Type: text/plain'', ''Content-Transfer-Encoding: 8bit''], ''one''),
      Some ([''Content-Type: text/plain'', ''Content-Transfer-Encoding: 8bit''], ''a--0f'')]"
proof -
  have b: "mp_boundary sample_boundary = ''0f''" by (simp add: sample_boundary_def)
  let ?ps = "[([] :: string list, sample_leaf ''one''), ([], sample_leaf ''a--0f'')]"
  have "mime_read (mp_boundary sample_boundary) (mime_encode (MimeMulti sample_boundary (map snd ?ps))) =
      map (\<lambda>(hl, p). Some (part_lines hl (fields_of p), mime_encode p)) ?ps"
  proof (rule mime_parts_recovered)
    have clean: "clean_part [] (fields_of (sample_leaf t))" for t
      by (simp add: clean_part_def sample_leaf_def MimePart_def char_eq_byte [of CR])
    then show "\<forall>(hl, p) \<in> set ?ps. clean_part hl (fields_of p)" by simp
    have "\<not> sublist (delimiter ''0f'') (crlf @ part_text (sample_leaf ''one''))"
      "\<not> sublist (delimiter ''0f'') (crlf @ part_text (sample_leaf ''a--0f''))"
      by code_simp+
    then show "\<forall>(hl, p) \<in> set ?ps. \<not> sublist (delimiter (mp_boundary sample_boundary)) (crlf @ part_text p)"
      by (simp add: b)
  qed (simp add: b char_eq_byte [of CR])
  then show ?thesis
    by (simp add: b sample_leaf_def MimePart_def part_lines_def crlf_def char_eq_byte [of _ CR])
qed

end
