(* ===== verification/Mailer.thy ===== *)
theory Mailer
  imports Mime Base64 "HOL-Library.Signed_Division"
begin

text \<open>
  \<^verbatim>\<open>src/mailer.cpp\<close>, \<^verbatim>\<open>src/smtp_socket.hpp\<close> and \<^verbatim>\<open>include/wsrv/mailer.hpp\<close>: mail messages and the SMTP client.
  The state of the client is the conversation: the lines it has sent (each with the kind of socket that sent
  it), the reply lines still to come, and the random pool the boundaries are drawn from.  A send
  that fails is swallowed by the code and so cannot be told from one that succeeds; a receive that fails,
  here one with no reply line left, reaches the end of a function that should return a string, which is
  undefined.
\<close>

section \<open>Addresses and messages\<close>

record mail_address =
  ma_address :: string
  ma_name :: string

definition MailAddress_format :: "mail_address \<Rightarrow> string" where
  "MailAddress_format a =
     (if ma_name a = [] \<and> ma_address a = [] then []
      else
        (let name_formatted = (if ma_name a \<noteq> [] then [DQ] @ ma_name a @ [DQ] else []);
             addr = (if ma_address a \<noteq> [] then ''<'' @ ma_address a @ ''>'' else [])
         in if name_formatted = [] then addr
            else name_formatted @ (if addr = [] then [] else '' '' @ addr)))"

record smtp_message =
  ms_subject :: string
  ms_sender :: mail_address
  ms_from :: mail_address
  ms_reply_to :: mail_address
  ms_recipients :: "mail_address list"
  ms_cc :: "mail_address list"
  ms_bcc :: "mail_address list"
  ms_body :: "mime_part option"
  ms_attachments :: "mime_part list"

definition setSender :: "mail_address \<Rightarrow> smtp_message \<Rightarrow> smtp_message" where
  "setSender a m = m\<lparr>ms_sender := a\<rparr>"

definition setFrom :: "mail_address \<Rightarrow> smtp_message \<Rightarrow> smtp_message" where
  "setFrom a m = m\<lparr>ms_from := a\<rparr>"

definition setReplyTo :: "mail_address \<Rightarrow> smtp_message \<Rightarrow> smtp_message" where
  "setReplyTo a m = m\<lparr>ms_reply_to := a\<rparr>"

definition addRecipient :: "mail_address \<Rightarrow> smtp_message \<Rightarrow> smtp_message" where
  "addRecipient a m = m\<lparr>ms_recipients := ms_recipients m @ [a]\<rparr>"

definition setRecipients :: "mail_address list \<Rightarrow> smtp_message \<Rightarrow> smtp_message" where
  "setRecipients as m = m\<lparr>ms_recipients := as\<rparr>"

definition addCCRecipient :: "mail_address \<Rightarrow> smtp_message \<Rightarrow> smtp_message" where
  "addCCRecipient a m = m\<lparr>ms_cc := ms_cc m @ [a]\<rparr>"

definition setCCRecipients :: "mail_address list \<Rightarrow> smtp_message \<Rightarrow> smtp_message" where
  "setCCRecipients as m = m\<lparr>ms_cc := as\<rparr>"

definition addBCCRecipient :: "mail_address \<Rightarrow> smtp_message \<Rightarrow> smtp_message" where
  "addBCCRecipient a m = m\<lparr>ms_bcc := ms_bcc m @ [a]\<rparr>"

definition setBCCRecipients :: "mail_address list \<Rightarrow> smtp_message \<Rightarrow> smtp_message" where
  "setBCCRecipients as m = m\<lparr>ms_bcc := as\<rparr>"

definition setSubject :: "string \<Rightarrow> smtp_message \<Rightarrow> smtp_message" where
  "setSubject s m = m\<lparr>ms_subject := s\<rparr>"

definition setBody :: "crypto_lib \<Rightarrow> string \<Rightarrow> bool \<Rightarrow> smtp_message \<Rightarrow> smtp_message result" where
  "setBody L txt is_html m =
     rmap (\<lambda>f. m\<lparr>ms_body := Some (MimeLeaf f)\<rparr>) (if is_html then MimeHtml L txt else MimePlainText L txt)"

definition addAttachment ::
  "crypto_lib \<Rightarrow> string \<Rightarrow> string \<Rightarrow> string \<Rightarrow> smtp_message \<Rightarrow> smtp_message result" where
  "addAttachment L content file_name mime m =
     rmap (\<lambda>f. m\<lparr>ms_attachments := ms_attachments m @ [MimeLeaf f]\<rparr>) (MimeFile L content file_name mime)"

definition format_address_list :: "mail_address list \<Rightarrow> string" where
  "format_address_list as =
     foldl (\<lambda>res a. (if res \<noteq> [] then res @ '' '' else res) @ MailAddress_format a) [] as"

definition format_subject :: "smtp_message \<Rightarrow> string" where
  "format_subject m = ms_subject m"

definition format_header :: "smtp_message \<Rightarrow> string" where
  "format_header m =
     ''From:'' @ MailAddress_format (ms_from m) @ crlf @
     (if ma_address (ms_sender m) = [] then [] else ''Sender:'' @ MailAddress_format (ms_sender m) @ crlf) @
     (if ma_address (ms_reply_to m) = [] then [] else ''Reply-To:'' @ MailAddress_format (ms_reply_to m) @ crlf) @
     ''To:'' @ format_address_list (ms_recipients m) @ crlf @
     (if ms_cc m = [] then [] else ''Cc:'' @ format_address_list (ms_cc m) @ crlf) @
     (if ms_bcc m = [] then [] else ''Bcc:'' @ format_address_list (ms_recipients m) @ crlf) @
     ''Subject:'' @ format_subject m @ crlf"

section \<open>The conversation\<close>

record smtp =
  sm_sent :: "(bool \<times> string) list"
  sm_replies :: "string list"
  sm_ssl :: bool
  sm_random :: "char stream"
  sm_src_hostname :: string

type_synonym 'r smtp_io = "(smtp, 'r) eff"

definition SMTPMailer :: "string list \<Rightarrow> char stream \<Rightarrow> smtp" where
  "SMTPMailer replies rnd =
     \<lparr>sm_sent = [], sm_replies = replies, sm_ssl = False, sm_random = rnd, sm_src_hostname = ''mail.client.org''\<rparr>"

definition setSourceHostname :: "string \<Rightarrow> smtp \<Rightarrow> smtp" where
  "setSourceHostname h s = s\<lparr>sm_src_hostname := h\<rparr>"

definition smtp_send :: "string \<Rightarrow> unit smtp_io" where
  "smtp_send line s = (Inr (), s\<lparr>sm_sent := sm_sent s @ [(sm_ssl s, line)]\<rparr>)"

text \<open>\<^verbatim>\<open>receive()\<close>: the next line, its carriage return kept.\<close>

definition smtp_receive :: "string smtp_io" where
  "smtp_receive s =
     (case sm_replies s of [] \<Rightarrow> (Inl Undefined, s) | l # ls \<Rightarrow> (Inr l, s\<lparr>sm_replies := ls\<rparr>))"

record response_line =
  rl_status :: int
  rl_last :: bool
  rl_msg :: string

definition parse_response :: "string \<Rightarrow> response_line result" where
  "parse_response line =
     (if length line < 4 then Inl (Runtime_error ''Response message too short'')
      else
        (case stoi (substr line 0 3) of
           Inl e \<Rightarrow> Inl (Runtime_error ''Error parsing response message'')
         | Inr status \<Rightarrow>
             Inr \<lparr>rl_status = status, rl_last = (line ! 3 \<noteq> CHR ''-''), rl_msg = drop 4 line\<rparr>))"

definition waitForResponse :: "response_line smtp_io" where
  "waitForResponse = io_bind smtp_receive (\<lambda>line. io_lift (parse_response line))"

text \<open>Classes of status codes; the division is that of C++.\<close>

definition positive_completion :: "int \<Rightarrow> bool" where
  "positive_completion status \<longleftrightarrow> status sdiv 100 = 2"

definition positive_intermediate :: "int \<Rightarrow> bool" where
  "positive_intermediate status \<longleftrightarrow> status sdiv 100 = 3"

definition transient_negative :: "int \<Rightarrow> bool" where
  "transient_negative status \<longleftrightarrow> status sdiv 100 = 4"

definition permanent_negative :: "int \<Rightarrow> bool" where
  "permanent_negative status \<longleftrightarrow> status sdiv 100 = 5"

definition smtp_require :: "bool \<Rightarrow> string \<Rightarrow> unit smtp_io" where
  "smtp_require ok msg = (if ok then io_return () else io_throw (Runtime_error msg))"

text \<open>\<^verbatim>\<open>do { r = waitForResponse() ; } while ( !r.isLast() )\<close>: every turn takes a reply line.\<close>

lemma waitForResponse_consumes:
  "waitForResponse s = (Inr r, s') \<Longrightarrow> \<exists>l. sm_replies s = l # sm_replies s' \<and> parse_response l = Inr r \<and>
     s' = s\<lparr>sm_replies := sm_replies s'\<rparr>"
  by (auto simp: waitForResponse_def io_bind_def smtp_receive_def io_lift_def split: list.splits)

function wait_last :: "response_line smtp_io" where
  "wait_last s =
     (case waitForResponse s of
        (Inl e, s') \<Rightarrow> (Inl e, s')
      | (Inr r, s') \<Rightarrow> if rl_last r then (Inr r, s') else wait_last s')"
  by pat_completeness auto
termination
  by (relation "measure (\<lambda>s. length (sm_replies s))") (auto dest: waitForResponse_consumes [OF sym])

declare wait_last.simps [simp del]

definition smtp_connect :: "unit smtp_io" where
  "smtp_connect = io_bind waitForResponse (\<lambda>r. smtp_require (rl_status r = 220) ''Connection rejection.'')"

definition ehlo :: "unit smtp_io" where
  "ehlo s =
     io_bind (smtp_send (''EHLO '' @ sm_src_hostname s)) (\<lambda>u.
     io_bind wait_last (\<lambda>r.
       if \<not> positive_completion (rl_status r) then
         io_bind (smtp_send (''HELO '' @ sm_src_hostname s)) (\<lambda>u.
         io_bind wait_last (\<lambda>r.
           smtp_require (positive_completion (rl_status r)) ''Initial message rejection.''))
       else io_return ())) s"

definition auth_login :: "string \<Rightarrow> string \<Rightarrow> unit smtp_io" where
  "auth_login username password =
     io_bind (smtp_send ''AUTH LOGIN'') (\<lambda>u. io_bind waitForResponse (\<lambda>r.
     io_bind (smtp_require (\<not> (rl_last r \<and> \<not> positive_intermediate (rl_status r))) ''Authentication rejection.'') (\<lambda>u.
     io_bind (smtp_send (base64_encode username)) (\<lambda>u. io_bind waitForResponse (\<lambda>r.
     io_bind (smtp_require (\<not> (rl_last r \<and> \<not> positive_intermediate (rl_status r))) ''Username rejection.'') (\<lambda>u.
     io_bind (smtp_send (base64_encode password)) (\<lambda>u. io_bind waitForResponse (\<lambda>r.
     smtp_require (\<not> (rl_last r \<and> \<not> positive_completion (rl_status r))) ''Password rejection.''))))))))"

definition switch_to_ssl :: "unit smtp_io" where
  "switch_to_ssl s = (Inr (), s\<lparr>sm_ssl := True\<rparr>)"

definition start_tls :: "unit smtp_io" where
  "start_tls =
     io_bind (smtp_send ''STARTTLS'') (\<lambda>u. io_bind waitForResponse (\<lambda>r.
     io_bind (smtp_require (\<not> (rl_last r \<and> rl_status r \<noteq> 220)) ''Start tls refused by server.'') (\<lambda>u.
     io_bind switch_to_ssl (\<lambda>u. ehlo))))"

datatype auth_method = NONE | LOGIN | START_TLS

fun authenticate :: "string \<Rightarrow> string \<Rightarrow> auth_method \<Rightarrow> unit smtp_io" where
  "authenticate username password NONE =
     io_bind switch_to_ssl (\<lambda>u. io_bind smtp_connect (\<lambda>u. ehlo))"
| "authenticate username password LOGIN =
     io_bind switch_to_ssl (\<lambda>u. io_bind smtp_connect (\<lambda>u. io_bind ehlo (\<lambda>u. auth_login username password)))"
| "authenticate username password START_TLS =
     io_bind smtp_connect (\<lambda>u. io_bind ehlo (\<lambda>u. io_bind start_tls (\<lambda>u. auth_login username password)))"

text \<open>\<^verbatim>\<open>format_content()\<close>: with attachments, everything goes into one multipart of type related.\<close>

definition format_content :: "crypto_lib \<Rightarrow> smtp_message \<Rightarrow> string smtp_io" where
  "format_content L m s =
     (if ms_attachments m = [] then
        (case ms_body m of Some b \<Rightarrow> (Inr (mime_format b), s) | None \<Rightarrow> (Inr [], s))
      else
        (let mp = MimeMultiPart L (stake 16 (sm_random s)) Related;
             mp = (case ms_body m of Some b \<Rightarrow> addPart b mp | None \<Rightarrow> mp);
             mp = fold addPart (ms_attachments m) mp
         in (Inr (mime_format mp), s\<lparr>sm_random := sdrop 16 (sm_random s)\<rparr>)))"

definition format_message :: "crypto_lib \<Rightarrow> smtp_message \<Rightarrow> string smtp_io" where
  "format_message L m = io_bind (format_content L m) (\<lambda>content. io_return (format_header m @ content))"

text \<open>The three loops over recipients are alike.\<close>

fun rcpt_loop :: "string \<Rightarrow> mail_address list \<Rightarrow> unit smtp_io" where
  "rcpt_loop msg [] = io_return ()"
| "rcpt_loop msg (rcpt # rs) =
     io_bind (smtp_send (''RCPT TO: <'' @ ma_address rcpt @ ''>'')) (\<lambda>u. io_bind waitForResponse (\<lambda>r.
     io_bind (smtp_require (positive_completion (rl_status r)) msg) (\<lambda>u. rcpt_loop msg rs)))"

definition submit :: "crypto_lib \<Rightarrow> smtp_message \<Rightarrow> unit smtp_io" where
  "submit L m =
     io_bind (smtp_send (''MAIL FROM: <'' @ ma_address (ms_sender m) @ ''>'')) (\<lambda>u. io_bind waitForResponse (\<lambda>r.
     io_bind (smtp_require (\<not> (rl_last r \<and> \<not> positive_completion (rl_status r))) ''Mail sender rejection.'') (\<lambda>u.
     io_bind (rcpt_loop ''Mail recipient rejection.'' (ms_recipients m)) (\<lambda>u.
     io_bind (rcpt_loop ''Mail cc recipient rejection.'' (ms_cc m)) (\<lambda>u.
     io_bind (rcpt_loop ''Mail bcc recipient rejection.'' (ms_bcc m)) (\<lambda>u.
     io_bind (smtp_send ''DATA'') (\<lambda>u. io_bind waitForResponse (\<lambda>r.
     io_bind (smtp_require (positive_intermediate (rl_status r)) ''Mail message rejection.'') (\<lambda>u.
     io_bind (format_message L m) (\<lambda>msg_str.
     io_bind (smtp_send (msg_str @ crlf @ ''.'')) (\<lambda>u. io_bind waitForResponse (\<lambda>r.
     smtp_require (positive_completion (rl_status r)) ''Mail message rejection.''))))))))))))"

text \<open>The destructor says good bye and does not wait.\<close>

definition smtp_close :: "unit smtp_io" where
  "smtp_close = smtp_send ''QUIT''"

section \<open>Submitting as a dialogue\<close>

text \<open>The abstract view: a list of commands, each with the replies that let the client go on and the error
  otherwise.\<close>

type_synonym turn = "string \<times> (response_line \<Rightarrow> bool) \<times> string"

fun dialogue :: "turn list \<Rightarrow> unit smtp_io" where
  "dialogue [] = io_return ()"
| "dialogue ((cmd, ok, msg) # ts) =
     io_bind (smtp_send cmd) (\<lambda>u. io_bind waitForResponse (\<lambda>r. io_bind (smtp_require (ok r) msg) (\<lambda>u. dialogue ts)))"

definition rcpt_turn :: "string \<Rightarrow> mail_address \<Rightarrow> turn" where
  "rcpt_turn msg a = (''RCPT TO: <'' @ ma_address a @ ''>'', \<lambda>r. positive_completion (rl_status r), msg)"

definition envelope :: "smtp_message \<Rightarrow> turn list" where
  "envelope m =
     [(''MAIL FROM: <'' @ ma_address (ms_sender m) @ ''>'',
       \<lambda>r. \<not> (rl_last r \<and> \<not> positive_completion (rl_status r)), ''Mail sender rejection.'')] @
     map (rcpt_turn ''Mail recipient rejection.'') (ms_recipients m) @
     map (rcpt_turn ''Mail cc recipient rejection.'') (ms_cc m) @
     map (rcpt_turn ''Mail bcc recipient rejection.'') (ms_bcc m) @
     [(''DATA'', \<lambda>r. positive_intermediate (rl_status r), ''Mail message rejection.'')]"

definition text_turn :: "crypto_lib \<Rightarrow> smtp_message \<Rightarrow> smtp \<Rightarrow> turn" where
  "text_turn L m s =
     (case fst (format_message L m s) of
        Inr t \<Rightarrow> (t @ crlf @ ''.'', \<lambda>r. positive_completion (rl_status r), ''Mail message rejection.'')
      | Inl e \<Rightarrow> ([], \<lambda>r. False, []))"

text \<open>How many turns the reply lines let the client complete.\<close>

definition accepts :: "(response_line \<Rightarrow> bool) \<Rightarrow> string \<Rightarrow> bool" where
  "accepts ok line = (case parse_response line of Inl e \<Rightarrow> False | Inr r \<Rightarrow> ok r)"

fun progress :: "turn list \<Rightarrow> string list \<Rightarrow> nat" where
  "progress (t # ts) (l # ls) = (if accepts (fst (snd t)) l then Suc (progress ts ls) else 0)"
| "progress ts ls = 0"

lemma io_bind_Pair [simp]: "io_bind (Pair (Inr x)) k = k x"
  by (simp add: io_bind_def fun_eq_iff)

lemma rcpt_dialogue: "rcpt_loop msg rs = dialogue (map (rcpt_turn msg) rs)"
  by (induction rs) (simp_all add: rcpt_turn_def)

lemma dialogue_append: "dialogue (as @ bs) = io_bind (dialogue as) (\<lambda>u. dialogue bs)"
  by (induction as rule: dialogue.induct) (simp_all add: io_bind_assoc)

lemma dialogue_step:
  "dialogue ((cmd, ok, msg) # ts) s =
     (let s1 = s\<lparr>sm_sent := sm_sent s @ [(sm_ssl s, cmd)]\<rparr>
      in case sm_replies s of
           [] \<Rightarrow> (Inl Undefined, s1)
         | l # ls \<Rightarrow>
             (case parse_response l of
                Inl e \<Rightarrow> (Inl e, s1\<lparr>sm_replies := ls\<rparr>)
              | Inr r \<Rightarrow> if ok r then dialogue ts (s1\<lparr>sm_replies := ls\<rparr>)
                         else (Inl (Runtime_error msg), s1\<lparr>sm_replies := ls\<rparr>)))"
  by (auto simp: io_bind_def smtp_send_def waitForResponse_def smtp_receive_def io_lift_def smtp_require_def
      io_return_def io_throw_def Let_def split: list.splits sum.splits)

lemma dialogue_outcome:
  "sm_sent (snd (dialogue ts s)) = sm_sent s @ map (\<lambda>t. (sm_ssl s, fst t)) (take (Suc (progress ts (sm_replies s))) ts) \<and>
   (fst (dialogue ts s) = Inr () \<longleftrightarrow> progress ts (sm_replies s) = length ts) \<and>
   (fst (dialogue ts s) = Inr () \<longrightarrow>
      snd (dialogue ts s) = s\<lparr>sm_sent := sm_sent (snd (dialogue ts s)), sm_replies := drop (length ts) (sm_replies s)\<rparr>)"
proof (induction ts arbitrary: s)
  case Nil
  show ?case by simp
next
  case (Cons t ts)
  obtain cmd ok msg where t: "t = (cmd, ok, msg)" by (cases t)
  show ?case
  proof (cases "sm_replies s")
    case (Cons l ls)
    then show ?thesis
      using Cons.IH [of "s\<lparr>sm_sent := sm_sent s @ [(sm_ssl s, cmd)], sm_replies := ls\<rparr>"]
      by (auto simp: t dialogue_step accepts_def Let_def simp del: dialogue.simps split: sum.splits)
  qed (simp add: t dialogue_step del: dialogue.simps)
qed

lemma progress_Nil [simp]: "progress ts [] = 0" "progress [] ls = 0"
  by (cases ts; simp)+

lemma progress_append:
  "progress (as @ bs) ls =
     (if progress as ls = length as then length as + progress bs (drop (length as) ls) else progress as ls)"
proof (induction as arbitrary: ls)
  case (Cons a as)
  then show ?case by (cases ls) auto
qed simp

lemma progress_le: "progress ts ls \<le> length ts"
  by (induction ts ls rule: progress.induct) auto

text \<open>The text depends on the message and the random pool only, and is printed after the envelope.\<close>

lemma format_message_same:
  "sm_random s' = sm_random s \<Longrightarrow> fst (format_message L m s') = fst (format_message L m s)"
  by (simp add: format_message_def format_content_def io_bind_def split: option.splits)

lemma format_message_ok:
  "\<exists>t r. format_message L m s = (Inr t, s\<lparr>sm_random := r\<rparr>)"
proof (cases "ms_attachments m = []")
  case True
  then show ?thesis
    by (cases "ms_body m") (auto simp: format_message_def format_content_def io_bind_def intro!: exI [of _ "sm_random s"])
next
  case False
  then show ?thesis by (auto simp: format_message_def format_content_def io_bind_def Let_def)
qed

lemma submit_dialogue:
  "submit L m s =
     io_bind (dialogue (envelope m)) (\<lambda>u. io_bind (format_message L m) (\<lambda>t.
       dialogue [(t @ crlf @ ''.'', \<lambda>r. positive_completion (rl_status r), ''Mail message rejection.'')])) s"
  by (simp add: submit_def envelope_def rcpt_dialogue dialogue_append io_bind_assoc)

section \<open>What the server makes of the text\<close>

text \<open>The receiver of RFC 5321: lines up to the first that is a single dot, without the first dot of a line
  that begins with one.\<close>

definition unstuff :: "string \<Rightarrow> string" where
  "unstuff l = (if l \<noteq> [] \<and> hd l = CHR ''.'' then tl l else l)"

fun smtp_data :: "string list \<Rightarrow> string list option" where
  "smtp_data [] = None"
| "smtp_data (l # ls) = (if l = ''.'' then Some [] else map_option (\<lambda>t. unstuff l # t) (smtp_data ls))"

lemma smtp_data_ends: "smtp_data (ls @ ''.'' # r) = Some (map unstuff (takeWhile (\<lambda>l. l \<noteq> ''.'') ls))"
  by (induction ls) auto

section \<open>What is said in the clear\<close>

text \<open>The conversation grows by lines of a set, the host name stays and the plain socket does not come back.\<close>

definition spoken :: "(bool \<times> string) set \<Rightarrow> smtp \<Rightarrow> smtp \<Rightarrow> bool" where
  "spoken A s s' \<longleftrightarrow>
     (\<exists>new. sm_sent s' = sm_sent s @ new \<and> set new \<subseteq> A) \<and>
     sm_src_hostname s' = sm_src_hostname s \<and> (sm_ssl s \<longrightarrow> sm_ssl s')"

interpretation talk: effect_relation "spoken A"
proof
  fix s t u :: smtp
  show "spoken A s s" by (simp add: spoken_def)
  assume "spoken A s t" "spoken A t u"
  then show "spoken A s u" by (auto simp: spoken_def)
qed

lemma says_send [intro!]: "(sm_ssl s, l) \<in> A \<Longrightarrow> moves (spoken A) (smtp_send l) s"
  by (simp add: moves_def spoken_def smtp_send_def)

lemma says_require [intro!]: "moves (spoken A) (smtp_require b msg) s"
  by (simp add: moves_def spoken_def smtp_require_def)

lemma waitForResponse_state: "snd (waitForResponse s) = s\<lparr>sm_replies := tl (sm_replies s)\<rparr>"
  by (cases "sm_replies s") (simp_all add: waitForResponse_def io_bind_def smtp_receive_def)

lemma says_wait [intro!]: "moves (spoken A) waitForResponse s"
  by (simp add: moves_def spoken_def waitForResponse_state)

lemma says_wait_last [intro!]: "moves (spoken A) wait_last s"
proof (induction s rule: wait_last.induct)
  case (1 s)
  obtain r s' where w: "waitForResponse s = (r, s')" by (cases "waitForResponse s")
  then have s': "s' = s\<lparr>sm_replies := tl (sm_replies s)\<rparr>" using waitForResponse_state [of s] by simp
  show ?case
  proof (cases r)
    case (Inl e)
    then show ?thesis using w s' by (simp add: moves_def spoken_def wait_last.simps [of s])
  next
    case (Inr x)
    then have "\<not> rl_last x \<Longrightarrow> moves (spoken A) wait_last s'" using 1 w by auto
    with Inr w s' show ?thesis by (simp add: moves_def spoken_def wait_last.simps [of s])
  qed
qed

lemma spoken_keeps: "spoken A s s' \<Longrightarrow> sm_src_hostname s' = sm_src_hostname s \<and> (sm_ssl s \<longrightarrow> sm_ssl s')"
  by (simp add: spoken_def)

definition clear_lines :: "string \<Rightarrow> (bool \<times> string) set" where
  "clear_lines h = {(True, l) | l. True} \<union> {(False, ''EHLO '' @ h), (False, ''HELO '' @ h), (False, ''STARTTLS'')}"

lemma clear_lines_ssl [simp]: "b \<Longrightarrow> (b, l) \<in> clear_lines h"
  by (simp add: clear_lines_def)

lemma clear_lines_hello [simp]:
  "(b, ''EHLO '' @ h) \<in> clear_lines h" "(b, ''HELO '' @ h) \<in> clear_lines h" "(b, ''STARTTLS'') \<in> clear_lines h"
  by (cases b; simp add: clear_lines_def)+

lemma says_ehlo [intro!]: "sm_src_hostname s = h \<Longrightarrow> moves (spoken (clear_lines h)) ehlo s"
proof -
  assume h: "sm_src_hostname s = h"
  have "moves (spoken (clear_lines h)) (io_bind (smtp_send (''EHLO '' @ h)) (\<lambda>u. io_bind wait_last (\<lambda>r.
      if \<not> positive_completion (rl_status r) then
        io_bind (smtp_send (''HELO '' @ h)) (\<lambda>u. io_bind wait_last (\<lambda>r.
          smtp_require (positive_completion (rl_status r)) ''Initial message rejection.''))
      else io_return ()))) s"
    by (auto simp del: append.simps)
  then show ?thesis unfolding moves_def ehlo_def h .
qed

lemma says_auth_login [intro!]: "sm_ssl s \<Longrightarrow> moves (spoken (clear_lines h)) (auth_login u p) s"
  unfolding auth_login_def by (intro talk.moves_bind says_send says_wait says_require) (auto dest!: spoken_keeps)

lemma says_switch [intro!]: "moves (spoken A) switch_to_ssl s"
  by (simp add: moves_def spoken_def switch_to_ssl_def)

lemma switch_ssl: "switch_to_ssl s = (r, s') \<Longrightarrow> sm_ssl s'"
  by (auto simp: switch_to_ssl_def)

lemma says_connect [intro!]: "moves (spoken A) smtp_connect s"
  unfolding smtp_connect_def by (intro talk.moves_bind says_wait says_require)

lemma says_start_tls [intro!]: "sm_src_hostname s = h \<Longrightarrow> moves (spoken (clear_lines h)) start_tls s"
  unfolding start_tls_def
  by (intro talk.moves_bind says_send says_wait says_require says_switch says_ehlo) (auto dest!: spoken_keeps)

lemma start_tls_ssl: "start_tls s = (Inr u, s') \<Longrightarrow> sm_ssl s'"
proof -
  assume "start_tls s = (Inr u, s')"
  then obtain s1 s2 where "switch_to_ssl s1 = (Inr (), s2)" "ehlo s2 = (Inr u, s')"
    by (auto simp: start_tls_def switch_to_ssl_def elim!: io_bind_cases)
  then show ?thesis using switch_ssl [of s1] says_ehlo [of s2 "sm_src_hostname s2"] by (auto simp: moves_def dest!: spoken_keeps)
qed

section \<open>Properties\<close>

text \<open>C11: Submitting a message is the dialogue of its envelope (the sender, every recipient of the three
  lists, \<^verbatim>\<open>DATA\<close>) and then its text: the client sends each line only after the replies let it complete
  all turns before, so the text leaves only when every recipient was accepted, it sends nothing after the
  first reply that does not, and it returns normally exactly when every turn is completed.\<close>

theorem submit_follows_dialogue:
  "sm_sent (snd (submit L m s)) = sm_sent s @
     map (\<lambda>t. (sm_ssl s, fst t))
       (take (Suc (progress (envelope m @ [text_turn L m s]) (sm_replies s))) (envelope m @ [text_turn L m s])) \<and>
   (fst (submit L m s) = Inr () \<longleftrightarrow>
      progress (envelope m @ [text_turn L m s]) (sm_replies s) = length (envelope m @ [text_turn L m s]))"
proof -
  note env = dialogue_outcome [of "envelope m" s]
  let ?k = "progress (envelope m) (sm_replies s)"
  show ?thesis
  proof (cases "?k = length (envelope m)")
    case False
    then have "?k < length (envelope m)" using progress_le [of "envelope m" "sm_replies s"] by simp
    moreover obtain e s' where "dialogue (envelope m) s = (Inl e, s')"
      using env False by (cases "dialogue (envelope m) s"; cases "fst (dialogue (envelope m) s)") auto
    ultimately show ?thesis
      using env False by (simp add: submit_dialogue io_bind_Inl progress_append)
  next
    case True
    let ?s = "s\<lparr>sm_sent := sm_sent s @ map (\<lambda>t. (sm_ssl s, fst t)) (envelope m),
      sm_replies := drop (length (envelope m)) (sm_replies s)\<rparr>"
    have "dialogue (envelope m) s = (Inr (), ?s)"
      using env True by (metis prod.collapse take_all le_SucI order_refl)
    moreover obtain t r where t: "format_message L m ?s = (Inr t, ?s\<lparr>sm_random := r\<rparr>)"
      using format_message_ok by blast
    moreover have "fst (format_message L m s) = Inr t"
      using format_message_same [of ?s s L m] by (simp add: t)
    then have "text_turn L m s = (t @ crlf @ ''.'', \<lambda>r. positive_completion (rl_status r), ''Mail message rejection.'')"
      by (simp add: text_turn_def)
    ultimately show ?thesis
      using True dialogue_outcome [of "[text_turn L m s]" "?s\<lparr>sm_random := r\<rparr>"]
      by (simp add: submit_dialogue io_bind_Inr progress_append del: dialogue.simps)
  qed
qed


text \<open>C37: Authentication says nothing in the clear but its greetings and the wish to start TLS: user name and
  password go only through the secured socket, with every method and whatever the server replies.\<close>

theorem credentials_secured:
  "\<exists>new. sm_sent (snd (authenticate user password meth s)) = sm_sent s @ new \<and>
     {l. (False, l) \<in> set new} \<subseteq>
       {''EHLO '' @ sm_src_hostname s, ''HELO '' @ sm_src_hostname s, ''STARTTLS''}"
proof -
  let ?A = "clear_lines (sm_src_hostname s)"
  have "moves (spoken ?A) (authenticate user password meth) s"
    by (cases meth) (auto dest!: spoken_keeps switch_ssl start_tls_ssl)
  then show ?thesis by (auto simp: moves_def spoken_def clear_lines_def)
qed

end
