(* ===== verification/XmlCursor.thy ===== *)
theory XmlCursor
  imports World "HOL-Library.Word"
begin

text \<open>
  \<^verbatim>\<open>app/util/detail/read_ahead_stream_adapter.hpp\<close>: the cursor under the pull parser the example application
  reads GPX files with.  It reads a stream with a buffer of eight characters put back; \<^verbatim>\<open>char\<close> is signed, so
  a byte from 128 up read off the stream is a negative number, which the cursor takes for the end.  The last
  sections give what each operation keeps: it leaves no more to read than there was, and never puts a ninth
  character back; the laws of such operations are a locale the parser shares.
\<close>

section \<open>The stream\<close>

text \<open>A stream that was good when the parser got it: it has not met its end, it has seen it in a \<^verbatim>\<open>peek\<close>
  (\<^verbatim>\<open>eofbit\<close>), or a read has failed there (\<^verbatim>\<open>eofbit\<close> and \<^verbatim>\<open>failbit\<close>).  On a stream that failed without
  meeting its end, as one that could not be opened, the loops of the parser do not return; such a stream
  is not represented.\<close>

datatype xstream_state = XGood | XEof | XFail

record xstream =
  xs_rest :: string
  xs_state :: xstream_state

definition xstream_of :: "string \<Rightarrow> xstream" where
  "xstream_of s = \<lparr>xs_rest = s, xs_state = XGood\<rparr>"

text \<open>\<^verbatim>\<open>get()\<close> and \<^verbatim>\<open>peek()\<close>; \<^verbatim>\<open>EOF\<close> is -1.\<close>

definition xs_get :: "xstream \<Rightarrow> int \<times> xstream" where
  "xs_get st =
     (if xs_state st = XGood then
        (case xs_rest st of c # cs \<Rightarrow> (int (byte c), st\<lparr>xs_rest := cs\<rparr>) | [] \<Rightarrow> (- 1, st\<lparr>xs_state := XFail\<rparr>))
      else (- 1, st\<lparr>xs_state := XFail\<rparr>))"

definition xs_peek :: "xstream \<Rightarrow> int \<times> xstream" where
  "xs_peek st =
     (if xs_state st = XGood then
        (case xs_rest st of c # cs \<Rightarrow> (int (byte c), st) | [] \<Rightarrow> (- 1, st\<lparr>xs_state := XEof\<rparr>))
      else (- 1, st\<lparr>xs_state := XFail\<rparr>))"

section \<open>The cursor\<close>

record cursor =
  cu_strm :: xstream
  cu_line :: int
  cu_chars :: int
  cu_column :: int
  cu_ahead :: string

definition new_cursor :: "xstream \<Rightarrow> cursor" where
  "new_cursor st = \<lparr>cu_strm = st, cu_line = 1, cu_chars = 0, cu_column = 1, cu_ahead = []\<rparr>"

text \<open>The conversion to \<^verbatim>\<open>unsigned char\<close>; that to \<^verbatim>\<open>char\<close> is \<^const>\<open>schar\<close> of it.\<close>

definition uchar :: "int \<Rightarrow> char" where
  "uchar c = char_of (nat (c mod 256))"

lemma uchar_byte [simp]: "uchar (int (byte c)) = c"
  by (simp add: uchar_def flip: of_nat_mod nat_int_comparison)

text \<open>A carriage return is skipped; the character after it is not cast to \<^verbatim>\<open>char\<close>.\<close>

definition cu_get :: "xstream \<Rightarrow> int \<times> xstream" where
  "cu_get st =
     (let (b, st1) = xs_get st; c = schar (uchar b)
      in if c = 13 then xs_get st1 else (c, st1))"

definition cu_read :: "cursor \<Rightarrow> int \<times> cursor" where
  "cu_read cu =
     (let (c, cu) = (case cu_ahead cu of
            x # xs \<Rightarrow> (int (byte x), cu\<lparr>cu_ahead := xs\<rparr>)
          | [] \<Rightarrow> (let (c, st) = cu_get (cu_strm cu) in (c, cu\<lparr>cu_strm := st\<rparr>)));
          cu = cu\<lparr>cu_chars := cu_chars cu + 1, cu_column := cu_column cu + 1\<rparr>
      in (c, if c = 10 then cu\<lparr>cu_line := cu_line cu + 1, cu_column := 1\<rparr> else cu))"

text \<open>\<^verbatim>\<open>next\<close>: false, which is \<^const>\<open>None\<close>, only when an earlier read has reached the end.\<close>

definition cu_next :: "cursor \<Rightarrow> char option \<times> cursor" where
  "cu_next cu =
     (if xs_state (cu_strm cu) \<noteq> XGood then (None, cu)
      else (let (rc, cu) = cu_read cu in (Some (uchar rc), cu)))"

text \<open>A ninth character put back is written past the end of the buffer.\<close>

definition max_read_ahead :: nat where "max_read_ahead = 8"

definition cu_putback :: "char \<Rightarrow> (cursor, unit) eff" where
  "cu_putback c cu =
     (if max_read_ahead \<le> length (cu_ahead cu) then (Inl Undefined, cu)
      else
        (let cu = cu\<lparr>cu_ahead := c # cu_ahead cu, cu_chars := cu_chars cu - 1, cu_column := cu_column cu - 1\<rparr>
         in (Inr (), if c = LF then cu\<lparr>cu_line := cu_line cu - 1, cu_column := 1\<rparr> else cu)))"

fun cu_putback_all :: "string \<Rightarrow> (cursor, unit) eff" where
  "cu_putback_all [] = io_return ()"
| "cu_putback_all (c # cs) = io_bind (cu_putback c) (\<lambda>u. cu_putback_all cs)"

text \<open>\<^verbatim>\<open>expect\<close>; the second argument is \<^verbatim>\<open>buf\<close>, its last character first.\<close>

fun expect_loop :: "string \<Rightarrow> string \<Rightarrow> (cursor, bool) eff" where
  "expect_loop [] buf cu = (Inr True, cu)"
| "expect_loop (p # ps) buf cu =
     (let (c, cu) = cu_read cu
      in if c < 0 then (Inr False, cu)
         else if schar p \<noteq> c then io_bind (cu_putback_all (uchar c # buf)) (\<lambda>u. io_return False) cu
         else expect_loop ps (uchar c # buf) cu)"

definition cu_expect :: "string \<Rightarrow> (cursor, bool) eff" where
  "cu_expect s = expect_loop s []"

definition cu_good :: "cursor \<Rightarrow> bool" where
  "cu_good cu \<longleftrightarrow> xs_state (cu_strm cu) \<noteq> XFail"

definition cu_peek :: "cursor \<Rightarrow> int \<times> cursor" where
  "cu_peek cu =
     (case cu_ahead cu of
        x # xs \<Rightarrow> (schar x, cu)
      | [] \<Rightarrow> (let (c, st) = xs_peek (cu_strm cu) in (schar (uchar c), cu\<lparr>cu_strm := st\<rparr>)))"

section \<open>What is left to read\<close>

text \<open>Characters left on the stream and put back, and whether the end has been noticed.\<close>

definition strm_left :: "xstream \<Rightarrow> nat" where
  "strm_left st = (if xs_state st = XGood then length (xs_rest st) + 2 else 0)"

definition cu_left :: "cursor \<Rightarrow> nat" where
  "cu_left cu = length (cu_ahead cu) + strm_left (cu_strm cu)"

lemma xs_get_left: "strm_left (snd (xs_get st)) \<le> strm_left st - 1"
  by (auto simp: xs_get_def strm_left_def split: list.splits)

lemma xs_peek_left: "strm_left (snd (xs_peek st)) \<le> strm_left st"
  by (auto simp: xs_peek_def strm_left_def split: list.splits)

lemma cu_get_left: "strm_left (snd (cu_get st)) \<le> strm_left st - 1"
  using xs_get_left [of st] xs_get_left [of "snd (xs_get st)"]
  by (auto simp: cu_get_def Let_def split_beta)

lemma cu_read_left: "cu_left (snd (cu_read cu)) \<le> cu_left cu - 1"
  using cu_get_left [of "cu_strm cu"]
  by (cases "cu_ahead cu") (simp_all add: cu_read_def cu_left_def Let_def split_beta)

text \<open>A read that does not report the end has taken something.\<close>

lemma cu_read_takes: "cu_read cu = (c, cu') \<Longrightarrow> 0 \<le> c \<Longrightarrow> cu_left cu' < cu_left cu"
proof -
  assume r: "cu_read cu = (c, cu')" and c: "0 \<le> c"
  have "c = - 1" if "cu_ahead cu = []" "xs_state (cu_strm cu) \<noteq> XGood"
    using r that by (simp add: cu_read_def cu_get_def xs_get_def uchar_def schar_def Let_def split_beta split: if_splits)
  then have "cu_left cu \<noteq> 0"
    using c by (auto simp: cu_left_def strm_left_def)
  then show ?thesis using cu_read_left [of cu] r by simp
qed

lemma cu_next_takes:
  assumes "cu_next cu = (Some c, cu')"
  shows "cu_left cu' < cu_left cu"
proof -
  have "xs_state (cu_strm cu) = XGood" "cu' = snd (cu_read cu)"
    using assms by (auto simp: cu_next_def split_beta split: if_splits)
  then show ?thesis using cu_read_left [of cu] by (simp add: cu_left_def strm_left_def)
qed

lemma cu_next_none: "cu_next cu = (None, cu') \<Longrightarrow> cu' = cu"
  by (auto simp: cu_next_def split_beta split: if_splits)

lemma cu_peek_left: "cu_left (snd (cu_peek cu)) \<le> cu_left cu"
  using xs_peek_left [of "cu_strm cu"] by (auto simp: cu_peek_def cu_left_def split_beta split: list.splits)

text \<open>The loop of \<^verbatim>\<open>skipWhite\<close> ends at a character that is not white space, which is put back, and at the
  end of the stream.\<close>

function skipWhite :: "(cursor, unit) eff" where
  "skipWhite cu =
     (case cu_read cu of (c, cu') \<Rightarrow>
        if c < 0 then (Inr (), cu')
        else if cu_good cu' \<and> c \<in> {32, 9, 13, 10} then skipWhite cu'
        else cu_putback (uchar c) cu')"
  by pat_completeness auto

termination
  by (relation "measure cu_left") (auto dest: cu_read_takes [OF sym])

declare skipWhite.simps [simp del]

section \<open>What the operations keep\<close>

text \<open>An operation with a contract: it moves the state along a preorder, and from a state that satisfies an
  invariant it comes to one that does and is not undefined.  Operations put together from such operations
  have a contract too.\<close>

definition keeps :: "('s \<Rightarrow> 's \<Rightarrow> bool) \<Rightarrow> ('s \<Rightarrow> bool) \<Rightarrow> ('s, 'r) eff \<Rightarrow> 's \<Rightarrow> bool" where
  "keeps R I m s \<longleftrightarrow> moves R m s \<and> (I s \<longrightarrow> I (snd (m s)) \<and> fst (m s) \<noteq> Inl Undefined)"

locale effect_contract = effect_relation R for R :: "'s \<Rightarrow> 's \<Rightarrow> bool" +
  fixes I :: "'s \<Rightarrow> bool"
begin

lemma keeps_pure [intro!]:
  "keeps R I (io_return x) s"
  "e \<noteq> Undefined \<Longrightarrow> keeps R I (io_throw e) s"
  "r \<noteq> Inl Undefined \<Longrightarrow> keeps R I (io_lift r) s"
  by (auto simp: keeps_def)

lemma keeps_bind [intro!]:
  assumes "keeps R I m s" and "\<And>x s'. m s = (Inr x, s') \<Longrightarrow> keeps R I (k x) s'"
  shows "keeps R I (io_bind m k) s"
proof -
  have "moves R (io_bind m k) s"
    using assms by (auto simp: keeps_def intro!: moves_bind)
  moreover have "I (snd (io_bind m k s)) \<and> fst (io_bind m k s) \<noteq> Inl Undefined" if "I s"
    using assms that by (cases "m s"; cases "fst (m s)") (auto simp: keeps_def io_bind_def)
  ultimately show ?thesis by (simp add: keeps_def)
qed

lemma keeps_step: "R s s' \<Longrightarrow> (I s \<Longrightarrow> I s') \<Longrightarrow> keeps R I n s' \<Longrightarrow> m s = n s' \<Longrightarrow> keeps R I m s"
  by (auto simp: keeps_def moves_def intro: follows)

end

definition cu_shrinks :: "cursor \<Rightarrow> cursor \<Rightarrow> bool" where
  "cu_shrinks cu cu' \<longleftrightarrow> cu_left cu' \<le> cu_left cu"

definition cu_ok :: "cursor \<Rightarrow> bool" where
  "cu_ok cu \<longleftrightarrow> length (cu_ahead cu) \<le> max_read_ahead"

interpretation curs: effect_contract cu_shrinks cu_ok
  by unfold_locales (auto simp: cu_shrinks_def)

abbreviation cu_tame :: "(cursor, 'r) eff \<Rightarrow> cursor \<Rightarrow> bool" where
  "cu_tame \<equiv> keeps cu_shrinks cu_ok"

lemma cu_tame_iff:
  "cu_tame m cu \<longleftrightarrow> cu_left (snd (m cu)) \<le> cu_left cu
     \<and> (length (cu_ahead cu) \<le> 8 \<longrightarrow> length (cu_ahead (snd (m cu))) \<le> 8 \<and> fst (m cu) \<noteq> Inl Undefined)"
  by (simp add: keeps_def moves_def cu_shrinks_def cu_ok_def max_read_ahead_def)

lemma cu_tame_step:
  "cu_left cu' \<le> cu_left cu \<Longrightarrow> (length (cu_ahead cu) \<le> 8 \<Longrightarrow> length (cu_ahead cu') \<le> 8) \<Longrightarrow> cu_tame n cu' \<Longrightarrow>
     m cu = n cu' \<Longrightarrow> cu_tame m cu"
  by (rule curs.keeps_step) (auto simp: cu_shrinks_def cu_ok_def max_read_ahead_def)

lemma cu_read_ahead: "cu_ahead (snd (cu_read cu)) = tl (cu_ahead cu)"
  by (cases "cu_ahead cu") (simp_all add: cu_read_def Let_def split_beta)

lemma cu_next_ahead: "cu_next cu = (Some c, cu') \<Longrightarrow> cu_ahead cu' = tl (cu_ahead cu)"
  using cu_read_ahead [of cu] by (auto simp: cu_next_def split_beta split: if_splits)

lemma cu_peek_ahead: "cu_ahead (snd (cu_peek cu)) = cu_ahead cu"
  by (cases "cu_ahead cu") (simp_all add: cu_peek_def split_beta)

lemma cu_putback_effect:
  "cu_left (snd (cu_putback c cu)) \<le> cu_left cu + 1"
  "length (cu_ahead cu) < 8 \<Longrightarrow> fst (cu_putback c cu) = Inr () \<and> cu_ahead (snd (cu_putback c cu)) = c # cu_ahead cu"
  by (auto simp: cu_putback_def cu_left_def Let_def max_read_ahead_def)

lemma cu_putback_all_left: "cu_left (snd (cu_putback_all cs cu)) \<le> cu_left cu + length cs"
proof (induction cs arbitrary: cu)
  case (Cons c cs)
  show ?case
  proof (cases "cu_putback c cu")
    case (Pair r cu')
    then show ?thesis
      using Cons.IH [of cu'] cu_putback_effect(1) [of c cu] by (cases r) (simp_all add: io_bind_def)
  qed
qed simp

lemma cu_putback_all_ahead:
  "length (cu_ahead cu) + length cs \<le> 8 \<Longrightarrow>
     fst (cu_putback_all cs cu) = Inr () \<and> cu_ahead (snd (cu_putback_all cs cu)) = rev cs @ cu_ahead cu"
proof (induction cs arbitrary: cu)
  case (Cons c cs)
  obtain r cu' where p: "cu_putback c cu = (r, cu')" by (cases "cu_putback c cu")
  have "r = Inr ()" "cu_ahead cu' = c # cu_ahead cu"
    using cu_putback_effect(2) [of cu c] Cons.prems p by auto
  then show ?case using Cons.IH [of cu'] Cons.prems p by (simp add: io_bind_Inr)
qed simp

lemma expect_loop_left: "cu_left cu + length buf \<le> n \<Longrightarrow> cu_left (snd (expect_loop ps buf cu)) \<le> n"
proof (induction ps buf cu rule: expect_loop.induct)
  case (2 p ps buf cu)
  obtain c cu' where r: "cu_read cu = (c, cu')" by (cases "cu_read cu")
  have le: "cu_left cu' \<le> cu_left cu" using cu_read_left [of cu] r by simp
  show ?case
  proof (cases "c < 0")
    case False
    then have lt: "cu_left cu' < cu_left cu" using cu_read_takes [OF r] by simp
    have undone: "cu_left (snd (cu_putback_all (uchar c # buf) cu')) \<le> n"
      using cu_putback_all_left [of "uchar c # buf" cu'] lt 2 by simp
    show ?thesis
    proof (cases "schar p = c")
      case True
      then show ?thesis using 2 r lt False by simp
    next
      case neq: False
      then show ?thesis
        using undone r False
        by (cases "cu_putback_all (uchar c # buf) cu'"; cases "fst (cu_putback_all (uchar c # buf) cu')")
          (simp_all add: io_bind_def)
    qed
  qed (use 2 r le in simp)
qed simp

lemma expect_loop_takes: "expect_loop ps buf cu = (Inr True, cu') \<Longrightarrow> cu_left cu' + length ps \<le> cu_left cu"
proof (induction ps buf cu rule: expect_loop.induct)
  case (2 p ps buf cu)
  obtain c cu1 where r: "cu_read cu = (c, cu1)" by (cases "cu_read cu")
  have no: "io_bind (cu_putback_all (uchar c # buf)) (\<lambda>u. io_return False) cu1 \<noteq> (Inr True, cu')"
    by (auto elim!: io_bind_cases)
  have c: "\<not> c < 0" "schar p = c" "expect_loop ps (uchar c # buf) cu1 = (Inr True, cu')"
    using "2.prems" r no by (auto simp: Let_def simp del: cu_putback_all.simps split: if_splits)
  then have "cu_left cu' + length ps \<le> cu_left cu1"
    using "2.IH" [OF r [symmetric] refl c(1)] by simp
  then show ?case using cu_read_takes [OF r] c(1) by simp
qed simp

lemma expect_loop_ahead:
  "cu_ahead cu = [] \<or> length (cu_ahead cu) + length buf \<le> 8 \<Longrightarrow> length buf + length ps \<le> 8 \<Longrightarrow>
     length (cu_ahead (snd (expect_loop ps buf cu))) \<le> 8 \<and> fst (expect_loop ps buf cu) \<noteq> Inl Undefined"
proof (induction ps buf cu rule: expect_loop.induct)
  case (2 p ps buf cu)
  obtain c cu' where r: "cu_read cu = (c, cu')" by (cases "cu_read cu")
  have ahead: "cu_ahead cu' = tl (cu_ahead cu)" using cu_read_ahead [of cu] r by simp
  then have room: "cu_ahead cu' = [] \<or> length (cu_ahead cu') + length (uchar c # buf) \<le> 8"
    using "2.prems"(1) by (cases "cu_ahead cu") auto
  then have "length (cu_ahead cu') + length (uchar c # buf) \<le> 8" using "2.prems"(2) by auto
  then have "fst (cu_putback_all (uchar c # buf) cu') = Inr ()"
    "length (cu_ahead (snd (cu_putback_all (uchar c # buf) cu'))) \<le> 8"
    using cu_putback_all_ahead [of cu' "uchar c # buf"] by (simp_all del: cu_putback_all.simps)
  then have "length (cu_ahead (snd (io_bind (cu_putback_all (uchar c # buf)) (\<lambda>u. io_return False) cu'))) \<le> 8
      \<and> fst (io_bind (cu_putback_all (uchar c # buf)) (\<lambda>u. io_return False) cu') \<noteq> Inl Undefined"
    by (cases "cu_putback_all (uchar c # buf) cu'") (simp add: io_bind_def)
  then show ?case
    using "2.IH" [OF r [symmetric] refl] room "2.prems" r ahead by (cases "cu_ahead cu") (auto simp: Let_def)
qed auto

text \<open>The cursor does not throw.\<close>

lemma cu_putback_all_throws: "fst (cu_putback_all cs cu) = Inl e \<Longrightarrow> e = Undefined"
proof (induction cs arbitrary: cu)
  case (Cons c cs)
  obtain r cu1 where p: "cu_putback c cu = (r, cu1)" by (cases "cu_putback c cu")
  then have "r = Inl Undefined \<or> r = Inr ()" by (auto simp: cu_putback_def Let_def split: if_splits)
  then show ?case using Cons p by (auto simp: io_bind_def)
qed simp

lemma expect_loop_throws: "fst (expect_loop ps buf cu) = Inl e \<Longrightarrow> e = Undefined"
proof (induction ps buf cu rule: expect_loop.induct)
  case (2 p ps buf cu)
  obtain c cu1 where r: "cu_read cu = (c, cu1)" by (cases "cu_read cu")
  obtain q cu2 where b: "cu_putback_all (uchar c # buf) cu1 = (q, cu2)"
    by (cases "cu_putback_all (uchar c # buf) cu1")
  show ?case
  proof (cases "c < 0 \<or> schar p = c")
    case True
    then show ?thesis using 2 r by (auto simp: Let_def simp del: cu_putback_all.simps split: if_splits)
  next
    case False
    then have "q = Inl e"
      using "2.prems" r b by (cases q) (auto simp: Let_def io_bind_def simp del: cu_putback_all.simps)
    then show ?thesis using cu_putback_all_throws [of "uchar c # buf" cu1] b by simp
  qed
qed simp

lemma cu_expect_throws: "fst (cu_expect s cu) = Inl e \<Longrightarrow> e = Undefined"
  unfolding cu_expect_def by (rule expect_loop_throws)

lemma cu_expect_tame: "length s \<le> 8 \<Longrightarrow> cu_tame (cu_expect s) cu"
  using expect_loop_left [of cu "[]" "cu_left cu" s] expect_loop_ahead [of cu "[]" s]
  by (simp add: cu_tame_iff cu_expect_def)

lemma cu_putback_tame:
  "cu_left cu < n \<Longrightarrow> cu_left (snd (cu_putback c cu)) \<le> n"
  "length (cu_ahead cu) \<le> 7 \<Longrightarrow> length (cu_ahead (snd (cu_putback c cu))) \<le> 8 \<and> fst (cu_putback c cu) \<noteq> Inl Undefined"
  using cu_putback_effect(1) [of c cu] cu_putback_effect(2) [of cu c] by auto

lemma skipWhite_tame: "cu_tame skipWhite cu"
proof (induction cu rule: skipWhite.induct)
  case (1 cu)
  obtain c cu' where r: "cu_read cu = (c, cu')" by (cases "cu_read cu")
  have ahead: "cu_ahead cu' = tl (cu_ahead cu)" using cu_read_ahead [of cu] r by simp
  consider "c < 0" | "0 \<le> c" "cu_good cu' \<and> c \<in> {32, 9, 13, 10}" | "0 \<le> c" "\<not> (cu_good cu' \<and> c \<in> {32, 9, 13, 10})"
    by fastforce
  then show ?case
  proof cases
    case 1
    then show ?thesis
      using cu_read_left [of cu] r ahead by (auto simp: cu_tame_iff skipWhite.simps [of cu])
  next
    case 2
    then have "cu_tame skipWhite cu'" using "1.IH" [OF r [symmetric]] by simp
    moreover have "cu_left cu' < cu_left cu" using cu_read_takes [OF r] 2 by simp
    ultimately show ?thesis
      using 2 r ahead by (simp add: cu_tame_iff skipWhite.simps [of cu])
  next
    case 3
    then have "skipWhite cu = cu_putback (uchar c) cu'" by (auto simp: skipWhite.simps [of cu] r)
    moreover have "cu_left cu' < cu_left cu" using cu_read_takes [OF r] 3 by simp
    ultimately show ?thesis
      using cu_putback_tame [of cu'] ahead by (simp add: cu_tame_iff)
  qed
qed

lemma skipWhite_throws: "fst (skipWhite cu) = Inl e \<Longrightarrow> e = Undefined"
proof (induction cu rule: skipWhite.induct)
  case (1 cu)
  obtain c cu' where r: "cu_read cu = (c, cu')" by (cases "cu_read cu")
  have "fst (cu_putback (uchar c) cu') = Inl e \<Longrightarrow> e = Undefined"
    by (auto simp: cu_putback_def Let_def split: if_splits)
  then show ?case
    using 1(1) [OF r [symmetric]] 1(2) r by (auto simp: skipWhite.simps [of cu] split: if_splits)
qed

text \<open>\<^verbatim>\<open>peek\<close> as an effect.\<close>

definition cursor_peek :: "(cursor, int) eff" where
  "cursor_peek cu = (case cu_peek cu of (c, cu') \<Rightarrow> (Inr c, cu'))"

lemma cursor_peek_tame: "cu_tame cursor_peek cu"
  using cu_peek_left [of cu] cu_peek_ahead [of cu] by (simp add: cu_tame_iff cursor_peek_def split_beta)

end
