(* ===== verification/XmlPull.thy ===== *)
theory XmlPull
  imports XmlCursor Util "HOL-Library.Word"
begin

unbundle bit_operations_syntax

text \<open>
  \<^verbatim>\<open>app/util/xml_pull_parser.cpp\<close>: the pull parser over the cursor, in the order of the file.  What reads
  characters only is an effect on the cursor, what changes the parser one on its record; the two vectors of
  the parser are lists with the back of the vector first.  Characters are classified as in the "C" locale.
  A member function that returns false and fills an argument on success returns an option here.
\<close>

section \<open>Characters and names\<close>

definition is_valid_name_char :: "char \<Rightarrow> nat \<Rightarrow> bool" where
  "is_valid_name_char c idx =
     (if idx = 0 then isalpha c \<or> c = CHR ''_'' \<or> c = CHR '':''
      else isalnum c \<or> c = CHR ''-'' \<or> c = CHR ''_'' \<or> c = CHR ''.'' \<or> c = CHR '':'')"

text \<open>The byte order mark; a byte of it reads as a negative number.\<close>

definition parseBOM :: "(cursor, bool) eff" where
  "parseBOM = cu_expect (map char_of [0xef :: nat, 0xbb, 0xbf])"

definition low_char :: "32 word \<Rightarrow> char" where
  "low_char w = char_of (unat w)"

definition utf8_encode :: "32 word \<Rightarrow> string option" where
  "utf8_encode utf =
     (if utf \<le> 0x7F then Some [low_char utf]
      else if utf \<le> 0x07FF then
        Some [low_char ((drop_bit 6 utf AND 0x1F) OR 0xC0),
              low_char ((drop_bit 0 utf AND 0x3F) OR 0x80)]
      else if utf \<le> 0xFFFF then
        Some [low_char ((drop_bit 12 utf AND 0x0F) OR 0xE0),
              low_char ((drop_bit 6 utf AND 0x3F) OR 0x80),
              low_char ((drop_bit 0 utf AND 0x3F) OR 0x80)]
      else if utf \<le> 0x10FFFF then
        Some [low_char ((drop_bit 18 utf AND 0x07) OR 0xF0),
              low_char ((drop_bit 12 utf AND 0x3F) OR 0x80),
              low_char ((drop_bit 6 utf AND 0x3F) OR 0x80),
              low_char ((drop_bit 0 utf AND 0x3F) OR 0x80)]
      else None)"

text \<open>\<^verbatim>\<open>std::stoul\<close> for a base up to 16, on a 64-bit \<^verbatim>\<open>unsigned long\<close>.\<close>

definition digit_val :: "char \<Rightarrow> nat" where
  "digit_val c =
     (if isdigit c then byte c - 48
      else if islower c then byte c - 87 else if isupper c then byte c - 55 else 99)"

definition strip_0x :: "nat \<Rightarrow> string \<Rightarrow> string" where
  "strip_0x base s =
     (case s of
        z # x # d # _ \<Rightarrow>
          if base = 16 \<and> z = CHR ''0'' \<and> (x = CHR ''x'' \<or> x = CHR ''X'') \<and> digit_val d < 16 then drop 2 s else s
      | _ \<Rightarrow> s)"

definition stoul :: "nat \<Rightarrow> string \<Rightarrow> nat result" where
  "stoul base s =
     (let (sg, t) = strip_sign (dropWhile isspace s);
          ds = takeWhile (\<lambda>c. digit_val c < base) (strip_0x base t);
          v = foldl (\<lambda>a c. base * a + digit_val c) 0 ds
      in if ds = [] then Inl Invalid_argument
         else if 2 ^ 64 \<le> v then Inl Out_of_range
         else Inr (nat ((sg * int v) mod 2 ^ 64)))"

text \<open>The characters of an entity up to the semicolon: five are kept, a sixth is read and dropped.\<close>

function escape_chars :: "string \<Rightarrow> cursor \<Rightarrow> string \<times> cursor" where
  "escape_chars quot cu =
     (case cu_next cu of
        (None, cu') \<Rightarrow> (quot, cu')
      | (Some c, cu') \<Rightarrow>
          if c \<noteq> CHR '';'' \<and> length quot < 5 then escape_chars (quot @ [c]) cu' else (quot, cu'))"
  by pat_completeness auto

termination
  by (relation "measure (\<lambda>(quot, cu). cu_left cu)") (auto dest: cu_next_takes [OF sym])

declare escape_chars.simps [simp del]

definition escape_value :: "string \<Rightarrow> string option result" where
  "escape_value quot =
     (if quot = ''amp'' then Inr (Some ''&'')
      else if quot = ''quot'' then Inr (Some [DQ])
      else if quot = ''lt'' then Inr (Some ''<'')
      else if quot = ''gt'' then Inr (Some ''>'')
      else if quot = ''apos'' then Inr (Some [SQ])
      else if 2 < length quot \<and> quot ! 0 = CHR ''#'' then
        (case (if quot ! 1 = CHR ''x'' then stoul 16 (drop 2 quot) else stoul 10 (drop 1 quot)) of
           Inl e \<Rightarrow> if e = Invalid_argument then Inr None else Inl e
         | Inr c \<Rightarrow> Inr (utf8_encode (word_of_nat c)))
      else Inr None)"

definition escapeString :: "(cursor, string option) eff" where
  "escapeString cu = (case escape_chars [] cu of (quot, cu') \<Rightarrow> (escape_value quot, cu'))"

section \<open>Attributes\<close>

definition make_message :: "string \<Rightarrow> int \<Rightarrow> int \<Rightarrow> string" where
  "make_message msg line col = msg @ '' (near '' @ int_str line @ '':'' @ int_str col"

definition fatal :: "string \<Rightarrow> (cursor, 'r) eff" where
  "fatal msg cu = (Inl (Runtime_error (make_message msg (cu_line cu) (cu_column cu))), cu)"

definition parse_attributes_error :: string where
  "parse_attributes_error = ''Error parsing attribute list''"

text \<open>\<^verbatim>\<open>c\<close> is the character read last, \<^verbatim>\<open>oc\<close> the opening quote.\<close>

function attribute_value_loop :: "char \<Rightarrow> char \<Rightarrow> string \<Rightarrow> (cursor, string option) eff" where
  "attribute_value_loop oc c val cu =
     (case cu_next cu of
        (None, cu') \<Rightarrow> (Inr (if c = oc then Some val else None), cu')
      | (Some c', cu') \<Rightarrow>
          if c' = CHR ''&'' then
            (case escapeString cu' of
               (Inl e, cu'') \<Rightarrow> (Inl e, cu'')
             | (Inr None, cu'') \<Rightarrow> (Inr None, cu'')
             | (Inr (Some x), cu'') \<Rightarrow> attribute_value_loop oc c' (val @ x) cu'')
          else if c' = CHR ''<'' then (Inr None, cu')
          else if c' = oc then (Inr (Some val), cu')
          else attribute_value_loop oc c' (val @ [c']) cu')"
  by pat_completeness auto

text \<open>Reading characters one after the other leaves less to read.\<close>

lemma escape_chars_left: "cu_left (snd (escape_chars quot cu)) \<le> cu_left cu"
proof (induction quot cu rule: escape_chars.induct)
  case (1 quot cu)
  show ?case
  proof (cases "cu_next cu")
    case (Pair r cu')
    show ?thesis
    proof (cases r)
      case None
      then show ?thesis using Pair cu_next_none [of cu cu'] by (simp add: escape_chars.simps [of quot cu])
    next
      case (Some c)
      then have "cu_left cu' < cu_left cu" using Pair cu_next_takes by blast
      then show ?thesis
        using 1 [OF Pair [symmetric] Some] Pair Some by (auto simp: escape_chars.simps [of quot cu])
    qed
  qed
qed

lemma escapeString_left: "cu_left (snd (escapeString cu)) \<le> cu_left cu"
  using escape_chars_left [of "[]" cu] by (simp add: escapeString_def split_beta)

termination attribute_value_loop
proof (relation "measure (\<lambda>(oc, c, val, cu). cu_left cu)", goal_cases)
  case (2 oc c val cu r cu' c' q cu'' v x)
  then have "cu_left cu' < cu_left cu" "cu_left cu'' \<le> cu_left cu'"
    using cu_next_takes [of cu c' cu'] escapeString_left [of cu'] by (metis, metis snd_conv)
  then show ?case by simp
qed (auto dest: cu_next_takes [OF sym])

declare attribute_value_loop.simps [simp del]

definition parseAttributeValue :: "(cursor, string option) eff" where
  "parseAttributeValue cu =
     (case cu_next cu of
        (None, cu') \<Rightarrow> (Inr None, cu')
      | (Some c, cu') \<Rightarrow> if c \<noteq> DQ \<and> c \<noteq> SQ then (Inr None, cu') else attribute_value_loop c c [] cu')"

text \<open>The prefix stays as it was when the name has no colon.\<close>

definition breakDownName :: "string \<Rightarrow> string \<Rightarrow> string \<times> string" where
  "breakDownName name prefix_was =
     (case find_char name CHR '':'' of
        None \<Rightarrow> (prefix_was, name)
      | Some idx \<Rightarrow> (take idx name, drop (idx + 1) name))"

text \<open>The name read, which may be empty.\<close>

function name_loop :: "string \<Rightarrow> (cursor, string) eff" where
  "name_loop name cu =
     (case cu_next cu of
        (None, cu') \<Rightarrow> (Inr name, cu')
      | (Some c, cu') \<Rightarrow>
          if is_valid_name_char c (length name) then name_loop (name @ [c]) cu'
          else io_bind (cu_putback c) (\<lambda>u. io_return name) cu')"
  by pat_completeness auto

termination
  by (relation "measure (\<lambda>(name, cu). cu_left cu)") (auto dest: cu_next_takes [OF sym])

declare name_loop.simps [simp del]

definition parseName :: "(cursor, string) eff" where
  "parseName = name_loop []"

text \<open>An attribute after its name: the equals sign and the value, in white space.\<close>

definition attribute_rest :: "(cursor, string) eff" where
  "attribute_rest =
     io_bind skipWhite (\<lambda>u. io_bind (cu_expect ''='') (\<lambda>eq.
       if \<not> eq then fatal parse_attributes_error
       else io_bind skipWhite (\<lambda>u. io_bind parseAttributeValue (\<lambda>v.
         case v of None \<Rightarrow> fatal parse_attributes_error | Some val \<Rightarrow> io_return val))))"

text \<open>After the value: whether the list goes on.\<close>

definition attributes_go_on :: "(cursor, bool) eff" where
  "attributes_go_on =
     io_bind skipWhite (\<lambda>u. io_bind cursor_peek (\<lambda>c.
       if c \<in> {47, 62, 63} then io_return False else (\<lambda>cu. (Inr (cu_good cu), cu))))"

section \<open>What the readers keep\<close>

lemma cu_next_tame:
  assumes "cu_next cu = (r, cu')"
  shows "cu_left cu' \<le> cu_left cu" "length (cu_ahead cu) \<le> 8 \<Longrightarrow> length (cu_ahead cu') \<le> 8"
    "r \<noteq> None \<Longrightarrow> length (cu_ahead cu) \<le> 8 \<Longrightarrow> length (cu_ahead cu') \<le> 7" "r \<noteq> None \<Longrightarrow> cu_left cu' < cu_left cu"
  using assms cu_next_none [of cu cu'] cu_next_ahead [of cu _ cu'] cu_next_takes [of cu _ cu']
  by (cases r; fastforce)+

lemma stoul_defined: "stoul base s \<noteq> Inl Undefined"
  by (simp add: stoul_def Let_def split_beta)

lemma escape_value_defined: "escape_value quot \<noteq> Inl Undefined"
  using stoul_defined [of 16 "drop 2 quot"] stoul_defined [of 10 "drop 1 quot"]
  by (cases "stoul 16 (drop 2 quot)"; cases "stoul 10 (drop 1 quot)") (auto simp: escape_value_def)

lemma escape_chars_ahead: "length (cu_ahead cu) \<le> 8 \<Longrightarrow> length (cu_ahead (snd (escape_chars quot cu))) \<le> 8"
proof (induction quot cu rule: escape_chars.induct)
  case (1 quot cu)
  obtain r cu' where n: "cu_next cu = (r, cu')" by (cases "cu_next cu")
  show ?case
    using 1(1) [OF n [symmetric]] 1(2) n cu_next_tame(2) [OF n]
    by (cases r) (simp_all add: escape_chars.simps [of quot cu])
qed

lemma escapeString_tame: "cu_tame escapeString cu"
proof -
  have "fst (escapeString cu) \<noteq> Inl Undefined"
    using escape_value_defined by (simp add: escapeString_def split_beta)
  then show ?thesis
    using escapeString_left [of cu] escape_chars_ahead [of cu "[]"]
    by (simp add: cu_tame_iff) (simp add: escapeString_def split_beta)
qed

lemma attribute_value_loop_tame: "cu_tame (attribute_value_loop oc c val) cu"
proof (induction oc c val cu rule: attribute_value_loop.induct)
  case (1 oc c val cu)
  obtain r cu' where n: "cu_next cu = (r, cu')" by (cases "cu_next cu")
  note tame = cu_next_tame [OF n]
  show ?case
  proof (cases r)
    case None
    then show ?thesis using n tame by (simp add: cu_tame_iff attribute_value_loop.simps [of _ _ _ cu])
  next
    case (Some c')
    obtain e cu'' where esc: "escapeString cu' = (e, cu'')" by (cases "escapeString cu'")
    have et: "cu_left cu'' \<le> cu_left cu'" "length (cu_ahead cu') \<le> 8 \<Longrightarrow> length (cu_ahead cu'') \<le> 8 \<and> e \<noteq> Inl Undefined"
      using escapeString_tame [of cu'] esc by (simp_all add: cu_tame_iff)
    show ?thesis
    proof (cases "c' = CHR ''&''")
      case True
      show ?thesis
      proof (cases "\<exists>x. e = Inr (Some x)")
        case True
        then obtain x where e: "e = Inr (Some x)" by blast
        have "cu_tame (attribute_value_loop oc c' (val @ x)) cu''"
          using 1(1) [OF n [symmetric] Some \<open>c' = CHR ''&''\<close> esc [symmetric] e refl] .
        then show ?thesis
          using tame et \<open>c' = CHR ''&''\<close> e n esc Some
          by (auto simp: cu_tame_iff attribute_value_loop.simps [of oc c val cu])
      next
        case False
        then show ?thesis
          using tame et \<open>c' = CHR ''&''\<close> n esc Some
          by (auto simp: cu_tame_iff attribute_value_loop.simps [of oc c val cu] split: sum.split option.split)
      qed
    next
      case False
      then show ?thesis
        using 1(2) [OF n [symmetric] Some False] tame n Some
        by (auto simp: cu_tame_iff attribute_value_loop.simps [of oc c val cu])
    qed
  qed
qed

lemma parseAttributeValue_tame: "cu_tame parseAttributeValue cu"
proof -
  obtain r cu' where n: "cu_next cu = (r, cu')" by (cases "cu_next cu")
  note tame = cu_next_tame [OF n]
  show ?thesis
  proof (cases "\<exists>c. r = Some c \<and> (c = DQ \<or> c = SQ)")
    case True
    then obtain c where "parseAttributeValue cu = attribute_value_loop c c [] cu'"
      using n by (auto simp: parseAttributeValue_def)
    then show ?thesis
      using tame attribute_value_loop_tame [of c c "[]" cu'] by (auto simp: cu_tame_iff)
  next
    case False
    then have "parseAttributeValue cu = (Inr None, cu')"
      using n by (auto simp: parseAttributeValue_def split: option.split)
    then show ?thesis using tame by (simp add: cu_tame_iff)
  qed
qed

lemma putback_return_tame:
  "cu_left cu < n \<Longrightarrow> cu_left (snd (io_bind (cu_putback c) (\<lambda>u. io_return x) cu)) \<le> n"
  "length (cu_ahead cu) \<le> 7 \<Longrightarrow> length (cu_ahead (snd (io_bind (cu_putback c) (\<lambda>u. io_return x) cu))) \<le> 8
     \<and> fst (io_bind (cu_putback c) (\<lambda>u. io_return x) cu) \<noteq> Inl Undefined"
  using cu_putback_tame [of cu] by (auto simp: io_bind_def split: prod.splits sum.splits)
    (metis fst_conv snd_conv)+

lemma name_loop_tame: "cu_tame (name_loop name) cu"
proof (induction name cu rule: name_loop.induct)
  case (1 name cu)
  obtain r cu' where n: "cu_next cu = (r, cu')" by (cases "cu_next cu")
  note tame = cu_next_tame [OF n]
  show ?case
  proof (cases r)
    case (Some c)
    then show ?thesis
      using 1 [OF n [symmetric] Some] tame n putback_return_tame(1) [of cu' "cu_left cu" c name]
        putback_return_tame(2) [of cu' c name]
      by (auto simp: cu_tame_iff name_loop.simps [of name cu])
  qed (use n tame in \<open>simp add: cu_tame_iff name_loop.simps [of _ cu]\<close>)
qed

lemma fatal_tame: "cu_tame (fatal msg) cu"
  by (simp add: cu_tame_iff fatal_def)

lemma attribute_rest_tame: "cu_tame attribute_rest cu"
  unfolding attribute_rest_def
  by (intro curs.keeps_bind skipWhite_tame cu_expect_tame)
    (auto simp: parse_attributes_error_def intro!: fatal_tame skipWhite_tame parseAttributeValue_tame split: option.split)

lemma attributes_go_on_tame: "cu_tame attributes_go_on cu"
  unfolding attributes_go_on_def
  by (intro curs.keeps_bind skipWhite_tame cursor_peek_tame) (auto simp: cu_tame_iff)

text \<open>A name that is not empty has been taken from the stream.\<close>

lemma name_loop_takes:
  "name_loop name cu = (Inr name', cu') \<Longrightarrow> name' \<noteq> name \<Longrightarrow> cu_left cu' < cu_left cu"
proof (induction name cu rule: name_loop.induct)
  case (1 name cu)
  obtain r cu1 where n: "cu_next cu = (r, cu1)" by (cases "cu_next cu")
  have rest: "cu_left (snd (name_loop x cu1)) \<le> cu_left cu1" for x
    using name_loop_tame [of x cu1] by (simp add: cu_tame_iff)
  show ?case
  proof (cases r)
    case (Some c)
    have valid: "is_valid_name_char c (length name)"
    proof (rule ccontr)
      assume "\<not> ?thesis"
      then have "io_bind (cu_putback c) (\<lambda>u. io_return name) cu1 = (Inr name', cu')"
        using "1.prems"(1) n Some by (simp add: name_loop.simps [of name cu])
      then show False using "1.prems"(2) by (auto elim!: io_bind_cases)
    qed
    then have "name_loop (name @ [c]) cu1 = (Inr name', cu')"
      using "1.prems"(1) n Some by (simp add: name_loop.simps [of name cu])
    then show ?thesis
      using rest [of "name @ [c]"] cu_next_tame(4) [OF n] Some by simp
  qed (use 1 n in \<open>simp add: name_loop.simps [of _ cu]\<close>)
qed

lemma parseName_takes: "parseName cu = (Inr name, cu') \<Longrightarrow> name \<noteq> [] \<Longrightarrow> cu_left cu' < cu_left cu"
  unfolding parseName_def by (rule name_loop_takes) auto

lemma parseName_tame: "cu_tame parseName cu"
  by (simp add: parseName_def name_loop_tame)

section \<open>Lists of attributes\<close>

text \<open>The loop of \<^verbatim>\<open>parseAttributeList\<close>, over the cursor and the map it fills.\<close>

function attribute_list_loop :: "(cursor \<times> dict, bool) eff" where
  "attribute_list_loop (cu, attrs) =
     (case parseName cu of
        (Inl e, cu1) \<Rightarrow> (Inl e, (cu1, attrs))
      | (Inr name, cu1) \<Rightarrow>
          if name = [] then (Inr False, (cu1, attrs))
          else
            (case attribute_rest cu1 of
               (Inl e, cu2) \<Rightarrow> (Inl e, (cu2, attrs))
             | (Inr val, cu2) \<Rightarrow>
                 (case attributes_go_on cu2 of
                    (Inl e, cu3) \<Rightarrow> (Inl e, (cu3, dict_emplace name val attrs))
                  | (Inr go, cu3) \<Rightarrow>
                      if go then attribute_list_loop (cu3, dict_emplace name val attrs)
                      else (Inr True, (cu3, dict_emplace name val attrs)))))"
  by pat_completeness auto

termination
proof (relation "measure (\<lambda>(cu, attrs). cu_left cu)", goal_cases)
  case (2 cu attrs r1 cu1 name r2 cu2 val r3 cu3 go)
  then have "cu_left cu1 < cu_left cu" "cu_left cu2 \<le> cu_left cu1" "cu_left cu3 \<le> cu_left cu2"
    using parseName_takes [of cu name cu1] attribute_rest_tame [of cu1] attributes_go_on_tame [of cu2]
    by (auto simp: cu_tame_iff dest: sym)
  then show ?case by simp
qed simp

declare attribute_list_loop.simps [simp del]

lemma attribute_list_loop_tame: "cu_tame (\<lambda>cu. case attribute_list_loop (cu, attrs) of (r, cu', d) \<Rightarrow> (r, cu')) cu"
proof (induction "(cu, attrs)" arbitrary: cu attrs rule: attribute_list_loop.induct)
  case (1 cu attrs)
  obtain r1 cu1 where p1: "parseName cu = (r1, cu1)" by (cases "parseName cu")
  note t1 = parseName_tame [of cu, unfolded cu_tame_iff p1, simplified]
  show ?case
  proof (cases "\<exists>name. r1 = Inr name \<and> name \<noteq> []")
    case True
    then obtain name where n: "r1 = Inr name" "name \<noteq> []" by blast
    obtain r2 cu2 where p2: "attribute_rest cu1 = (r2, cu2)" by (cases "attribute_rest cu1")
    note t2 = attribute_rest_tame [of cu1, unfolded cu_tame_iff p2, simplified]
    show ?thesis
    proof (cases r2)
      case (Inr val)
      obtain r3 cu3 where p3: "attributes_go_on cu2 = (r3, cu3)" by (cases "attributes_go_on cu2")
      note t3 = attributes_go_on_tame [of cu2, unfolded cu_tame_iff p3, simplified]
      show ?thesis
      proof (cases "r3 = Inr True")
        case True
        then show ?thesis
          using 1 [OF p1 [symmetric] n(1) n(2) p2 [symmetric] Inr p3 [symmetric] True TrueI] p1 p2 p3 n Inr t1 t2 t3
          by (auto simp: cu_tame_iff attribute_list_loop.simps [of cu])
      next
        case False
        then show ?thesis
          using p1 p2 p3 n Inr t1 t2 t3
          by (cases r3) (auto simp: cu_tame_iff attribute_list_loop.simps [of cu])
      qed
    qed (use p1 p2 n t1 t2 in \<open>auto simp: cu_tame_iff attribute_list_loop.simps [of cu]\<close>)
  next
    case False
    then show ?thesis
      using p1 t1 by (cases r1) (auto simp: cu_tame_iff attribute_list_loop.simps [of cu])
  qed
qed

section \<open>The parser\<close>

datatype token_type =
    CDSECT | COMMENT | DOCDECL | IGNORABLE_WHITESPACE | PROCESSING_INSTRUCTION
  | START_DOCUMENT | END_DOCUMENT | START_TAG | END_TAG | TEXT

record xml_element =
  el_name :: string
  el_prefix :: string
  el_ns :: string

text \<open>\<^verbatim>\<open>event_\<close> has no value before the first event, which is \<^const>\<open>None\<close>.\<close>

record xml_parser =
  xp_cursor :: cursor
  xp_token :: token_type
  xp_event :: "token_type option"
  xp_attributes :: dict
  xp_name :: string
  xp_prefix :: string
  xp_local_name :: string
  xp_text :: string
  xp_ns :: string
  xp_is_empty :: bool
  xp_is_whitespace :: bool
  xp_depth :: int
  xp_ns_stack :: "dict list"
  xp_elements :: "xml_element list"
  xp_process_ns :: bool

definition XmlPullParser :: "xstream \<Rightarrow> bool \<Rightarrow> xml_parser" where
  "XmlPullParser strm ns =
     \<lparr>xp_cursor = new_cursor strm, xp_token = START_DOCUMENT, xp_event = None, xp_attributes = [], xp_name = [],
      xp_prefix = [], xp_local_name = [], xp_text = [], xp_ns = [], xp_is_empty = False, xp_is_whitespace = True,
      xp_depth = 0, xp_ns_stack = [], xp_elements = [], xp_process_ns = ns\<rparr>"

definition getAttribute :: "xml_parser \<Rightarrow> string \<Rightarrow> string \<Rightarrow> string" where
  "getAttribute s name val = dict_get (xp_attributes s) name val"

text \<open>The innermost declaration that is not empty.\<close>

fun resolveUri :: "dict list \<Rightarrow> string \<Rightarrow> string" where
  "resolveUri [] p = []"
| "resolveUri (ns # stack) p = (let uri = dict_get ns p [] in if uri \<noteq> [] then uri else resolveUri stack p)"

definition getNamespace :: "xml_parser \<Rightarrow> string \<Rightarrow> string" where
  "getNamespace s p = (if p = [] then resolveUri (xp_ns_stack s) ''xmlns'' else resolveUri (xp_ns_stack s) p)"

definition on_cursor :: "(cursor, 'r) eff \<Rightarrow> (xml_parser, 'r) eff" where
  "on_cursor m s = (case m (xp_cursor s) of (r, cu) \<Rightarrow> (r, s\<lparr>xp_cursor := cu\<rparr>))"

definition xp_modify :: "(xml_parser \<Rightarrow> xml_parser) \<Rightarrow> (xml_parser, unit) eff" where
  "xp_modify f s = (Inr (), f s)"

text \<open>\<^verbatim>\<open>parseAttributeList(attrs)\<close> clears the member \<^verbatim>\<open>attributes_\<close>; \<^verbatim>\<open>own\<close> is whether \<^verbatim>\<open>attrs\<close> is that
  member or a local map, which is dropped by the only caller that has one.\<close>

definition parseAttributeList :: "bool \<Rightarrow> (xml_parser, bool) eff" where
  "parseAttributeList own s =
     (case attribute_list_loop (xp_cursor s, []) of
        (r, cu, attrs) \<Rightarrow> (r, s\<lparr>xp_cursor := cu, xp_attributes := (if own then attrs else [])\<rparr>))"

definition parseXmlDecl :: "(xml_parser, bool) eff" where
  "parseXmlDecl =
     io_bind (on_cursor (cu_expect ''<?xml'')) (\<lambda>found.
       if \<not> found then io_return False
       else io_bind (on_cursor skipWhite) (\<lambda>u. io_bind (parseAttributeList False) (\<lambda>ok.
         if \<not> ok then on_cursor (fatal parse_attributes_error)
         else io_bind (on_cursor skipWhite) (\<lambda>u. io_bind (on_cursor (cu_expect ''?>'')) (\<lambda>found.
           if \<not> found then on_cursor (fatal parse_attributes_error) else io_return True)))))"

section \<open>Tags\<close>

text \<open>\<^verbatim>\<open>parseName(name_)\<close>: the member takes what was read, also when that is nothing.\<close>

definition parse_name_member :: "(xml_parser, bool) eff" where
  "parse_name_member =
     io_bind (on_cursor parseName) (\<lambda>name. io_bind (xp_modify (xp_name_update (\<lambda>_. name))) (\<lambda>u.
       io_return (name \<noteq> [])))"

definition ns_prefix_of :: "string \<Rightarrow> string" where
  "ns_prefix_of key =
     (let (pfx, localName) = breakDownName key []
      in if pfx = [] then []
         else if pfx = ''xmlns'' then localName
         else if localName = ''xmlns'' then ''default'' else [])"

definition parseNameSpaceAttributes :: "xml_parser \<Rightarrow> xml_parser" where
  "parseNameSpaceAttributes s =
     s\<lparr>xp_ns_stack :=
         fold (\<lambda>(key, val) ns_attrs. if ns_prefix_of key = [] then ns_attrs else dict_emplace (ns_prefix_of key) val ns_attrs)
           (xp_attributes s) [] # xp_ns_stack s\<rparr>"

text \<open>The middle of \<^verbatim>\<open>parseStartElement\<close>: the local name, prefix and namespace of the element, which goes
  on the stack.\<close>

definition break_down_member :: "xml_parser \<Rightarrow> xml_parser" where
  "break_down_member s =
     (case breakDownName (xp_name s) (xp_prefix s) of
        (pfx, loc) \<Rightarrow> s\<lparr>xp_prefix := pfx, xp_local_name := loc\<rparr>)"

definition open_element :: "xml_parser \<Rightarrow> xml_parser" where
  "open_element s =
     (let s = (if xp_process_ns s
               then (let s = break_down_member (parseNameSpaceAttributes s)
                     in s\<lparr>xp_ns := getNamespace s (xp_prefix s)\<rparr>)
               else s\<lparr>xp_local_name := xp_name s\<rparr>)
      in s\<lparr>xp_elements := \<lparr>el_name = xp_local_name s, el_prefix = xp_prefix s, el_ns = xp_ns s\<rparr> # xp_elements s\<rparr>)"

text \<open>The result of the attribute list is not looked at.\<close>

definition start_element_head :: "(xml_parser, unit) eff" where
  "start_element_head =
     io_bind (on_cursor skipWhite) (\<lambda>u. io_bind parse_name_member (\<lambda>named.
       if \<not> named then on_cursor (fatal ''Error parsing start element name'')
       else io_bind (on_cursor skipWhite) (\<lambda>u. io_bind (parseAttributeList True) (\<lambda>listed.
         io_bind (on_cursor skipWhite) (\<lambda>u. xp_modify open_element)))))"

definition start_element_close :: "(xml_parser, bool) eff" where
  "start_element_close =
     io_bind (on_cursor (cu_expect ''/>'')) (\<lambda>found.
       if found then io_bind (xp_modify (xp_is_empty_update (\<lambda>_. True))) (\<lambda>u. io_return True)
       else io_bind (on_cursor (cu_expect ''>'')) (\<lambda>found.
         if found then io_bind (xp_modify (xp_is_empty_update (\<lambda>_. False))) (\<lambda>u. io_return True)
         else io_return False))"

definition parseStartElement :: "(xml_parser, bool) eff" where
  "parseStartElement =
     io_bind (on_cursor cursor_peek) (\<lambda>c.
       if c < 0 \<or> c = 47 then io_return False
       else io_bind start_element_head (\<lambda>u. start_element_close))"

definition cursor_read :: "(cursor, int) eff" where
  "cursor_read cu = (case cu_read cu of (c, cu') \<Rightarrow> (Inr c, cu'))"

definition parseEndElement :: "(xml_parser, bool) eff" where
  "parseEndElement =
     io_bind (on_cursor cursor_peek) (\<lambda>c.
       if c < 0 then io_return False
       else if c = 47 then
         io_bind (on_cursor cursor_read) (\<lambda>u. io_bind (on_cursor skipWhite) (\<lambda>u. io_bind parse_name_member (\<lambda>named.
           if \<not> named then on_cursor (fatal ''Error parsing end element name'')
           else io_bind (on_cursor skipWhite) (\<lambda>u. io_bind (on_cursor (cu_expect ''>'')) (\<lambda>found.
             if found then io_return True else on_cursor (fatal ''Invalid end element tag'')))))
         )
       else io_return False)"

section \<open>Text and the rest of the markup\<close>

text \<open>The loop of \<^verbatim>\<open>parseCharacters\<close>, over the cursor, \<^verbatim>\<open>text_\<close> and \<^verbatim>\<open>is_whitespace_\<close>.\<close>

function characters_loop :: "(cursor \<times> string \<times> bool, unit) eff" where
  "characters_loop (cu, txt, ws) =
     (case cu_next cu of
        (None, cu1) \<Rightarrow> (Inr (), (cu1, txt, ws))
      | (Some c, cu1) \<Rightarrow>
          if c = CR then characters_loop (cu1, txt, ws)
          else if c = CHR ''<'' then (case cu_putback c cu1 of (r, cu2) \<Rightarrow> (r, (cu2, txt, ws)))
          else if c = CHR ''&'' then
            (case escapeString cu1 of
               (Inl e, cu2) \<Rightarrow> (Inl e, (cu2, txt, False))
             | (Inr None, cu2) \<Rightarrow> (case fatal ''Escape string parsing error'' cu2 of (r, cu3) \<Rightarrow> (r, (cu3, txt, False)))
             | (Inr (Some x), cu2) \<Rightarrow> characters_loop (cu2, txt @ x, False))
          else characters_loop (cu1, txt @ [c], ws \<and> (c = CHR '' '' \<or> c = LF)))"
  by pat_completeness auto

termination
proof (relation "measure (\<lambda>(cu, txt, ws). cu_left cu)", goal_cases)
  case (3 cu t ws r cu1 c q cu2 v x)
  then have "cu_left cu1 < cu_left cu" "cu_left cu2 \<le> cu_left cu1"
    using cu_next_takes [of cu c cu1] escapeString_left [of cu1] by (metis, metis snd_conv)
  then show ?case by simp
qed (auto dest: cu_next_takes [OF sym])

declare characters_loop.simps [simp del]

definition parseCharacters :: "(xml_parser, bool) eff" where
  "parseCharacters s =
     (case characters_loop (xp_cursor s, [], True) of
        (r, cu, txt, ws) \<Rightarrow>
          (rmap (\<lambda>u. txt \<noteq> []) r, s\<lparr>xp_cursor := cu, xp_text := txt, xp_is_whitespace := ws\<rparr>))"

text \<open>The two loops of \<^verbatim>\<open>parseDocType\<close>: the inner one to the bracket that closes \<^verbatim>\<open>depth\<close> brackets, the
  outer one to the end of the declaration.\<close>

function doctype_brackets :: "nat \<Rightarrow> cursor \<Rightarrow> cursor" where
  "doctype_brackets depth cu =
     (case cu_next cu of
        (None, cu') \<Rightarrow> cu'
      | (Some c, cu') \<Rightarrow>
          (let depth = (if c = CHR ''['' then depth + 1 else if c = CHR '']'' then depth - 1 else depth)
           in if depth = 0 then cu' else doctype_brackets depth cu'))"
  by pat_completeness auto

termination
  by (relation "measure (\<lambda>(depth, cu). cu_left cu)") (auto dest: cu_next_takes [OF sym])

declare doctype_brackets.simps [simp del]

lemma doctype_brackets_keeps:
  "cu_left (doctype_brackets depth cu) \<le> cu_left cu
     \<and> (length (cu_ahead cu) \<le> 8 \<longrightarrow> length (cu_ahead (doctype_brackets depth cu)) \<le> 8)"
proof (induction depth cu rule: doctype_brackets.induct)
  case (1 depth cu)
  obtain r cu' where n: "cu_next cu = (r, cu')" by (cases "cu_next cu")
  show ?case
    using 1 [OF n [symmetric] _ refl] cu_next_tame [OF n] n
    by (cases r) (auto simp: doctype_brackets.simps [of depth cu] Let_def)
qed

function doctype_loop :: "cursor \<Rightarrow> cursor" where
  "doctype_loop cu =
     (case cu_next cu of
        (None, cu') \<Rightarrow> cu'
      | (Some c, cu') \<Rightarrow>
          if c = CHR ''>'' then cu'
          else if c = CHR ''['' then doctype_loop (doctype_brackets 1 cu')
          else doctype_loop cu')"
  by pat_completeness auto

termination
proof (relation "measure cu_left", goal_cases)
  case (2 cu r cu' c)
  then have "cu_left cu' < cu_left cu" using cu_next_takes [of cu c cu'] by metis
  then show ?case using doctype_brackets_keeps [of 1 cu'] by simp
qed (auto dest: cu_next_takes [OF sym])

declare doctype_loop.simps [simp del]

definition parseDocType :: "(cursor, bool) eff" where
  "parseDocType =
     io_bind (cu_expect ''!DOCTYPE'') (\<lambda>found.
       if found then (\<lambda>cu. (Inr True, doctype_loop cu)) else io_return False)"

text \<open>The loop of \<^verbatim>\<open>parseCData\<close>: whether the end was found, and the text.  A right bracket that does not
  begin the end is dropped.\<close>

function cdata_loop :: "string \<Rightarrow> (cursor, bool \<times> string) eff" where
  "cdata_loop txt cu =
     (case cu_next cu of
        (None, cu1) \<Rightarrow> (Inr (False, txt), cu1)
      | (Some c, cu1) \<Rightarrow>
          if c \<noteq> CHR '']'' then cdata_loop (txt @ [c]) cu1
          else
            (case cu_expect '']>'' cu1 of
               (Inl e, cu2) \<Rightarrow> (Inl e, cu2)
             | (Inr found, cu2) \<Rightarrow> if found then (Inr (True, txt), cu2) else cdata_loop txt cu2))"
  by pat_completeness auto

lemma cu_expect_left: "cu_left (snd (cu_expect s cu)) \<le> cu_left cu"
  using expect_loop_left [of cu "[]" "cu_left cu" s] by (simp add: cu_expect_def)

lemma next_expect_left:
  "cu_next cu = (Some c, cu1) \<Longrightarrow> cu_expect s cu1 = (r, cu2) \<Longrightarrow> cu_left cu2 < cu_left cu"
  using cu_next_takes [of cu c cu1] cu_expect_left [of s cu1] by simp

termination cdata_loop
  by (relation "measure (\<lambda>(t, cu). cu_left cu)")
    (auto dest: cu_next_takes [OF sym] next_expect_left [OF sym sym])

declare cdata_loop.simps [simp del]

text \<open>The loop of \<^verbatim>\<open>parseComment\<close> and \<^verbatim>\<open>parsePI\<close>: the character before the end is not part of the text.\<close>

function markup_loop :: "string \<Rightarrow> string \<Rightarrow> (cursor, string) eff" where
  "markup_loop close txt cu =
     (case cu_next cu of
        (None, cu1) \<Rightarrow> (Inr txt, cu1)
      | (Some c, cu1) \<Rightarrow>
          (case cu_expect close cu1 of
             (Inl e, cu2) \<Rightarrow> (Inl e, cu2)
           | (Inr found, cu2) \<Rightarrow> if found then (Inr txt, cu2) else markup_loop close (txt @ [c]) cu2))"
  by pat_completeness auto

termination
  by (relation "measure (\<lambda>(close, t, cu). cu_left cu)") (auto dest: next_expect_left [OF sym sym])

declare markup_loop.simps [simp del]

definition parseCData :: "(xml_parser, bool) eff" where
  "parseCData =
     io_bind (on_cursor (cu_expect ''![CDATA['')) (\<lambda>found.
       if found then io_bind (on_cursor (cdata_loop [])) (\<lambda>(closed, t).
         io_bind (xp_modify (xp_text_update (\<lambda>_. t))) (\<lambda>u. io_return closed))
       else io_return False)"

definition cursor_good :: "(cursor, bool) eff" where
  "cursor_good cu = (Inr (cu_good cu), cu)"

definition parseComment :: "(xml_parser, bool) eff" where
  "parseComment =
     io_bind (on_cursor (cu_expect ''!--'')) (\<lambda>found.
       if found then io_bind (on_cursor (markup_loop ''-->'' [])) (\<lambda>t.
         io_bind (xp_modify (xp_text_update (\<lambda>_. t))) (\<lambda>u. io_bind (on_cursor cursor_good) (\<lambda>good.
           if good then io_return True
           else on_cursor (fatal ''End of input reached while parsing comment''))))
       else io_return False)"

definition parsePI :: "(xml_parser, bool) eff" where
  "parsePI =
     io_bind (on_cursor (cu_expect ''?'')) (\<lambda>found.
       if found then io_bind (on_cursor (markup_loop ''?>'' [])) (\<lambda>t.
         io_bind (xp_modify (xp_text_update (\<lambda>_. t))) (\<lambda>u. io_return True))
       else io_return False)"

section \<open>Tokens and events\<close>

text \<open>\<^verbatim>\<open>pop_back\<close> on an empty vector is undefined.\<close>

definition pop_element :: "(xml_parser, unit) eff" where
  "pop_element s =
     (if xp_process_ns s \<and> xp_ns_stack s = [] \<or> xp_elements s = [] then (Inl Undefined, s)
      else (Inr (), s\<lparr>xp_ns_stack := (if xp_process_ns s then tl (xp_ns_stack s) else xp_ns_stack s),
                      xp_elements := tl (xp_elements s)\<rparr>))"

definition set_token :: "token_type \<Rightarrow> (xml_parser, unit) eff" where
  "set_token t = xp_modify (xp_token_update (\<lambda>_. t))"

definition prolog :: "(xml_parser, unit) eff" where
  "prolog =
     io_bind (on_cursor parseBOM) (\<lambda>u. io_bind (on_cursor skipWhite) (\<lambda>u. io_bind parseXmlDecl (\<lambda>u.
       on_cursor skipWhite)))"

text \<open>An end tag closes the element on top of the stack, whose local name it must have.\<close>

definition close_element :: "(xml_parser, unit) eff" where
  "close_element =
     io_bind (xp_modify (\<lambda>s. if xp_process_ns s then break_down_member s else s\<lparr>xp_local_name := xp_name s\<rparr>)) (\<lambda>u s.
       case xp_elements s of
         e # es \<Rightarrow>
           if xp_local_name s = el_name e
           then pop_element (s\<lparr>xp_ns := el_ns e, xp_prefix := el_prefix e, xp_token := END_TAG, xp_depth := xp_depth s - 1\<rparr>)
           else on_cursor (fatal (''Unmatched end tag '' @ SQ # xp_local_name s @ [SQ])) s
       | [] \<Rightarrow> on_cursor (fatal (''Unmatched end tag '' @ SQ # xp_local_name s @ [SQ])) s)"

text \<open>After a left angle bracket: a start tag is tried before everything else.\<close>

definition markup_rest :: "(xml_parser, unit) eff" where
  "markup_rest =
     io_bind parseEndElement (\<lambda>ended.
       if ended then close_element
       else io_bind (on_cursor parseDocType) (\<lambda>found.
         if found then set_token DOCDECL
         else io_bind parseCData (\<lambda>found.
           if found then set_token CDSECT
           else io_bind parseComment (\<lambda>found.
             if found then set_token COMMENT
             else io_bind parsePI (\<lambda>found.
               if found then set_token PROCESSING_INSTRUCTION else io_return ())))))"

definition markup_token :: "(xml_parser, unit) eff" where
  "markup_token =
     io_bind parseStartElement (\<lambda>started.
       if started then xp_modify (\<lambda>s. s\<lparr>xp_token := START_TAG, xp_depth := xp_depth s + 1\<rparr>)
       else markup_rest)"

text \<open>After another character, which is put back.\<close>

definition text_token :: "char \<Rightarrow> (xml_parser, unit) eff" where
  "text_token c =
     io_bind (io_bind (on_cursor (cu_putback c)) (\<lambda>u. parseCharacters)) (\<lambda>found.
       if found then set_token TEXT else io_return ())"

definition nextToken_read :: "(xml_parser, token_type) eff" where
  "nextToken_read s =
     (case cu_next (xp_cursor s) of
        (None, cu) \<Rightarrow> (Inr END_DOCUMENT, s\<lparr>xp_cursor := cu, xp_token := END_DOCUMENT\<rparr>)
      | (Some c, cu) \<Rightarrow>
          io_bind (if c = CHR ''<'' then markup_token else text_token c) (\<lambda>u s. (Inr (xp_token s), s))
            (s\<lparr>xp_cursor := cu\<rparr>))"

text \<open>An empty element is closed without reading.\<close>

definition nextToken :: "(xml_parser, token_type) eff" where
  "nextToken =
     io_bind (\<lambda>s. if xp_token s = START_DOCUMENT then prolog s else (Inr (), s)) (\<lambda>u s.
       if xp_token s = START_TAG \<and> xp_is_empty s then
         io_bind pop_element (\<lambda>u. io_bind (set_token END_TAG) (\<lambda>u. io_return END_TAG))
           (s\<lparr>xp_is_empty := False, xp_depth := xp_depth s - 1\<rparr>)
       else nextToken_read s)"

section \<open>What the parser keeps\<close>

definition xp_shrinks :: "xml_parser \<Rightarrow> xml_parser \<Rightarrow> bool" where
  "xp_shrinks s s' \<longleftrightarrow> cu_left (xp_cursor s') \<le> cu_left (xp_cursor s)"

text \<open>The buffer of the cursor holds what was put back, and every open element has its namespaces.\<close>

definition xp_sound :: "xml_parser \<Rightarrow> bool" where
  "xp_sound s \<longleftrightarrow> cu_ok (xp_cursor s) \<and> (xp_process_ns s \<longrightarrow> length (xp_ns_stack s) = length (xp_elements s))"

text \<open>Between two tokens, and while one is read: the mark of an empty element is set only on the start tag
  of an element that is open.\<close>

definition xp_ok :: "xml_parser \<Rightarrow> bool" where
  "xp_ok s \<longleftrightarrow> xp_sound s \<and> (xp_is_empty s \<longrightarrow> xp_token s = START_TAG \<and> xp_elements s \<noteq> [])"

definition xp_inner :: "xml_parser \<Rightarrow> bool" where
  "xp_inner s \<longleftrightarrow> xp_sound s \<and> \<not> xp_is_empty s"

interpretation xml: effect_contract xp_shrinks xp_inner
  by unfold_locales (auto simp: xp_shrinks_def)

abbreviation xp_tame :: "(xml_parser, 'r) eff \<Rightarrow> xml_parser \<Rightarrow> bool" where
  "xp_tame \<equiv> keeps xp_shrinks xp_inner"

lemma on_cursor_tame: "cu_tame m (xp_cursor s) \<Longrightarrow> xp_tame (on_cursor m) s"
  by (auto simp: keeps_def moves_def cu_shrinks_def xp_shrinks_def xp_inner_def xp_sound_def on_cursor_def split_beta)

lemma xp_modify_tame:
  "(xp_inner s \<Longrightarrow> xp_inner (f s)) \<Longrightarrow> xp_cursor (f s) = xp_cursor s \<Longrightarrow> xp_tame (xp_modify f) s"
  by (auto simp: keeps_def moves_def xp_shrinks_def xp_modify_def)

lemma set_token_tame: "xp_tame (set_token t) s"
  unfolding set_token_def by (rule xp_modify_tame) (auto simp: xp_inner_def xp_sound_def)

lemma doctype_loop_keeps:
  "cu_left (doctype_loop cu) \<le> cu_left cu \<and> (length (cu_ahead cu) \<le> 8 \<longrightarrow> length (cu_ahead (doctype_loop cu)) \<le> 8)"
proof (induction cu rule: doctype_loop.induct)
  case (1 cu)
  obtain r cu' where n: "cu_next cu = (r, cu')" by (cases "cu_next cu")
  note t = cu_next_tame [OF n]
  show ?case
  proof (cases r)
    case (Some c)
    note c = Some
    consider "c = CHR ''>''" | "c = CHR ''[''" | "c \<noteq> CHR ''>''" "c \<noteq> CHR ''[''" by blast
    then show ?thesis
    proof cases
      case 2
      then have "doctype_loop cu = doctype_loop (doctype_brackets 1 cu')"
        using n c by (simp add: doctype_loop.simps [of cu])
      then show ?thesis
        using 1(1) [OF n [symmetric] c _ 2] 2 t doctype_brackets_keeps [of 1 cu'] by auto
    next
      case 3
      then have "doctype_loop cu = doctype_loop cu'" using n c by (simp add: doctype_loop.simps [of cu])
      then show ?thesis using 1(2) [OF n [symmetric] c 3] t by auto
    qed (use n c t in \<open>simp add: doctype_loop.simps [of cu]\<close>)
  qed (use n t in \<open>simp add: doctype_loop.simps [of cu]\<close>)
qed

lemma parseDocType_tame: "cu_tame parseDocType cu"
proof -
  have "cu_tame (\<lambda>cu. (Inr True, doctype_loop cu)) cu" for cu
    using doctype_loop_keeps [of cu] by (simp add: cu_tame_iff)
  then show ?thesis
    unfolding parseDocType_def by (intro curs.keeps_bind cu_expect_tame) auto
qed

lemma cdata_loop_tame: "cu_tame (cdata_loop t) cu"
proof (induction t cu rule: cdata_loop.induct)
  case (1 t cu)
  obtain r cu1 where n: "cu_next cu = (r, cu1)" by (cases "cu_next cu")
  obtain e cu2 where x: "cu_expect '']>'' cu1 = (e, cu2)" by (cases "cu_expect '']>'' cu1")
  note t1 = cu_next_tame [OF n]
  have t2: "cu_left cu2 \<le> cu_left cu1"
    "length (cu_ahead cu1) \<le> 8 \<Longrightarrow> length (cu_ahead cu2) \<le> 8 \<and> e \<noteq> Inl Undefined"
    using cu_expect_tame [of "'']>''" cu1] x by (simp_all add: cu_tame_iff)
  show ?case
  proof (cases r)
    case (Some c)
    show ?thesis
    proof (cases "c = CHR '']''")
      case True
      show ?thesis
      proof (cases "e = Inr False")
        case again: True
        have "cu_tame (cdata_loop t) cu2"
          using 1(2) [OF n [symmetric] Some _ x [symmetric] again] True by simp
        then show ?thesis
          by (rule cu_tame_step [rotated 2]) (use t1 t2 n x True again Some in \<open>auto simp: cdata_loop.simps [of t cu]\<close>)
      next
        case False
        then show ?thesis
          using n x t1 t2 True Some by (cases e) (auto simp: cu_tame_iff cdata_loop.simps [of t cu])
      qed
    next
      case False
      then show ?thesis
        using 1(1) [OF n [symmetric] Some False] n t1 Some
        by (auto simp: cu_tame_iff cdata_loop.simps [of t cu])
    qed
  qed (use n t1 in \<open>simp add: cu_tame_iff cdata_loop.simps [of t cu]\<close>)
qed

lemma markup_loop_tame: "length close \<le> 8 \<Longrightarrow> cu_tame (markup_loop close t) cu"
proof (induction close t cu rule: markup_loop.induct)
  case (1 close t cu)
  obtain r cu1 where n: "cu_next cu = (r, cu1)" by (cases "cu_next cu")
  obtain e cu2 where x: "cu_expect close cu1 = (e, cu2)" by (cases "cu_expect close cu1")
  note t1 = cu_next_tame [OF n]
  have t2: "cu_left cu2 \<le> cu_left cu1"
    "length (cu_ahead cu1) \<le> 8 \<Longrightarrow> length (cu_ahead cu2) \<le> 8 \<and> e \<noteq> Inl Undefined"
    using cu_expect_tame [OF "1.prems", of cu1] x by (simp_all add: cu_tame_iff)
  show ?case
  proof (cases "r \<noteq> None \<and> e = Inr False")
    case True
    then obtain c where c: "r = Some c" by blast
    have "cu_tame (markup_loop close (t @ [c])) cu2"
      using 1(1) [OF n [symmetric] c x [symmetric] _ _ "1.prems"] True by blast
    then show ?thesis
      by (rule cu_tame_step [rotated 2]) (use t1 t2 n x True c in \<open>auto simp: markup_loop.simps [of close t cu]\<close>)
  next
    case False
    then show ?thesis
      using n x t1 t2 by (cases r; cases e) (auto simp: cu_tame_iff markup_loop.simps [of close t cu])
  qed
qed

lemma characters_loop_tame:
  "cu_tame (\<lambda>cu. case characters_loop (cu, t, ws) of (r, cu', d) \<Rightarrow> (r, cu')) cu"
proof (induction "(cu, t, ws)" arbitrary: cu t ws rule: characters_loop.induct)
  case (1 cu t ws)
  obtain r cu1 where n: "cu_next cu = (r, cu1)" by (cases "cu_next cu")
  note t1 = cu_next_tame [OF n]
  note IH = 1 [OF n [symmetric]]
  show ?case
  proof (cases r)
    case (Some c)
    consider "c = CR" | "c = CHR ''<''" | "c = CHR ''&''" | "c \<noteq> CR" "c \<noteq> CHR ''<''" "c \<noteq> CHR ''&''" by blast
    then show ?thesis
    proof cases
      case 1
      then show ?thesis
        using IH(1) [OF Some 1] n t1 Some by (auto simp: cu_tame_iff characters_loop.simps [of cu])
    next
      case 2
      then show ?thesis
        using n t1 Some cu_putback_tame [of cu1]
        by (auto simp: cu_tame_iff characters_loop.simps [of cu] split_beta char_eq_byte [of _ CR])
    next
      case 3
      obtain e cu2 where esc: "escapeString cu1 = (e, cu2)" by (cases "escapeString cu1")
      have t2: "cu_left cu2 \<le> cu_left cu1" "length (cu_ahead cu1) \<le> 8 \<Longrightarrow> length (cu_ahead cu2) \<le> 8 \<and> e \<noteq> Inl Undefined"
        using escapeString_tame [of cu1] esc by (simp_all add: cu_tame_iff)
      have c: "c \<noteq> CR" "c \<noteq> CHR ''<''" using 3 by (simp_all add: char_eq_byte [of _ CR])
      show ?thesis
      proof (cases "\<exists>x. e = Inr (Some x)")
        case True
        then obtain x where e: "e = Inr (Some x)" by blast
        show ?thesis
          using IH(2) [OF Some c 3 esc [symmetric] e refl] n esc e c 3 Some t1 t2
          by (auto simp: cu_tame_iff characters_loop.simps [of cu])
      next
        case False
        then show ?thesis
          using n esc c 3 Some t1 t2
          by (auto simp: cu_tame_iff characters_loop.simps [of cu] fatal_def split: sum.split option.split)
      qed
    next
      case 4
      then show ?thesis
        using IH(3) [OF Some 4] n t1 Some by (auto simp: cu_tame_iff characters_loop.simps [of cu])
    qed
  qed (use n t1 in \<open>simp add: cu_tame_iff characters_loop.simps [of cu]\<close>)
qed

lemmas cursor_tames = skipWhite_tame cursor_peek_tame parseName_tame fatal_tame parseDocType_tame cdata_loop_tame

lemma cu_expect_tames:
  "cu_tame (cu_expect ''<?xml'') cu" "cu_tame (cu_expect ''?>'') cu" "cu_tame (cu_expect ''/>'') cu"
  "cu_tame (cu_expect ''>'') cu" "cu_tame (cu_expect ''![CDATA['') cu" "cu_tame (cu_expect ''!--'') cu"
  "cu_tame (cu_expect ''?'') cu" "cu_tame parseBOM cu"
  by (auto intro!: cu_expect_tame simp: parseBOM_def)

lemma markup_loop_tames: "cu_tame (markup_loop ''-->'' t) cu" "cu_tame (markup_loop ''?>'' t) cu"
  by (auto intro!: markup_loop_tame)

lemma cursor_good_tame: "cu_tame cursor_good cu"
  by (simp add: cu_tame_iff cursor_good_def)

lemma cursor_read_tame: "cu_tame cursor_read cu"
  using cu_read_left [of cu] cu_read_ahead [of cu] by (auto simp: cu_tame_iff cursor_read_def split_beta)

lemma parseAttributeList_tame: "xp_tame (parseAttributeList own) s"
  using attribute_list_loop_tame [of "[]" "xp_cursor s"]
  by (auto simp: keeps_def moves_def cu_shrinks_def xp_shrinks_def xp_inner_def xp_sound_def parseAttributeList_def split_beta)

lemma parse_name_member_tame: "xp_tame parse_name_member s"
  unfolding parse_name_member_def
  by (intro xml.keeps_bind on_cursor_tame parseName_tame xp_modify_tame xml.keeps_pure)
    (auto simp: xp_inner_def xp_sound_def)

lemma parseXmlDecl_tame: "xp_tame parseXmlDecl s"
  unfolding parseXmlDecl_def
  by (auto intro!: xml.keeps_bind on_cursor_tame cu_expect_tames cursor_tames parseAttributeList_tame)

lemma open_element_keeps:
  "xp_inner s \<Longrightarrow> xp_inner (open_element s)" "xp_cursor (open_element s) = xp_cursor s"
  "xp_elements (open_element s) \<noteq> []"
  by (simp_all add: xp_inner_def xp_sound_def open_element_def break_down_member_def parseNameSpaceAttributes_def
      Let_def split_beta)

lemma start_element_head_tame: "xp_tame start_element_head s"
  unfolding start_element_head_def
  by (auto intro!: xml.keeps_bind on_cursor_tame cursor_tames parseAttributeList_tame parse_name_member_tame
      xp_modify_tame open_element_keeps)

lemma on_cursor_result: "on_cursor m s = (r, s') \<longleftrightarrow> (\<exists>cu. m (xp_cursor s) = (r, cu) \<and> s' = s\<lparr>xp_cursor := cu\<rparr>)"
  by (auto simp: on_cursor_def split: prod.splits)

lemma xp_modify_result: "xp_modify f s = (r, s') \<longleftrightarrow> r = Inr () \<and> s' = f s"
  by (auto simp: xp_modify_def)

lemma start_element_head_opens: "start_element_head s = (Inr u, s') \<Longrightarrow> xp_elements s' \<noteq> []"
  unfolding start_element_head_def
  by (auto elim!: io_bind_cases simp: xp_modify_result open_element_keeps on_cursor_result fatal_def split: if_splits)

text \<open>What a start tag leaves: an open element when it succeeds.\<close>

definition started_ok :: "bool result \<times> xml_parser \<Rightarrow> bool" where
  "started_ok rs = (case rs of (r, s) \<Rightarrow>
     r \<noteq> Inl Undefined \<and> (if r = Inr True then xp_sound s \<and> xp_elements s \<noteq> [] else xp_inner s))"

lemma keeps_moves: "keeps R I m s \<Longrightarrow> moves R m s"
  by (simp add: keeps_def)

lemma on_cursor_expect: "moves xp_shrinks (on_cursor (cu_expect t)) s"
  using cu_expect_left [of t "xp_cursor s"] by (simp add: moves_def xp_shrinks_def on_cursor_def split_beta)

lemma xp_modify_moves: "xp_cursor (f s) = xp_cursor s \<Longrightarrow> moves xp_shrinks (xp_modify f) s"
  by (simp add: moves_def xp_shrinks_def xp_modify_def)

lemma parseStartElement_moves: "moves xp_shrinks parseStartElement s"
  unfolding parseStartElement_def start_element_close_def
  by (auto intro!: xml.moves_bind on_cursor_expect xp_modify_moves keeps_moves [OF on_cursor_tame]
      keeps_moves [OF start_element_head_tame] cursor_tames)

lemma start_element_close_ok:
  assumes "xp_inner s" "xp_elements s \<noteq> []"
  shows "started_ok (start_element_close s)"
proof -
  obtain r1 cu1 where x1: "cu_expect ''/>'' (xp_cursor s) = (r1, cu1)" by (cases "cu_expect ''/>'' (xp_cursor s)")
  obtain r2 cu2 where x2: "cu_expect ''>'' cu1 = (r2, cu2)" by (cases "cu_expect ''>'' cu1")
  have t1: "length (cu_ahead cu1) \<le> 8" "r1 \<noteq> Inl Undefined"
    using cu_expect_tames(3) [of "xp_cursor s"] x1 assms(1)
    by (simp_all add: cu_tame_iff xp_inner_def xp_sound_def cu_ok_def max_read_ahead_def)
  have t2: "length (cu_ahead cu2) \<le> 8" "r2 \<noteq> Inl Undefined"
    using cu_expect_tames(4) [of cu1] x2 t1 by (simp_all add: cu_tame_iff)
  show ?thesis
    using x1 x2 t1 t2 assms
    by (cases r1; cases r2)
      (auto simp: start_element_close_def io_bind_def on_cursor_def xp_modify_def started_ok_def xp_inner_def
        xp_sound_def cu_ok_def max_read_ahead_def)
qed

lemma parseStartElement_ok:
  assumes "xp_inner s"
  shows "started_ok (parseStartElement s)"
proof -
  obtain r s1 where p: "on_cursor cursor_peek s = (r, s1)" by (cases "on_cursor cursor_peek s")
  have t: "xp_inner s1" "r \<noteq> Inl Undefined"
    using on_cursor_tame [OF cursor_peek_tame, of s] p assms by (simp_all add: keeps_def)
  obtain r' s2 where h: "start_element_head s1 = (r', s2)" by (cases "start_element_head s1")
  have t': "xp_inner s2" "r' \<noteq> Inl Undefined"
    using start_element_head_tame [of s1] h t by (simp_all add: keeps_def)
  show ?thesis
    using p h t t' start_element_close_ok [of s2] start_element_head_opens [of s1 _ s2]
    by (cases r; cases r') (auto simp: parseStartElement_def io_bind_def started_ok_def)
qed

lemma parseEndElement_tame: "xp_tame parseEndElement s"
  unfolding parseEndElement_def
  by (auto intro!: xml.keeps_bind on_cursor_tame cursor_tames cursor_read_tame cu_expect_tames parse_name_member_tame)

lemma parseCharacters_tame: "xp_tame parseCharacters s"
proof -
  obtain r cu t ws where c: "characters_loop (xp_cursor s, [], True) = (r, cu, t, ws)"
    by (cases "characters_loop (xp_cursor s, [], True)")
  then show ?thesis
    using characters_loop_tame [of "[]" True "xp_cursor s"]
    by (cases r) (auto simp: keeps_def moves_def cu_shrinks_def xp_shrinks_def xp_inner_def xp_sound_def parseCharacters_def)
qed

lemma xp_text_tame: "xp_tame (xp_modify (xp_text_update f)) s"
  by (rule xp_modify_tame) (auto simp: xp_inner_def xp_sound_def)

lemma section_tames: "xp_tame parseCData s" "xp_tame parseComment s" "xp_tame parsePI s"
  unfolding parseCData_def parseComment_def parsePI_def
  by (auto intro!: xml.keeps_bind on_cursor_tame cursor_tames cursor_good_tame cu_expect_tames markup_loop_tames xp_text_tame)

lemma prolog_tame: "xp_tame prolog s"
  unfolding prolog_def
  by (auto intro!: xml.keeps_bind on_cursor_tame cursor_tames cu_expect_tames parseXmlDecl_tame)

lemma pop_element_keeps:
  assumes "xp_sound s" "xp_elements s \<noteq> []"
  shows "fst (pop_element s) = Inr () \<and> xp_sound (snd (pop_element s))"
proof -
  have "xp_process_ns s \<Longrightarrow> xp_ns_stack s \<noteq> []" using assms by (auto simp: xp_sound_def)
  then show ?thesis using assms by (simp add: pop_element_def xp_sound_def)
qed

lemma pop_element_frame:
  "xp_cursor (snd (pop_element s)) = xp_cursor s" "xp_token (snd (pop_element s)) = xp_token s"
  "xp_is_empty (snd (pop_element s)) = xp_is_empty s"
  by (simp_all add: pop_element_def)

lemma pop_element_tame: "xp_elements s \<noteq> [] \<Longrightarrow> xp_tame pop_element s"
  using pop_element_keeps [of s] by (auto simp: keeps_def moves_def xp_shrinks_def xp_inner_def pop_element_frame)

lemma close_element_tame: "xp_tame close_element s"
proof -
  have f: "xp_tame (on_cursor (fatal m)) s'" for m :: string and s' by (intro on_cursor_tame fatal_tame)
  show ?thesis
    unfolding close_element_def
  proof (rule xml.keeps_bind)
    show "xp_tame (xp_modify (\<lambda>s. if xp_process_ns s then break_down_member s else s\<lparr>xp_local_name := xp_name s\<rparr>)) s"
      by (rule xp_modify_tame) (auto simp: xp_inner_def xp_sound_def break_down_member_def split_beta)
  next
    fix x :: unit and s' :: xml_parser
    show "xp_tame (\<lambda>s. case xp_elements s of
         e # es \<Rightarrow>
           if xp_local_name s = el_name e
           then pop_element (s\<lparr>xp_ns := el_ns e, xp_prefix := el_prefix e, xp_token := END_TAG, xp_depth := xp_depth s - 1\<rparr>)
           else on_cursor (fatal (''Unmatched end tag '' @ SQ # xp_local_name s @ [SQ])) s
       | [] \<Rightarrow> on_cursor (fatal (''Unmatched end tag '' @ SQ # xp_local_name s @ [SQ])) s) s'"
    proof (cases "xp_elements s'")
      case (Cons e es)
      let ?s = "s'\<lparr>xp_ns := el_ns e, xp_prefix := el_prefix e, xp_token := END_TAG, xp_depth := xp_depth s' - 1\<rparr>"
      show ?thesis
      proof (cases "xp_local_name s' = el_name e")
        case True
        show ?thesis
          by (rule xml.keeps_step [OF _ _ pop_element_tame [of ?s]])
            (use Cons True in \<open>simp_all add: xp_shrinks_def xp_inner_def xp_sound_def\<close>)
      next
        case False
        show ?thesis
          by (rule xml.keeps_step [OF _ _ f [of "''Unmatched end tag '' @ SQ # xp_local_name s' @ [SQ]" s']])
            (use Cons False in \<open>simp_all add: xp_shrinks_def\<close>)
      qed
    next
      case Nil
      show ?thesis
        by (rule xml.keeps_step [OF _ _ f [of "''Unmatched end tag '' @ SQ # xp_local_name s' @ [SQ]" s']])
          (use Nil in \<open>simp_all add: xp_shrinks_def\<close>)
    qed
  qed
qed

text \<open>After a token the parser is in order, also when the token was an error.\<close>

definition token_ok :: "'r result \<times> xml_parser \<Rightarrow> bool" where
  "token_ok rs \<longleftrightarrow> fst rs \<noteq> Inl Undefined \<and> xp_ok (snd rs)"

lemma inner_ok: "xp_inner s \<Longrightarrow> xp_ok s"
  by (simp add: xp_inner_def xp_ok_def)

lemma tame_token_ok: "xp_tame m s \<Longrightarrow> xp_inner s \<Longrightarrow> token_ok (m s)"
  by (simp add: keeps_def token_ok_def inner_ok)

lemma markup_rest_tame: "xp_tame markup_rest s"
  unfolding markup_rest_def
  by (auto intro!: xml.keeps_bind on_cursor_tame cursor_tames parseEndElement_tame close_element_tame section_tames
      set_token_tame)

lemma markup_token_moves: "moves xp_shrinks markup_token s"
  unfolding markup_token_def
  by (auto intro!: xml.moves_bind parseStartElement_moves xp_modify_moves keeps_moves [OF markup_rest_tame])

lemma markup_token_ok:
  assumes "xp_inner s"
  shows "token_ok (markup_token s)"
proof -
  obtain r s1 where p: "parseStartElement s = (r, s1)" by (cases "parseStartElement s")
  then have ok: "started_ok (r, s1)" using parseStartElement_ok [OF assms] by simp
  show ?thesis
  proof (cases "r = Inr True")
    case True
    then show ?thesis
      using p ok by (simp add: markup_token_def io_bind_def started_ok_def token_ok_def xp_modify_def xp_ok_def xp_sound_def)
  next
    case False
    then show ?thesis
      using p ok tame_token_ok [OF markup_rest_tame, of s1] inner_ok [of s1]
      by (cases r) (auto simp: markup_token_def io_bind_def started_ok_def token_ok_def)
  qed
qed

section \<open>The token loop\<close>

lemma cu_next_at_end:
  assumes "cu_next cu = (Some c, cu')" "xs_state (cu_strm cu') \<noteq> XGood"
  shows "cu_left cu' + 2 \<le> cu_left cu"
proof -
  have "cu_ahead cu = [] \<and> xs_state (cu_strm cu) = XGood \<and> cu_ahead cu' = []"
    using assms by (cases "cu_ahead cu") (auto simp: cu_next_def cu_read_def Let_def split_beta split: if_splits)
  then show ?thesis using assms(2) by (simp add: cu_left_def strm_left_def)
qed

lemma uchar_LF: "uchar 10 = LF"
  using uchar_byte [of LF] by simp

lemma cu_next_put_back:
  assumes "cu_putback c cu = (Inr u, cu1)" "xs_state (cu_strm cu) = XGood"
  shows "\<exists>cu2. cu_next cu1 = (Some c, cu2) \<and> cu_left cu2 = cu_left cu"
  using assms
  by (auto simp: cu_putback_def cu_next_def cu_read_def cu_left_def Let_def uchar_LF split: if_splits)

lemma characters_take:
  assumes "cu_next cu1 = (Some c, cu2)" "c \<noteq> CHR ''<''"
  shows "cu_left (fst (snd (characters_loop (cu1, t, ws)))) \<le> cu_left cu2"
proof -
  have *: "cu_left (fst (snd (characters_loop (cu, t', ws')))) \<le> cu_left cu" for cu t' ws'
    using characters_loop_tame [of t' ws' cu] by (simp add: cu_tame_iff split_beta)
  obtain e cu3 where esc: "escapeString cu2 = (e, cu3)" by (cases "escapeString cu2")
  have le: "cu_left cu3 \<le> cu_left cu2" using escapeString_left [of cu2] esc by simp
  show ?thesis
    using assms * [of cu2] le_trans [OF * [of cu3] le] le esc
    by (auto simp: characters_loop.simps [of cu1] fatal_def split: sum.split option.split)
qed

lemma text_token_takes:
  assumes n: "cu_next (xp_cursor s) = (Some c, cu)" and c: "c \<noteq> CHR ''<''"
  shows "cu_left (xp_cursor (snd (text_token c (s\<lparr>xp_cursor := cu\<rparr>)))) < cu_left (xp_cursor s)"
proof -
  obtain r cu1 where b: "cu_putback c cu = (r, cu1)" by (cases "cu_putback c cu")
  have chars: "cu_left (fst (snd (characters_loop (cu1, [], True)))) < cu_left (xp_cursor s)" if r: "r = Inr ()"
  proof (cases "xs_state (cu_strm cu) = XGood")
    case True
    obtain cu2 where "cu_next cu1 = (Some c, cu2)" "cu_left cu2 = cu_left cu"
      using cu_next_put_back [of c cu "()" cu1] b r True by blast
    then show ?thesis
      using characters_take [of cu1 c cu2 "[]" True] c cu_next_takes [OF n] by simp
  next
    case False
    have "cu_left (fst (snd (characters_loop (cu1, [], True)))) \<le> cu_left cu1"
      using characters_loop_tame [of "[]" True cu1] by (simp add: cu_tame_iff split_beta)
    moreover have "cu_left cu1 \<le> cu_left cu + 1" using cu_putback_effect(1) [of c cu] b by simp
    ultimately show ?thesis using cu_next_at_end [OF n False] by simp
  qed
  have full: "cu1 = cu" if "r \<noteq> Inr ()" using b that by (simp add: cu_putback_def Let_def split: if_splits)
  obtain r2 cu2 t ws where l: "characters_loop (cu1, [], True) = (r2, cu2, t, ws)"
    by (cases "characters_loop (cu1, [], True)")
  show ?thesis
    using b l chars full cu_next_takes [OF n]
    by (cases r; cases r2)
      (auto simp: text_token_def io_bind_def on_cursor_def parseCharacters_def set_token_def xp_modify_def)
qed

lemma put_back_tame:
  assumes "cu_next (xp_cursor s) = (Some c, cu)"
  shows "xp_tame (\<lambda>s. on_cursor (cu_putback c) (s\<lparr>xp_cursor := cu\<rparr>)) s"
  using cu_next_tame [OF assms] cu_putback_tame(1) [of cu "cu_left (xp_cursor s)" c]
    cu_putback_tame(2) [of cu c]
  by (auto simp: keeps_def moves_def xp_shrinks_def xp_inner_def xp_sound_def cu_ok_def max_read_ahead_def on_cursor_def
      split_beta)

lemma text_token_tame:
  assumes "cu_next (xp_cursor s) = (Some c, cu)"
  shows "xp_tame (\<lambda>s. text_token c (s\<lparr>xp_cursor := cu\<rparr>)) s"
proof -
  have "(\<lambda>s. text_token c (s\<lparr>xp_cursor := cu\<rparr>)) =
      io_bind (\<lambda>s. on_cursor (cu_putback c) (s\<lparr>xp_cursor := cu\<rparr>)) (\<lambda>u. io_bind parseCharacters
        (\<lambda>found. if found then set_token TEXT else io_return ()))"
    by (simp add: text_token_def io_bind_assoc) (simp add: io_bind_def)
  then show ?thesis
    by (auto intro!: xml.keeps_bind put_back_tame [OF assms] parseCharacters_tame set_token_tame)
qed

lemma bind_token: "io_bind m (\<lambda>u s. (Inr (xp_token s), s)) s = (rmap (\<lambda>u. xp_token (snd (m s))) (fst (m s)), snd (m s))"
  by (cases "m s"; cases "fst (m s)") (auto simp: io_bind_def)

lemma nextToken_read_ok:
  assumes "xp_inner s"
  shows "token_ok (nextToken_read s)"
proof -
  obtain r cu where n: "cu_next (xp_cursor s) = (r, cu)" by (cases "cu_next (xp_cursor s)")
  have inner: "xp_inner (s\<lparr>xp_cursor := cu\<rparr>)"
    using assms cu_next_tame(2) [OF n] by (simp add: xp_inner_def xp_sound_def cu_ok_def max_read_ahead_def)
  show ?thesis
  proof (cases r)
    case None
    then show ?thesis
      using n inner by (simp add: nextToken_read_def token_ok_def xp_inner_def xp_sound_def xp_ok_def)
  next
    case (Some c)
    have "token_ok (markup_token (s\<lparr>xp_cursor := cu\<rparr>))" by (rule markup_token_ok [OF inner])
    moreover have "token_ok (text_token c (s\<lparr>xp_cursor := cu\<rparr>))"
      using tame_token_ok [OF text_token_tame assms] n Some by simp
    ultimately have "token_ok ((if c = CHR ''<'' then markup_token else text_token c) (s\<lparr>xp_cursor := cu\<rparr>))"
      by simp
    then show ?thesis
      using n Some by (auto simp: nextToken_read_def token_ok_def bind_token rmap_def split: sum.splits)
  qed
qed

lemma nextToken_read_moves: "moves xp_shrinks nextToken_read s"
proof -
  obtain r cu where n: "cu_next (xp_cursor s) = (r, cu)" by (cases "cu_next (xp_cursor s)")
  have le: "cu_left cu \<le> cu_left (xp_cursor s)" using cu_next_tame(1) [OF n] .
  have m: "cu_left (xp_cursor (snd (markup_token (s\<lparr>xp_cursor := cu\<rparr>)))) \<le> cu_left cu"
    using markup_token_moves [of "s\<lparr>xp_cursor := cu\<rparr>"] by (simp add: moves_def xp_shrinks_def)
  have t: "cu_left (xp_cursor (snd (text_token c (s\<lparr>xp_cursor := cu\<rparr>)))) \<le> cu_left (xp_cursor s)" if "r = Some c" for c
    using text_token_tame [of s c cu] n that by (simp add: keeps_def moves_def xp_shrinks_def)
  show ?thesis
    using n le m t by (cases r) (auto simp: moves_def xp_shrinks_def nextToken_read_def bind_token intro: le_trans)
qed

lemma nextToken_read_takes:
  "nextToken_read s = (Inr END_DOCUMENT, s\<lparr>xp_token := END_DOCUMENT\<rparr>)
     \<or> cu_left (xp_cursor (snd (nextToken_read s))) < cu_left (xp_cursor s)"
proof -
  obtain r cu where n: "cu_next (xp_cursor s) = (r, cu)" by (cases "cu_next (xp_cursor s)")
  show ?thesis
  proof (cases r)
    case None
    then show ?thesis using n cu_next_none [of "xp_cursor s" cu] by (simp add: nextToken_read_def)
  next
    case (Some c)
    have "cu_left (xp_cursor (snd (markup_token (s\<lparr>xp_cursor := cu\<rparr>)))) < cu_left (xp_cursor s)"
      using markup_token_moves [of "s\<lparr>xp_cursor := cu\<rparr>"] cu_next_tame(4) [OF n] Some
      by (simp add: moves_def xp_shrinks_def)
    then show ?thesis
      using n Some text_token_takes [of s c cu] by (auto simp: nextToken_read_def bind_token)
  qed
qed

section \<open>Events\<close>

text \<open>What is left before the end of the document: characters, and the end of an empty element.\<close>

definition xp_todo :: "xml_parser \<Rightarrow> nat" where
  "xp_todo s = 2 * cu_left (xp_cursor s) + (if xp_token s = START_TAG \<and> xp_is_empty s then 1 else 0)"

lemma parseXmlDecl_throws:
  assumes "xp_inner s" "parseXmlDecl s = (Inl e, s')"
  shows "cu_left (xp_cursor s') < cu_left (xp_cursor s)"
proof -
  obtain r cu where x: "cu_expect ''<?xml'' (xp_cursor s) = (r, cu)" by (cases "cu_expect ''<?xml'' (xp_cursor s)")
  let ?rest = "io_bind (on_cursor skipWhite) (\<lambda>u. io_bind (parseAttributeList False) (\<lambda>ok.
         if \<not> ok then on_cursor (fatal parse_attributes_error)
         else io_bind (on_cursor skipWhite) (\<lambda>u. io_bind (on_cursor (cu_expect ''?>'')) (\<lambda>found.
           if \<not> found then on_cursor (fatal parse_attributes_error) else io_return True))))"
  have rest: "xp_tame ?rest s1" for s1
    by (auto intro!: xml.keeps_bind on_cursor_tame cu_expect_tames cursor_tames parseAttributeList_tame)
  have defined: "r \<noteq> Inl Undefined"
    using cu_expect_tames(1) [of "xp_cursor s"] x assms(1)
    by (simp add: cu_tame_iff xp_inner_def xp_sound_def cu_ok_def max_read_ahead_def)
  then have "\<exists>b. r = Inr b" using cu_expect_throws [of "''<?xml''" "xp_cursor s"] x by (cases r) auto
  then obtain b where r: "r = Inr b" by blast
  then have b: "b = True"
    using assms(2) x by (cases b) (auto simp: parseXmlDecl_def io_bind_def on_cursor_def)
  have "cu_left cu < cu_left (xp_cursor s)"
    using expect_loop_takes [of "''<?xml''" "[]" "xp_cursor s" cu] x r b by (simp add: cu_expect_def del: expect_loop.simps)
  moreover have "?rest (s\<lparr>xp_cursor := cu\<rparr>) = (Inl e, s')"
    using assms(2) x r b by (simp add: parseXmlDecl_def io_bind_def [of "on_cursor (cu_expect ''<?xml'')"] on_cursor_def [of "cu_expect ''<?xml''"])
  ultimately show ?thesis
    using rest [of "s\<lparr>xp_cursor := cu\<rparr>"] by (simp add: keeps_def moves_def xp_shrinks_def)
qed

lemma prolog_throws:
  assumes "xp_inner s" "prolog s = (Inl e, s')"
  shows "cu_left (xp_cursor s') < cu_left (xp_cursor s)"
proof -
  have bom: "xp_tame (on_cursor parseBOM) s1" and white: "xp_tame (on_cursor skipWhite) s1" for s1
    by (auto intro!: on_cursor_tame cu_expect_tames cursor_tames)
  have quiet: "e1 = Undefined" if "on_cursor parseBOM s1 = (Inl e1, s2)" for e1 s1 s2
    using that cu_expect_throws [of "map char_of [0xef :: nat, 0xbb, 0xbf]" "xp_cursor s1" e1]
    by (auto simp: on_cursor_result parseBOM_def)
  have quiet': "e1 = Undefined" if "on_cursor skipWhite s1 = (Inl e1, s2)" for e1 s1 s2
    using that skipWhite_throws [of "xp_cursor s1" e1] by (auto simp: on_cursor_result)
  obtain u s1 where 1: "on_cursor parseBOM s = (Inr u, s1)" "xp_inner s1" "cu_left (xp_cursor s1) \<le> cu_left (xp_cursor s)"
    using bom [of s] quiet [of s] assms(1)
    by (cases "on_cursor parseBOM s"; cases "fst (on_cursor parseBOM s)") (auto simp: keeps_def moves_def xp_shrinks_def)
  obtain u s2 where 2: "on_cursor skipWhite s1 = (Inr u, s2)" "xp_inner s2" "cu_left (xp_cursor s2) \<le> cu_left (xp_cursor s1)"
    using white [of s1] quiet' [of s1] 1(2)
    by (cases "on_cursor skipWhite s1"; cases "fst (on_cursor skipWhite s1)") (auto simp: keeps_def moves_def xp_shrinks_def)
  obtain r s3 where 3: "parseXmlDecl s2 = (r, s3)" by (cases "parseXmlDecl s2")
  show ?thesis
  proof (cases r)
    case (Inl e')
    then show ?thesis
      using assms(2) 1 2 3 parseXmlDecl_throws [OF 2(2)] by (simp add: prolog_def io_bind_def)
  next
    case (Inr b)
    then have "on_cursor skipWhite s3 = (Inl e, s')" "xp_inner s3"
      using assms(2) 1 2 3 parseXmlDecl_tame [of s2] by (simp_all add: prolog_def io_bind_def keeps_def)
    then show ?thesis using quiet' [of s3 e s'] white [of s3] by (simp add: keeps_def)
  qed
qed

lemma nextToken_after_empty:
  "xp_token s = START_TAG \<Longrightarrow> xp_is_empty s \<Longrightarrow>
     nextToken s = io_bind pop_element (\<lambda>u. io_bind (set_token END_TAG) (\<lambda>u. io_return END_TAG))
       (s\<lparr>xp_is_empty := False, xp_depth := xp_depth s - 1\<rparr>)"
  by (simp add: nextToken_def io_bind_def [of "\<lambda>s. if xp_token s = START_DOCUMENT then prolog s else (Inr (), s)"])

lemma nextToken_plain:
  "xp_token s \<noteq> START_DOCUMENT \<Longrightarrow> \<not> (xp_token s = START_TAG \<and> xp_is_empty s) \<Longrightarrow> nextToken s = nextToken_read s"
  unfolding nextToken_def by (subst io_bind_Inr) auto

lemma nextToken_start:
  "xp_token s = START_DOCUMENT \<Longrightarrow> prolog s = (Inr u, s1) \<Longrightarrow> \<not> xp_is_empty s1 \<Longrightarrow> nextToken s = nextToken_read s1"
  "xp_token s = START_DOCUMENT \<Longrightarrow> prolog s = (Inl e, s1) \<Longrightarrow> nextToken s = (Inl e, s1)"
  by (simp_all add: nextToken_def io_bind_def [of "\<lambda>s. if xp_token s = START_DOCUMENT then prolog s else (Inr (), s)"])

lemma nextToken_ok:
  assumes "xp_ok s"
  shows "token_ok (nextToken s)"
proof (cases "xp_token s = START_TAG \<and> xp_is_empty s")
  case True
  let ?s = "s\<lparr>xp_is_empty := False, xp_depth := xp_depth s - 1\<rparr>"
  have "xp_tame (io_bind pop_element (\<lambda>u. io_bind (set_token END_TAG) (\<lambda>u. io_return END_TAG))) ?s"
    using assms True by (intro xml.keeps_bind pop_element_tame set_token_tame xml.keeps_pure) (simp add: xp_ok_def)
  moreover have "xp_inner ?s" using assms by (simp add: xp_ok_def xp_inner_def xp_sound_def)
  ultimately show ?thesis
    using True tame_token_ok by (simp add: nextToken_after_empty)
next
  case False
  then have inner: "xp_inner s" using assms by (auto simp: xp_ok_def xp_inner_def)
  show ?thesis
  proof (cases "xp_token s = START_DOCUMENT")
    case True
    obtain r s1 where p: "prolog s = (r, s1)" by (cases "prolog s")
    have i1: "xp_inner s1" "r \<noteq> Inl Undefined" using prolog_tame [of s] p inner by (simp_all add: keeps_def)
    then have "\<not> xp_is_empty s1" by (simp add: xp_inner_def)
    then show ?thesis
      using True p nextToken_read_ok [OF i1(1)] i1 inner_ok [OF i1(1)]
      by (cases r) (auto simp: nextToken_start token_ok_def)
  next
    case start: False
    then show ?thesis
      using False nextToken_read_ok [OF inner] by (simp add: nextToken_plain)
  qed
qed

lemma nextToken_takes:
  assumes "xp_ok s"
  shows "nextToken s = (Inr END_DOCUMENT, snd (nextToken s)) \<and> xp_token (snd (nextToken s)) = END_DOCUMENT
     \<or> xp_todo (snd (nextToken s)) < xp_todo s"
proof (cases "xp_token s = START_TAG \<and> xp_is_empty s")
  case True
  then have "xp_cursor (snd (nextToken s)) = xp_cursor s \<and> \<not> xp_is_empty (snd (nextToken s))"
    by (auto simp: nextToken_after_empty io_bind_def pop_element_def set_token_def xp_modify_def)
  then show ?thesis using True by (simp add: xp_todo_def)
next
  case False
  then have inner: "xp_inner s" using assms by (auto simp: xp_ok_def xp_inner_def)
  have less: "cu_left (xp_cursor t) < cu_left (xp_cursor s) \<Longrightarrow> xp_todo t < xp_todo s" for t
    by (simp add: xp_todo_def)
  show ?thesis
  proof (cases "xp_token s = START_DOCUMENT")
    case True
    obtain r s1 where p: "prolog s = (r, s1)" by (cases "prolog s")
    have s1: "xp_inner s1" "\<not> xp_is_empty s1" "cu_left (xp_cursor s1) \<le> cu_left (xp_cursor s)"
      using prolog_tame [of s] p inner by (simp_all add: keeps_def xp_inner_def moves_def xp_shrinks_def)
    show ?thesis
    proof (cases r)
      case (Inl e)
      then show ?thesis
        using prolog_throws [OF inner] p True less [of s1] by (simp add: nextToken_start)
    next
      case (Inr u)
      then have eq: "nextToken s = nextToken_read s1" using p True s1 by (simp add: nextToken_start)
      show ?thesis
        using nextToken_read_takes [of s1] s1(3) less [of "snd (nextToken_read s1)"] unfolding eq by auto
    qed
  next
    case start: False
    then have eq: "nextToken s = nextToken_read s" using False by (simp add: nextToken_plain)
    show ?thesis
      using nextToken_read_takes [of s] less [of "snd (nextToken_read s)"] unfolding eq by auto
  qed
qed

definition skipped_tokens :: "token_type set" where
  "skipped_tokens = {COMMENT, DOCDECL, PROCESSING_INSTRUCTION}"

lemma nextToken_skipped:
  assumes "nextToken s = (Inr t, s')" "xp_token s' \<in> skipped_tokens"
  shows "cu_left (xp_cursor s') < cu_left (xp_cursor s)"
proof -
  let ?start = "\<lambda>s. if xp_token s = START_DOCUMENT then prolog s else (Inr (), s)"
  have "moves xp_shrinks ?start s"
    using keeps_moves [OF prolog_tame, of s] by (auto simp: moves_def xp_shrinks_def)
  then obtain u s1 where s1: "?start s = (Inr u, s1)" "cu_left (xp_cursor s1) \<le> cu_left (xp_cursor s)"
    using assms(1) by (cases "?start s"; cases "fst (?start s)") (auto simp: nextToken_def io_bind_def moves_def xp_shrinks_def)
  show ?thesis
  proof (cases "xp_token s1 = START_TAG \<and> xp_is_empty s1")
    case True
    then have "xp_token s' = END_TAG"
      using assms(1) s1 by (auto simp: nextToken_def io_bind_Inr set_token_def xp_modify_result elim!: io_bind_cases)
    then show ?thesis using assms(2) by (simp add: skipped_tokens_def)
  next
    case False
    then have "nextToken_read s1 = (Inr t, s')"
      using assms(1) s1(1) unfolding nextToken_def by (subst (asm) io_bind_Inr) auto
    then show ?thesis using nextToken_read_takes [of s1] s1(2) assms(2) by (auto simp: skipped_tokens_def)
  qed
qed

function token_loop :: "(xml_parser, unit) eff" where
  "token_loop s =
     (case nextToken s of
        (Inl e, s') \<Rightarrow> (Inl e, s')
      | (Inr t, s') \<Rightarrow> if xp_token s' \<in> skipped_tokens then token_loop s' else (Inr (), s'))"
  by pat_completeness auto

termination
  by (relation "measure (\<lambda>s. cu_left (xp_cursor s))") (auto dest: nextToken_skipped [OF sym])

declare token_loop.simps [simp del]

text \<open>\<^verbatim>\<open>event_\<close> is returned whatever the token; it has no value when no event has been seen.\<close>

definition event_of :: "token_type \<Rightarrow> token_type option \<Rightarrow> token_type option" where
  "event_of t ev =
     (if t = START_TAG then Some START_TAG
      else if t = END_TAG then Some END_TAG
      else if t = CDSECT \<or> t = TEXT then Some TEXT
      else if t = END_DOCUMENT then Some END_DOCUMENT else ev)"

definition next_event :: "(xml_parser, token_type option) eff" where
  "next_event =
     io_bind token_loop (\<lambda>u s. (Inr (event_of (xp_token s) (xp_event s)), s\<lparr>xp_event := event_of (xp_token s) (xp_event s)\<rparr>))"

section \<open>Reading is safe and ends\<close>

lemma token_loop_ok:
  "xp_ok s \<Longrightarrow> token_ok (token_loop s)
     \<and> (fst (token_loop s) = Inr () \<and> xp_token (snd (token_loop s)) = END_DOCUMENT \<or> xp_todo (snd (token_loop s)) < xp_todo s)"
proof (induction s rule: token_loop.induct)
  case (1 s)
  obtain r s' where n: "nextToken s = (r, s')" by (cases "nextToken s")
  have ok: "r \<noteq> Inl Undefined" "xp_ok s'" using nextToken_ok [OF "1.prems"] n by (simp_all add: token_ok_def)
  have less: "r = Inr END_DOCUMENT \<and> xp_token s' = END_DOCUMENT \<or> xp_todo s' < xp_todo s"
    using nextToken_takes [OF "1.prems"] n by simp
  show ?case
  proof (cases r)
    case (Inl e)
    then show ?thesis using n ok less by (simp add: token_loop.simps [of s] token_ok_def)
  next
    case (Inr t)
    show ?thesis
    proof (cases "xp_token s' \<in> skipped_tokens")
      case True
      then have "xp_todo s' < xp_todo s" using less by (auto simp: skipped_tokens_def)
      then show ?thesis
        using "1.IH" [OF n [symmetric] Inr True ok(2)] n Inr True by (auto simp: token_loop.simps [of s])
    next
      case False
      then show ?thesis using n Inr ok less by (auto simp: token_loop.simps [of s] token_ok_def)
    qed
  qed
qed

lemma next_event_ok:
  assumes "xp_ok s"
  shows "token_ok (next_event s)"
    "fst (next_event s) = Inr (Some END_DOCUMENT) \<or> xp_todo (snd (next_event s)) < xp_todo s"
proof -
  obtain r s' where l: "token_loop s = (r, s')" by (cases "token_loop s")
  have "xp_ok s' \<Longrightarrow> xp_ok (s'\<lparr>xp_event := ev\<rparr>)" for ev by (simp add: xp_ok_def xp_sound_def)
  then show "token_ok (next_event s)"
    using token_loop_ok [OF assms] l by (cases r) (auto simp: next_event_def io_bind_def token_ok_def)
  show "fst (next_event s) = Inr (Some END_DOCUMENT) \<or> xp_todo (snd (next_event s)) < xp_todo s"
    using token_loop_ok [OF assms] l by (cases r) (auto simp: next_event_def io_bind_def event_of_def xp_todo_def)
qed

text \<open>Calling \<^verbatim>\<open>next\<close> again and again, also after it has thrown.\<close>

fun after_events :: "nat \<Rightarrow> xml_parser \<Rightarrow> xml_parser" where
  "after_events 0 s = s"
| "after_events (Suc n) s = snd (next_event (after_events n s))"

lemma new_parser_ok: "xp_ok (XmlPullParser strm ns)"
  by (simp add: XmlPullParser_def new_cursor_def xp_ok_def xp_sound_def cu_ok_def)

lemma after_events_ok: "xp_ok s \<Longrightarrow> xp_ok (after_events n s)"
  by (induction n) (use next_event_ok in \<open>auto simp: token_ok_def\<close>)

lemma events_reach_end:
  assumes "xp_ok s"
  shows "\<exists>n \<le> xp_todo s. fst (next_event (after_events n s)) = Inr (Some END_DOCUMENT)"
proof (rule ccontr)
  assume "\<not> ?thesis"
  then have never: "fst (next_event (after_events n s)) \<noteq> Inr (Some END_DOCUMENT)" if "n \<le> xp_todo s" for n
    using that by blast
  have "n \<le> xp_todo s + 1 \<Longrightarrow> xp_todo (after_events n s) + n \<le> xp_todo s" for n
  proof (induction n)
    case (Suc n)
    then show ?case
      using next_event_ok(2) [OF after_events_ok [OF assms, of n]] never [of n] by simp
  qed simp
  from this [of "xp_todo s + 1"] show False by simp
qed



end
