(* ===== verification/XmlEvents.thy ===== *)
theory XmlEvents
  imports XmlPull
begin

text \<open>
  What the pull parser makes of a well-formed document: element trees are printed as XML, and the events read
  back from the print are those of the tree.  The first sections say what the cursor and the parser do on a
  given text in front of them; what follows the text is arbitrary.
\<close>

section \<open>The cursor in front of a text\<close>

text \<open>The text is what was put back, at most \<^verbatim>\<open>b\<close> characters, and what the stream holds, without
  carriage returns.\<close>

definition cu_at :: "nat \<Rightarrow> cursor \<Rightarrow> string \<Rightarrow> bool" where
  "cu_at b cu s \<longleftrightarrow> xs_state (cu_strm cu) = XGood \<and> CR \<notin> set (xs_rest (cu_strm cu))
     \<and> length (cu_ahead cu) \<le> b \<and> cu_ahead cu @ xs_rest (cu_strm cu) = s"

lemma cu_at_mono: "cu_at a cu s \<Longrightarrow> a \<le> b \<Longrightarrow> cu_at b cu s"
  by (simp add: cu_at_def)

lemma schar_ascii: "byte c < 128 \<Longrightarrow> schar c = int (byte c)"
  by (simp add: schar_def)

lemma schar_inject: "schar c = schar d \<longleftrightarrow> c = d"
proof
  assume "schar c = schar d"
  then have "byte c = byte d" using byte_less [of c] byte_less [of d] by (auto simp: schar_def simp del: byte_less split: if_splits)
  then show "c = d" by simp
qed simp

lemma uchar_schar: "uchar (schar c) = c"
proof (cases "byte c < 128")
  case False
  have "(int (byte c) - 256) mod 256 = int (byte c)"
    using byte_less [of c] by (simp add: mod_diff_right_eq [symmetric] del: byte_less)
  then show ?thesis using False by (simp add: schar_def uchar_def)
qed (simp add: schar_def)

text \<open>A character that was put back reads as it is; one from the stream may read as a negative number.\<close>

lemma cu_read_at:
  assumes "cu_at b cu (c # s)"
  obtains cu' x where "cu_read cu = (x, cu')" "cu_at (b - 1) cu' s" "uchar x = c" "byte c < 128 \<Longrightarrow> x = int (byte c)"
proof (cases "cu_ahead cu")
  case (Cons y ys)
  then have "fst (cu_read cu) = int (byte c)" "cu_at (b - 1) (snd (cu_read cu)) s"
    using assms by (auto simp: cu_read_def cu_at_def Let_def)
  then show ?thesis using that [of "fst (cu_read cu)" "snd (cu_read cu)"] by (cases "cu_read cu") simp
next
  case Nil
  then have rest: "xs_rest (cu_strm cu) = c # s" "xs_state (cu_strm cu) = XGood" "c \<noteq> CR" "CR \<notin> set s"
    using assms by (auto simp: cu_at_def)
  have "schar c \<noteq> 13" using rest(3) schar_inject [of c CR] by (simp add: schar_ascii)
  then have "cu_get (cu_strm cu) = (schar c, (cu_strm cu)\<lparr>xs_rest := s\<rparr>)"
    using rest by (simp add: cu_get_def xs_get_def Let_def)
  then have "fst (cu_read cu) = schar c" "cu_at (b - 1) (snd (cu_read cu)) s"
    using Nil rest by (auto simp: cu_read_def cu_at_def Let_def)
  then show ?thesis using that [of "fst (cu_read cu)" "snd (cu_read cu)"] uchar_schar schar_ascii
    by (cases "cu_read cu") simp
qed

lemma cu_read_ascii:
  "cu_at b cu (c # s) \<Longrightarrow> byte c < 128 \<Longrightarrow> \<exists>cu'. cu_read cu = (int (byte c), cu') \<and> cu_at (b - 1) cu' s"
  by (metis cu_read_at)

lemma cu_next_at:
  assumes "cu_at b cu (c # s)"
  obtains cu' where "cu_next cu = (Some c, cu')" "cu_at (b - 1) cu' s"
  using cu_read_at [OF assms] assms by (metis (no_types, lifting) cu_at_def cu_next_def old.prod.case)

lemma cu_putback_at:
  "cu_at b cu s \<Longrightarrow> b < 8 \<Longrightarrow> \<exists>cu'. cu_putback c cu = (Inr (), cu') \<and> cu_at (Suc b) cu' (c # s)"
  by (auto simp: cu_putback_def cu_at_def max_read_ahead_def Let_def)

lemma cu_peek_at:
  assumes "cu_at b cu (c # s)"
  shows "cu_peek cu = (schar c, cu)"
proof (cases "cu_ahead cu")
  case Nil
  then have "xs_peek (cu_strm cu) = (int (byte c), cu_strm cu)"
    using assms by (simp add: cu_at_def xs_peek_def)
  then show ?thesis using Nil by (simp add: cu_peek_def)
qed (use assms in \<open>simp add: cu_peek_def cu_at_def\<close>)

section \<open>Readers in front of a text\<close>

text \<open>In front of \<^verbatim>\<open>s\<close> the reader gives \<^verbatim>\<open>x\<close> and leaves the cursor in front of \<^verbatim>\<open>t\<close>.\<close>

definition reads :: "(cursor, 'r) eff \<Rightarrow> string \<Rightarrow> 'r \<Rightarrow> string \<Rightarrow> bool" where
  "reads m s x t \<longleftrightarrow> (\<forall>cu. cu_at 8 cu s \<longrightarrow> (\<exists>cu'. m cu = (Inr x, cu') \<and> cu_at 8 cu' t))"

lemma readsI: "(\<And>cu. cu_at 8 cu s \<Longrightarrow> \<exists>cu'. m cu = (Inr x, cu') \<and> cu_at 8 cu' t) \<Longrightarrow> reads m s x t"
  by (simp add: reads_def)

lemma readsE: "reads m s x t \<Longrightarrow> cu_at 8 cu s \<Longrightarrow> \<exists>cu'. m cu = (Inr x, cu') \<and> cu_at 8 cu' t"
  by (simp add: reads_def)

lemma reads_return: "reads (io_return x) s x s"
  by (simp add: reads_def)

lemma reads_bind: "reads m s x t \<Longrightarrow> reads (k x) t y u \<Longrightarrow> reads (io_bind m k) s y u"
  by (fastforce simp: reads_def io_bind_Inr)

lemma cursor_peek_reads: "reads cursor_peek (c # s) (schar c) (c # s)"
  by (rule readsI) (simp add: cursor_peek_def cu_peek_at)

lemma cu_next_reads:
  assumes "cu_at 8 cu (c # s)"
  shows "\<exists>cu'. cu_next cu = (Some c, cu') \<and> cu_at 8 cu' s \<and> cu_at 7 cu' s"
proof (rule cu_next_at [OF assms])
  fix cu'
  assume "cu_next cu = (Some c, cu')" "cu_at (8 - 1) cu' s"
  then show ?thesis using cu_at_mono [of 7 cu' s 8] by simp
qed

section \<open>The readers of the cursor\<close>

lemma putback_all_at:
  "cu_at b cu s \<Longrightarrow> b + length buf \<le> 8 \<Longrightarrow>
     \<exists>cu'. cu_putback_all buf cu = (Inr (), cu') \<and> cu_at (b + length buf) cu' (rev buf @ s)"
proof (induction buf arbitrary: b cu s)
  case (Cons c buf)
  then obtain cu' where "cu_putback c cu = (Inr (), cu')" "cu_at (Suc b) cu' (c # s)"
    using cu_putback_at [of b cu s c] by fastforce
  then show ?case using Cons.IH [of "Suc b" cu' "c # s"] Cons.prems by (simp add: io_bind_Inr)
qed simp

lemma expect_loop_found:
  "\<forall>c \<in> set p. byte c < 128 \<Longrightarrow> cu_at b cu (p @ s) \<Longrightarrow>
     \<exists>cu'. expect_loop p buf cu = (Inr True, cu') \<and> cu_at b cu' s"
proof (induction p arbitrary: cu buf)
  case (Cons c p)
  have "cu_at b cu (c # (p @ s))" using Cons.prems(2) by simp
  then obtain cu' x where "cu_read cu = (x, cu')" "cu_at (b - 1) cu' (p @ s)" "x = int (byte c)"
    using Cons.prems(1) by (auto elim: cu_read_at)
  then show ?case
    using Cons.IH [of cu' "uchar x # buf"] Cons.prems(1) cu_at_mono [of "b - 1" cu' "p @ s" b]
    by (simp add: schar_ascii)
qed auto

lemma expect_loop_other:
  assumes "byte c < 128" "c \<noteq> d"
  shows "\<forall>x \<in> set q. byte x < 128 \<Longrightarrow> cu_at (8 - length buf) cu (q @ c # s) \<Longrightarrow> length buf + length q < 8 \<Longrightarrow>
     \<exists>cu'. expect_loop (q @ d # p) buf cu = (Inr False, cu') \<and> cu_at 8 cu' (rev buf @ q @ c # s)"
proof (induction q arbitrary: cu buf)
  case Nil
  then have "cu_at (8 - length buf) cu (c # s)" by simp
  then obtain cu1 where r: "cu_read cu = (int (byte c), cu1)" and "cu_at (8 - length buf - 1) cu1 s"
    using cu_read_ascii assms(1) by blast
  then have at: "cu_at (8 - length (c # buf)) cu1 s" by simp
  obtain cu2 where "cu_putback_all (c # buf) cu1 = (Inr (), cu2)" "cu_at 8 cu2 (rev (c # buf) @ s)"
    using putback_all_at [OF at, of "c # buf"] Nil by (auto simp del: cu_putback_all.simps)
  moreover have "schar d \<noteq> int (byte c)" using assms schar_inject [of d c] by (simp add: schar_ascii)
  ultimately show ?case using r by (simp add: Let_def io_bind_Inr del: cu_putback_all.simps)
next
  case (Cons x q)
  have x: "byte x < 128" using Cons.prems(1) by simp
  have "cu_at (8 - length buf) cu (x # (q @ c # s))" using Cons.prems by simp
  then obtain cu1 where r: "cu_read cu = (int (byte x), cu1)" and "cu_at (8 - length buf - 1) cu1 (q @ c # s)"
    using cu_read_ascii x by blast
  then have at: "cu_at (8 - length (x # buf)) cu1 (q @ c # s)" by simp
  show ?case
    using Cons.IH [OF _ at] Cons.prems x r by (simp add: schar_ascii Let_def)
qed

lemma cu_expect_found: "\<forall>c \<in> set p. byte c < 128 \<Longrightarrow> reads (cu_expect p) (p @ s) True s"
  by (rule readsI) (simp add: cu_expect_def expect_loop_found)

lemma cu_expect_other:
  "byte c < 128 \<Longrightarrow> c \<noteq> d \<Longrightarrow> \<forall>x \<in> set q. byte x < 128 \<Longrightarrow> length q < 8 \<Longrightarrow>
     reads (cu_expect (q @ d # p)) (q @ c # s) False (q @ c # s)"
  using expect_loop_other [of c d q "[]"] by (intro readsI) (simp add: cu_expect_def)

definition xml_space :: "char \<Rightarrow> bool" where
  "xml_space c \<longleftrightarrow> c = CHR '' '' \<or> c = TAB \<or> c = CR \<or> c = LF"

lemma xml_space_byte: "xml_space c \<longleftrightarrow> byte c \<in> {32, 9, 13, 10}"
  by (auto simp: xml_space_def char_eq_byte [of c])

lemma skipWhite_reads:
  "\<forall>x \<in> set w. xml_space x \<Longrightarrow> \<not> xml_space c \<Longrightarrow> byte c < 128 \<Longrightarrow> reads skipWhite (w @ c # s) () (c # s)"
proof (induction w)
  case Nil
  show ?case
  proof (rule readsI)
    fix cu
    assume "cu_at 8 cu ([] @ c # s)"
    then obtain cu1 where r: "cu_read cu = (int (byte c), cu1)" "cu_at 7 cu1 s"
      using cu_read_ascii [of 8 cu c s] Nil by auto
    obtain cu2 where "cu_putback c cu1 = (Inr (), cu2)" "cu_at 8 cu2 (c # s)"
      using cu_putback_at [OF r(2), of c] by auto
    then show "\<exists>cu'. skipWhite cu = (Inr (), cu') \<and> cu_at 8 cu' (c # s)"
      using r Nil by (auto simp: skipWhite.simps [of cu] xml_space_byte)
  qed
next
  case (Cons x w)
  show ?case
  proof (rule readsI)
    fix cu
    assume "cu_at 8 cu ((x # w) @ c # s)"
    moreover have x: "byte x \<in> {32, 9, 13, 10}" using Cons.prems(1) by (simp add: xml_space_byte)
    ultimately obtain cu1 where r: "cu_read cu = (int (byte x), cu1)" "cu_at 8 cu1 (w @ c # s)"
      using cu_read_ascii [of 8 cu x "w @ c # s"] cu_at_mono [of 7 _ "w @ c # s" 8] by auto
    then have "cu_good cu1" by (simp add: cu_at_def cu_good_def)
    then have "skipWhite cu = skipWhite cu1" using r(1) x by (auto simp: skipWhite.simps [of cu])
    then show "\<exists>cu'. skipWhite cu = (Inr (), cu') \<and> cu_at 8 cu' (c # s)"
      using readsE [OF Cons.IH [OF _ Cons.prems(2,3)] r(2)] Cons.prems(1) by auto
  qed
qed

section \<open>Names, references and attribute values\<close>

definition xml_name :: "string \<Rightarrow> bool" where
  "xml_name n \<longleftrightarrow> n \<noteq> [] \<and> is_valid_name_char (hd n) 0 \<and> (\<forall>c \<in> set (tl n). is_valid_name_char c 1)"

lemma is_valid_name_char_Suc: "0 < i \<Longrightarrow> is_valid_name_char c i = is_valid_name_char c 1"
  by (simp add: is_valid_name_char_def)

lemma xml_name_nth: "xml_name n \<Longrightarrow> i < length n \<Longrightarrow> is_valid_name_char (n ! i) i"
  using is_valid_name_char_Suc [of i] by (cases n; cases i) (auto simp: xml_name_def)

lemma name_loop_reads:
  "(\<And>i. i < length q \<Longrightarrow> is_valid_name_char (q ! i) (length nm + i)) \<Longrightarrow>
     \<not> is_valid_name_char c (length nm + length q) \<Longrightarrow> reads (name_loop nm) (q @ c # s) (nm @ q) (c # s)"
proof (induction q arbitrary: nm)
  case Nil
  show ?case
  proof (rule readsI)
    fix cu
    assume "cu_at 8 cu ([] @ c # s)"
    then obtain cu1 where n: "cu_next cu = (Some c, cu1)" "cu_at 7 cu1 s" using cu_next_reads [of cu c s] by auto
    obtain cu2 where "cu_putback c cu1 = (Inr (), cu2)" "cu_at 8 cu2 (c # s)"
      using cu_putback_at [OF n(2), of c] by auto
    then show "\<exists>cu'. name_loop nm cu = (Inr (nm @ []), cu') \<and> cu_at 8 cu' (c # s)"
      using n(1) Nil by (simp add: name_loop.simps [of nm cu] io_bind_Inr)
  qed
next
  case (Cons x q)
  show ?case
  proof (rule readsI)
    fix cu
    assume "cu_at 8 cu ((x # q) @ c # s)"
    then obtain cu1 where n: "cu_next cu = (Some x, cu1)" "cu_at 8 cu1 (q @ c # s)"
      using cu_next_reads [of cu x "q @ c # s"] by auto
    have rest: "i < length q \<Longrightarrow> is_valid_name_char (q ! i) (length (nm @ [x]) + i)" for i
      using Cons.prems(1) [of "Suc i"] by simp
    show "\<exists>cu'. name_loop nm cu = (Inr (nm @ x # q), cu') \<and> cu_at 8 cu' (c # s)"
      using readsE [OF Cons.IH [OF rest] n(2)] Cons.prems(1) [of 0] Cons.prems(2) n(1)
      by (auto simp: name_loop.simps [of nm cu])
  qed
qed

lemma parseName_reads:
  assumes "xml_name n" "\<not> is_valid_name_char c 1"
  shows "reads parseName (n @ c # s) n (c # s)"
proof -
  have "length n \<noteq> 0" using assms(1) by (simp add: xml_name_def)
  then have "\<not> is_valid_name_char c (length n)" using assms(2) is_valid_name_char_Suc [of "length n" c] by simp
  then show ?thesis
    using name_loop_reads [of n "[]" c s] xml_name_nth [OF assms(1)] by (simp add: parseName_def)
qed

lemma parseName_no_name: "\<not> is_valid_name_char c 0 \<Longrightarrow> reads parseName (c # s) [] (c # s)"
  using name_loop_reads [of "[]" "[]" c s] by (simp add: parseName_def)

text \<open>The characters that are escaped in the print, in text and in attribute values.\<close>

definition xml_escape_char :: "char \<Rightarrow> string" where
  "xml_escape_char c =
     (if c = CHR ''&'' then ''&amp;'' else if c = CHR ''<'' then ''&lt;''
      else if c = DQ then ''&quot;'' else [c])"

definition xml_escape :: "string \<Rightarrow> string" where
  "xml_escape s = concat (map xml_escape_char s)"

lemma escape_chars_at:
  "CHR '';'' \<notin> set q \<Longrightarrow> length nm + length q \<le> 5 \<Longrightarrow> cu_at 8 cu (q @ CHR '';'' # s) \<Longrightarrow>
     \<exists>cu'. escape_chars nm cu = (nm @ q, cu') \<and> cu_at 8 cu' s"
proof (induction q arbitrary: nm cu)
  case Nil
  then obtain cu1 where "cu_next cu = (Some CHR '';'', cu1)" "cu_at 8 cu1 s"
    using cu_next_reads [of cu "CHR '';''" s] by auto
  then show ?case by (simp add: escape_chars.simps [of nm cu])
next
  case (Cons x q)
  then obtain cu1 where n: "cu_next cu = (Some x, cu1)" "cu_at 8 cu1 (q @ CHR '';'' # s)"
    using cu_next_reads [of cu x "q @ CHR '';'' # s"] by auto
  then show ?case
    using Cons.IH [of "nm @ [x]" cu1] Cons.prems by (auto simp: escape_chars.simps [of nm cu])
qed

lemma escapeString_reads:
  "CHR '';'' \<notin> set q \<Longrightarrow> length q \<le> 5 \<Longrightarrow> escape_value q = Inr v \<Longrightarrow> reads escapeString (q @ CHR '';'' # s) v s"
  using escape_chars_at [of q "[]"] by (fastforce intro: readsI simp: escapeString_def)

lemma escape_values:
  "escape_value ''amp'' = Inr (Some ''&'')" "escape_value ''lt'' = Inr (Some ''<'')" "escape_value ''quot'' = Inr (Some [DQ])"
  by (simp_all add: escape_value_def)

lemma escapeString_entities:
  "reads escapeString (''amp;'' @ s) (Some ''&'') s" "reads escapeString (''lt;'' @ s) (Some ''<'') s"
  "reads escapeString (''quot;'' @ s) (Some [DQ]) s"
  using escapeString_reads [of "''amp''" _ s] escapeString_reads [of "''lt''" _ s] escapeString_reads [of "''quot''" _ s]
  by (simp_all add: escape_values)

text \<open>An escaped character is itself, or a reference to it.\<close>

lemma xml_escape_cases:
  obtains (plain) "xml_escape_char c = [c]" "c \<noteq> CHR ''&''" "c \<noteq> CHR ''<''" "c \<noteq> DQ"
  | (entity) q where "xml_escape_char c = CHR ''&'' # q" "\<And>s. reads escapeString (q @ s) (Some [c]) s"
proof -
  consider "c = CHR ''&''" | "c = CHR ''<''" | "c = DQ" | "c \<noteq> CHR ''&''" "c \<noteq> CHR ''<''" "c \<noteq> DQ" by blast
  then show thesis
  proof cases
    case 1
    then show ?thesis using entity [of "''amp;''"] escapeString_entities(1) by (simp add: xml_escape_char_def)
  next
    case 2
    then show ?thesis using entity [of "''lt;''"] escapeString_entities(2) by (simp add: xml_escape_char_def)
  next
    case 3
    then show ?thesis
      using entity [of "''quot;''"] escapeString_entities(3) by (simp add: xml_escape_char_def DQ_def char_of_eq_iff)
  next
    case 4
    then show ?thesis using plain by (simp add: xml_escape_char_def)
  qed
qed

lemma xml_escape_Cons: "xml_escape (c # s) = xml_escape_char c @ xml_escape s"
  by (simp add: xml_escape_def)

lemma attribute_value_loop_reads:
  "reads (attribute_value_loop DQ l val) (xml_escape v @ DQ # s) (Some (val @ v)) s"
proof (induction v arbitrary: l val)
  case Nil
  show ?case
  proof (rule readsI)
    fix cu
    assume "cu_at 8 cu (xml_escape [] @ DQ # s)"
    then obtain cu1 where "cu_next cu = (Some DQ, cu1)" "cu_at 8 cu1 s"
      using cu_next_reads [of cu DQ s] by (auto simp: xml_escape_def)
    then show "\<exists>cu'. attribute_value_loop DQ l val cu = (Inr (Some (val @ [])), cu') \<and> cu_at 8 cu' s"
      by (simp add: attribute_value_loop.simps [of _ _ _ cu] DQ_def char_of_eq_iff)
  qed
next
  case (Cons c v)
  show ?case
  proof (rule readsI)
    fix cu
    assume at: "cu_at 8 cu (xml_escape (c # v) @ DQ # s)"
    show "\<exists>cu'. attribute_value_loop DQ l val cu = (Inr (Some (val @ c # v)), cu') \<and> cu_at 8 cu' s"
    proof (cases rule: xml_escape_cases [of c])
      case plain
      then obtain cu1 where "cu_next cu = (Some c, cu1)" "cu_at 8 cu1 (xml_escape v @ DQ # s)"
        using cu_next_reads [of cu c "xml_escape v @ DQ # s"] at by (auto simp: xml_escape_Cons)
      then show ?thesis
        using readsE [OF Cons.IH [of c "val @ [c]"]] plain by (fastforce simp: attribute_value_loop.simps [of _ _ _ cu])
    next
      case (entity q)
      then obtain cu1 where n: "cu_next cu = (Some CHR ''&'', cu1)" "cu_at 8 cu1 (q @ xml_escape v @ DQ # s)"
        using cu_next_reads [of cu "CHR ''&''" "q @ xml_escape v @ DQ # s"] at by (auto simp: xml_escape_Cons)
      obtain cu2 where e: "escapeString cu1 = (Inr (Some [c]), cu2)" "cu_at 8 cu2 (xml_escape v @ DQ # s)"
        using readsE [OF entity(2) n(2)] by blast
      obtain cu3 where "attribute_value_loop DQ (CHR ''&'') (val @ [c]) cu2 = (Inr (Some (val @ c # v)), cu3)" "cu_at 8 cu3 s"
        using readsE [OF Cons.IH [of "CHR ''&''" "val @ [c]"] e(2)] by auto
      then show ?thesis using n e by (simp add: attribute_value_loop.simps [of _ _ _ cu])
    qed
  qed
qed

section \<open>Character references\<close>

text \<open>The encoding of RFC 3629, in arithmetic.\<close>

definition utf8_of :: "nat \<Rightarrow> string option" where
  "utf8_of u =
     (if u < 0x80 then Some [char_of u]
      else if u < 0x800 then Some [char_of (192 + u div 64), char_of (128 + u mod 64)]
      else if u < 0x10000 then
        Some [char_of (224 + u div 4096), char_of (128 + u div 64 mod 64), char_of (128 + u mod 64)]
      else if u < 0x110000 then
        Some [char_of (240 + u div 262144), char_of (128 + u div 4096 mod 64), char_of (128 + u div 64 mod 64),
              char_of (128 + u mod 64)]
      else None)"

lemma unat_disjoint: "a AND b = 0 \<Longrightarrow> unat (a OR b) = unat a + unat (b :: 32 word)"
  by (metis disjunctive_add_eq_or unsigned_0 unsigned_and_eq unsigned_or_eq)

lemma unat_field:
  "unat ((drop_bit k w AND mask m) OR push_bit m d) = unat w div 2 ^ k mod 2 ^ m + unat (push_bit m d :: 32 word)"
proof -
  have "(drop_bit k w AND mask m) AND push_bit m d = 0" by (auto simp: bit_eq_iff bit_simps)
  moreover have "unat (drop_bit k w AND mask m) = unat w div 2 ^ k mod 2 ^ m"
  proof -
    have "unat (take_bit m (drop_bit k w)) = take_bit m (drop_bit k (unat w))"
      by (simp add: unsigned_take_bit_eq unat_drop_bit_eq)
    then show ?thesis by (simp only: take_bit_eq_mod drop_bit_eq_div flip: take_bit_eq_mask)
  qed
  ultimately show ?thesis by (simp add: unat_disjoint)
qed

lemma utf8_fields:
  fixes w :: "32 word"
  shows "unat ((drop_bit k w AND 0x3F) OR 0x80) = 128 + unat w div 2 ^ k mod 64"
    "unat ((drop_bit k w AND 0x1F) OR 0xC0) = 192 + unat w div 2 ^ k mod 32"
    "unat ((drop_bit k w AND 0x0F) OR 0xE0) = 224 + unat w div 2 ^ k mod 16"
    "unat ((drop_bit k w AND 0x07) OR 0xF0) = 240 + unat w div 2 ^ k mod 8"
  using unat_field [of k w 6 2] unat_field [of k w 5 6] unat_field [of k w 4 14] unat_field [of k w 3 30]
  by (simp_all add: push_bit_eq_mult mask_eq_exp_minus_1)

lemma unat_drop_div: "unat (drop_bit k w) = unat (w :: 32 word) div 2 ^ k"
  by (simp add: unat_drop_bit_eq flip: drop_bit_eq_div)

lemma utf8_encode_arithmetic: "utf8_encode w = utf8_of (unat w)"
proof -
  have "unat w div 64 mod 32 = unat w div 64" if "unat w < 0x800" using that by (simp add: div_less)
  moreover have "unat w div 4096 mod 16 = unat w div 4096" if "unat w < 0x10000" using that by simp
  moreover have "unat w div 262144 mod 8 = unat w div 262144" if "unat w < 0x110000" using that by simp
  ultimately show ?thesis
    by (auto simp: utf8_encode_def utf8_of_def low_char_def utf8_fields utf8_fields(1) [of 0, simplified] word_le_nat_alt unat_drop_div)
qed

text \<open>Decimal references: the digits are read by \<^verbatim>\<open>stoul\<close>.\<close>

lemma stoul_digits:
  assumes "ds \<noteq> []" "\<forall>c \<in> set ds. isdigit c" "digits_value ds < 2 ^ 64"
  shows "stoul 10 ds = Inr (digits_value ds)"
proof -
  obtain c cs where c: "ds = c # cs" "isdigit c" using assms(1,2) by (cases ds) auto
  then have sign: "strip_sign (dropWhile isspace ds) = (1, ds)"
    by (auto simp: strip_sign_def isdigit_def isspace_def)
  have hex: "strip_0x 10 ds = ds" by (auto simp: strip_0x_def split: list.splits)
  have digit: "digit_val d = byte d - 48 \<and> digit_val d < 10" if "isdigit d" for d
    using that by (auto simp: digit_val_def isdigit_def)
  have "\<forall>x \<in> set ds. digit_val x < 10" using assms(2) digit by blast
  then have digits: "takeWhile (\<lambda>c. digit_val c < 10) ds = ds" by (simp only: takeWhile_eq_all_conv)
  have "foldl (\<lambda>a c. 10 * a + digit_val c) 0 ds = digits_value ds"
    unfolding digits_value_def using assms(2) digit by (intro foldl_cong) auto
  then show ?thesis
    using assms(1,3) by (simp add: stoul_def sign hex digits Let_def del: takeWhile_eq_all_conv)
qed

lemma digits_value_bound: "\<forall>c \<in> set ds. isdigit c \<Longrightarrow> digits_value ds < 10 ^ length ds"
proof (induction ds rule: rev_induct)
  case (snoc c ds)
  then show ?case by (auto simp: digits_value_snoc isdigit_def)
qed (simp add: digits_value_def)

lemma decimal_value:
  assumes "\<forall>c \<in> set ds. isdigit c" "length ds < 9"
  shows "escape_value (CHR ''#'' # ds) = (if length ds < 2 then Inr None else Inr (utf8_of (digits_value ds)))"
proof (cases "length ds < 2")
  case False
  then obtain c cs where ds: "ds = c # cs" "isdigit c" using assms(1) by (cases ds) auto
  have "(10 :: nat) ^ length ds \<le> 10 ^ 8" using assms(2) by (intro power_increasing) auto
  then have v: "digits_value ds < 10 ^ 8" using digits_value_bound [OF assms(1)] by linarith
  have "stoul 10 ds = Inr (digits_value ds)" using stoul_digits [OF _ assms(1)] ds(1) v by simp
  moreover have "unat (word_of_nat (digits_value ds) :: 32 word) = digits_value ds"
    using v by (simp add: unsigned_of_nat take_bit_eq_mod)
  ultimately show ?thesis
    using False ds by (auto simp: escape_value_def utf8_encode_arithmetic isdigit_def)
qed (simp add: escape_value_def)

lemma escape_chars_cut:
  "CHR '';'' \<notin> set q \<Longrightarrow> length nm + length q = 5 \<Longrightarrow> cu_at 8 cu (q @ c # s) \<Longrightarrow>
     \<exists>cu'. escape_chars nm cu = (nm @ q, cu') \<and> cu_at 8 cu' s"
proof (induction q arbitrary: nm cu)
  case Nil
  then obtain cu1 where "cu_next cu = (Some c, cu1)" "cu_at 8 cu1 s"
    using cu_next_reads [of cu c s] by auto
  then show ?case using Nil by (simp add: escape_chars.simps [of nm cu])
next
  case (Cons x q)
  then obtain cu1 where n: "cu_next cu = (Some x, cu1)" "cu_at 8 cu1 (q @ c # s)"
    using cu_next_reads [of cu x "q @ c # s"] by auto
  then show ?case
    using Cons.IH [of "nm @ [x]" cu1] Cons.prems by (auto simp: escape_chars.simps [of nm cu])
qed

text \<open>A decimal character reference of two to four digits is read as the character of that number in UTF-8;
  one of a single digit is refused, and of a longer one the first four digits count, the fifth is lost
  and the rest, with the semicolon, is left as text.\<close>

lemma decimal_references:
  assumes "ds \<noteq> []" "\<forall>c \<in> set ds. isdigit c"
  shows "reads escapeString (CHR ''#'' # ds @ CHR '';'' # s)
     (if length ds = 1 then None else utf8_of (digits_value (take 4 ds)))
     (if length ds \<le> 4 then s else drop 5 ds @ CHR '';'' # s)"
proof -
  have val: "escape_value (CHR ''#'' # take 4 ds) =
      (if length ds = 1 then Inr None else Inr (utf8_of (digits_value (take 4 ds))))"
  proof -
    have "\<forall>c \<in> set (take 4 ds). isdigit c" using assms(2) by (auto dest: in_set_takeD)
    moreover have "length (take 4 ds) < 2 \<longleftrightarrow> length ds = 1" using assms(1) by (cases ds) (auto simp: min_def split: if_splits)
    ultimately show ?thesis using decimal_value [of "take 4 ds"] by simp
  qed
  have no_semicolon: "CHR '';'' \<notin> set (CHR ''#'' # take 4 ds)"
    using bspec [OF assms(2), of "CHR '';''"] in_set_takeD [of "CHR '';''" 4 ds] by (auto simp: isdigit_def)
  show ?thesis
  proof (cases "length ds \<le> 4")
    case True
    then show ?thesis
      using escapeString_reads [OF no_semicolon, of _ s] val by (auto split: if_splits)
  next
    case False
    then have "drop 4 ds = ds ! 4 # drop 5 ds" by (simp add: Cons_nth_drop_Suc [symmetric])
    then have whole: "CHR ''#'' # ds @ CHR '';'' # s = (CHR ''#'' # take 4 ds) @ ds ! 4 # (drop 5 ds @ CHR '';'' # s)"
      by (metis append.assoc append_Cons append_take_drop_id)
    have "reads escapeString ((CHR ''#'' # take 4 ds) @ ds ! 4 # (drop 5 ds @ CHR '';'' # s))
        (utf8_of (digits_value (take 4 ds))) (drop 5 ds @ CHR '';'' # s)"
    proof (rule readsI)
      fix cu
      assume "cu_at 8 cu ((CHR ''#'' # take 4 ds) @ ds ! 4 # (drop 5 ds @ CHR '';'' # s))"
      then obtain cu' where "escape_chars [] cu = (CHR ''#'' # take 4 ds, cu')" "cu_at 8 cu' (drop 5 ds @ CHR '';'' # s)"
        using escape_chars_cut [OF no_semicolon, of "[]" cu] False by auto
      then show "\<exists>cu'. escapeString cu = (Inr (utf8_of (digits_value (take 4 ds))), cu')
          \<and> cu_at 8 cu' (drop 5 ds @ CHR '';'' # s)"
        using val False by (simp add: escapeString_def)
    qed
    then show ?thesis unfolding whole using False by simp
  qed
qed

section \<open>Attribute lists and text\<close>

definition xml_attribute :: "string \<times> string \<Rightarrow> string" where
  "xml_attribute a = fst a @ CHR ''='' # DQ # xml_escape (snd a) @ [DQ]"

definition xml_attributes :: "(string \<times> string) list \<Rightarrow> string" where
  "xml_attributes as = concat (map (\<lambda>a. CHR '' '' # xml_attribute a) as)"

definition dict_of :: "(string \<times> string) list \<Rightarrow> dict" where
  "dict_of as = fold (\<lambda>(k, v). dict_emplace k v) as []"

text \<open>What ends a list of attributes.\<close>

definition tag_end :: "char \<Rightarrow> bool" where
  "tag_end c \<longleftrightarrow> c = CHR ''/'' \<or> c = CHR ''>'' \<or> c = CHR ''?''"

lemma char_facts:
  "\<not> xml_space (CHR ''='')" "\<not> xml_space DQ" "\<not> xml_space (CHR ''<'')" "byte (CHR ''='') < 128"
  "tag_end c \<Longrightarrow> \<not> xml_space c \<and> byte c < 128 \<and> \<not> is_valid_name_char c i \<and> schar c \<in> {47, 62, 63}"
  "\<not> is_valid_name_char (CHR ''='') i" "\<not> is_valid_name_char (CHR '' '') i" "xml_space (CHR '' '')"
  by (auto simp: xml_space_byte tag_end_def is_valid_name_char_def char_class_defs schar_def)

lemma name_head:
  assumes "xml_name n"
  obtains c m where "n = c # m" "is_valid_name_char c 0" "\<not> xml_space c" "byte c < 128" "c \<noteq> CHR ''/''" "c \<noteq> CHR ''?''"
    "c \<noteq> CHR ''!''" "schar c = int (byte c)" "\<not> tag_end c"
proof -
  obtain c m where n: "n = c # m" "is_valid_name_char c 0" using assms by (cases n) (auto simp: xml_name_def)
  then have "\<not> xml_space c" "byte c < 128" "c \<noteq> CHR ''/''" "c \<noteq> CHR ''?''" "c \<noteq> CHR ''!''" "\<not> tag_end c"
    by (auto simp: is_valid_name_char_def char_class_defs xml_space_byte tag_end_def)
  then show thesis using that n schar_ascii by blast
qed

lemma parseAttributeValue_reads: "reads parseAttributeValue (DQ # xml_escape v @ DQ # s) (Some v) s"
proof (rule readsI)
  fix cu
  assume "cu_at 8 cu (DQ # xml_escape v @ DQ # s)"
  then obtain cu1 where "cu_next cu = (Some DQ, cu1)" "cu_at 8 cu1 (xml_escape v @ DQ # s)"
    using cu_next_reads [of cu DQ] by blast
  then show "\<exists>cu'. parseAttributeValue cu = (Inr (Some v), cu') \<and> cu_at 8 cu' s"
    using readsE [OF attribute_value_loop_reads [of DQ "[]" v s]] by (auto simp: parseAttributeValue_def)
qed

lemma attribute_rest_reads: "reads attribute_rest (CHR ''='' # DQ # xml_escape v @ DQ # s) v s"
proof -
  have 1: "reads skipWhite (CHR ''='' # DQ # xml_escape v @ DQ # s) () (CHR ''='' # DQ # xml_escape v @ DQ # s)"
    using skipWhite_reads [of "[]" "CHR ''=''"] char_facts by simp
  have 2: "reads (cu_expect ''='') (CHR ''='' # DQ # xml_escape v @ DQ # s) True (DQ # xml_escape v @ DQ # s)"
    using cu_expect_found [of "''=''"] by simp
  have 3: "reads skipWhite (DQ # xml_escape v @ DQ # s) () (DQ # xml_escape v @ DQ # s)"
    using skipWhite_reads [of "[]" DQ] char_facts by simp
  show ?thesis
    unfolding attribute_rest_def
    by (rule reads_bind [OF 1], rule reads_bind [OF 2], simp, rule reads_bind [OF 3],
        rule reads_bind [OF parseAttributeValue_reads], simp add: reads_return)
qed

lemma attributes_go_on_reads:
  "tag_end c \<Longrightarrow> reads attributes_go_on (c # s) False (c # s)"
  "xml_name n \<Longrightarrow> reads attributes_go_on (CHR '' '' # n @ s) True (n @ s)"
proof -
  assume c: "tag_end c"
  have "reads skipWhite (c # s) () (c # s)"
    using skipWhite_reads [of "[]" c s] char_facts(5) [OF c] by simp
  then show "reads attributes_go_on (c # s) False (c # s)"
    unfolding attributes_go_on_def using char_facts(5) [OF c]
    by (auto intro!: reads_bind cursor_peek_reads reads_return)
next
  assume "xml_name n"
  then obtain c m where n: "n = c # m" "\<not> xml_space c" "byte c < 128" "schar c = int (byte c)" "\<not> tag_end c"
    by (rule name_head)
  have "reads skipWhite (CHR '' '' # n @ s) () (n @ s)"
    using skipWhite_reads [of "'' ''" c "m @ s"] n char_facts by simp
  moreover have "reads cursor_peek (n @ s) (int (byte c)) (n @ s)"
    using cursor_peek_reads [of c "m @ s"] n by simp
  moreover have "reads (\<lambda>cu. (Inr (cu_good cu), cu)) t True t" for t
    by (auto intro!: readsI simp: cu_good_def cu_at_def)
  moreover have "int (byte c) \<notin> {47, 62, 63}"
    using n(5) by (auto simp: tag_end_def char_eq_byte [of c])
  ultimately show "reads attributes_go_on (CHR '' '' # n @ s) True (n @ s)"
    unfolding attributes_go_on_def by (fastforce intro: reads_bind)
qed

lemma attribute_list_loop_reads:
  "xml_name k \<Longrightarrow> (\<forall>a \<in> set as. xml_name (fst a)) \<Longrightarrow> tag_end c \<Longrightarrow>
     cu_at 8 cu (xml_attribute (k, v) @ xml_attributes as @ c # s) \<Longrightarrow>
     \<exists>cu'. attribute_list_loop (cu, d) = (Inr True, cu', fold (\<lambda>(k, v). dict_emplace k v) as (dict_emplace k v d))
       \<and> cu_at 8 cu' (c # s)"
proof (induction as arbitrary: k v cu d)
  case (Cons a as)
  obtain k' v' where a: "a = (k', v')" by (cases a)
  let ?t = "xml_attributes (a # as) @ c # s"
  have "cu_at 8 cu (k @ CHR ''='' # DQ # xml_escape v @ DQ # ?t)"
    using Cons.prems(4) by (simp add: xml_attribute_def)
  then obtain cu1 where 1: "parseName cu = (Inr k, cu1)" "cu_at 8 cu1 (CHR ''='' # DQ # xml_escape v @ DQ # ?t)"
    using readsE [OF parseName_reads [OF Cons.prems(1)]] char_facts(6) by blast
  obtain cu2 where 2: "attribute_rest cu1 = (Inr v, cu2)" "cu_at 8 cu2 ?t"
    using readsE [OF attribute_rest_reads 1(2)] by blast
  have "?t = CHR '' '' # k' @ (CHR ''='' # DQ # xml_escape v' @ DQ # xml_attributes as @ c # s)"
    by (simp add: a xml_attributes_def xml_attribute_def)
  moreover have k': "xml_name k'" using Cons.prems(2) a by simp
  ultimately obtain cu3 where 3: "attributes_go_on cu2 = (Inr True, cu3)"
    "cu_at 8 cu3 (xml_attribute (k', v') @ xml_attributes as @ c # s)"
    using readsE [OF attributes_go_on_reads(2) [OF k']] 2(2) by (auto simp: xml_attribute_def)
  show ?case
    using Cons.IH [OF k' _ Cons.prems(3) 3(2), of "dict_emplace k v d"] Cons.prems(1,2) 1(1) 2(1) 3(1) a
    by (auto simp: attribute_list_loop.simps [of cu] xml_name_def)
next
  case Nil
  then have "cu_at 8 cu (k @ CHR ''='' # DQ # xml_escape v @ DQ # c # s)"
    by (simp add: xml_attribute_def xml_attributes_def)
  then obtain cu1 where 1: "parseName cu = (Inr k, cu1)" "cu_at 8 cu1 (CHR ''='' # DQ # xml_escape v @ DQ # c # s)"
    using readsE [OF parseName_reads [OF Nil(1)]] char_facts(6) by blast
  obtain cu2 where 2: "attribute_rest cu1 = (Inr v, cu2)" "cu_at 8 cu2 (c # s)"
    using readsE [OF attribute_rest_reads 1(2)] by blast
  obtain cu3 where 3: "attributes_go_on cu2 = (Inr False, cu3)" "cu_at 8 cu3 (c # s)"
    using readsE [OF attributes_go_on_reads(1) [OF Nil(3)] 2(2)] by blast
  show ?case
    using Nil 1 2 3 by (auto simp: attribute_list_loop.simps [of cu] xml_name_def)
qed

text \<open>After the name of a tag: white space, the attributes, white space.\<close>

lemma tag_attributes_read:
  assumes "\<forall>a \<in> set as. xml_name (fst a)" "tag_end c" "cu_at 8 cu (xml_attributes as @ c # s)"
  obtains cu1 cu2 b where "skipWhite cu = (Inr (), cu1)" "attribute_list_loop (cu1, []) = (Inr b, cu2, dict_of as)"
    "b \<longleftrightarrow> as \<noteq> []" "cu_at 8 cu2 (c # s)"
proof (cases as)
  case Nil
  have w: "reads skipWhite (c # s) () (c # s)"
    using skipWhite_reads [of "[]" c s] char_facts(5) [OF assms(2)] by simp
  obtain cu1 where 1: "skipWhite cu = (Inr (), cu1)" "cu_at 8 cu1 (c # s)"
    using readsE [OF w] assms(3) Nil by (auto simp: xml_attributes_def)
  obtain cu2 where 2: "parseName cu1 = (Inr [], cu2)" "cu_at 8 cu2 (c # s)"
    using readsE [OF parseName_no_name 1(2)] char_facts(5) [OF assms(2)] by blast
  then show thesis
    using that [of cu1 False cu2] 1 Nil by (simp add: attribute_list_loop.simps [of cu1] dict_of_def)
next
  case (Cons a as')
  obtain k v where a: "a = (k, v)" by (cases a)
  have k: "xml_name k" using assms(1) Cons a by simp
  then obtain c0 m where n: "k = c0 # m" "\<not> xml_space c0" "byte c0 < 128" by (rule name_head)
  have eq: "xml_attributes as @ c # s = '' '' @ c0 # (m @ CHR ''='' # DQ # xml_escape v @ DQ # xml_attributes as' @ c # s)"
    by (simp add: Cons a n xml_attributes_def xml_attribute_def)
  obtain cu1 where 1: "skipWhite cu = (Inr (), cu1)" "cu_at 8 cu1 (xml_attribute (k, v) @ xml_attributes as' @ c # s)"
    using readsE [OF skipWhite_reads [of "'' ''" c0]] assms(3) n(2,3) char_facts(8) unfolding eq
    by (auto simp: n xml_attribute_def)
  show thesis
    using attribute_list_loop_reads [OF k _ assms(2) 1(2), of "[]"] assms(1) Cons a that [of cu1 True] 1(1)
    by (auto simp: dict_of_def)
qed

section \<open>Tags in front of the parser\<close>

lemma on_cursor_at:
  assumes "reads m s x t" "cu_at 8 (xp_cursor p) s"
  obtains cu where "on_cursor m p = (Inr x, p\<lparr>xp_cursor := cu\<rparr>)" "cu_at 8 cu t"
proof -
  obtain cu where "m (xp_cursor p) = (Inr x, cu)" "cu_at 8 cu t" using readsE [OF assms] by blast
  then show thesis using that by (simp add: on_cursor_def)
qed

text \<open>The state after a start tag, without namespaces.\<close>

definition started :: "xml_parser \<Rightarrow> string \<Rightarrow> dict \<Rightarrow> bool \<Rightarrow> cursor \<Rightarrow> xml_parser" where
  "started s n d e cu =
     s\<lparr>xp_cursor := cu, xp_name := n, xp_attributes := d, xp_local_name := n,
       xp_elements := \<lparr>el_name = n, el_prefix = xp_prefix s, el_ns = xp_ns s\<rparr> # xp_elements s, xp_is_empty := e\<rparr>"

text \<open>From the name to the end of the tag.\<close>

lemma start_head_read:
  assumes "xml_name n" "\<forall>a \<in> set as. xml_name (fst a)" "\<not> xp_process_ns s" "tag_end k"
    and at: "cu_at 8 (xp_cursor s) (n @ xml_attributes as @ k # t)"
  obtains cu where "start_element_head s = (Inr (), started s n (dict_of as) (xp_is_empty s) cu)" "cu_at 8 cu (k # t)"
proof -
  obtain c m where n: "n = c # m" "\<not> xml_space c" "byte c < 128"
    using name_head [OF assms(1)] by metis
  have after: "\<exists>x u. xml_attributes as @ k # t = x # u \<and> \<not> is_valid_name_char x 1"
    using char_facts(5) [OF assms(4), of 1] char_facts(7) by (cases as) (simp_all add: xml_attributes_def)
  have w: "reads skipWhite (n @ u) () (n @ u)" for u
    using skipWhite_reads [of "[]" c "m @ u"] n by simp
  obtain cu1 where 1: "skipWhite (xp_cursor s) = (Inr (), cu1)" "cu_at 8 cu1 (n @ xml_attributes as @ k # t)"
    using readsE [OF w at] by blast
  obtain cu2 where 2: "parseName cu1 = (Inr n, cu2)" "cu_at 8 cu2 (xml_attributes as @ k # t)"
    using readsE [OF parseName_reads [OF assms(1)]] 1(2) after by metis
  obtain cu3 cu4 b where 3: "skipWhite cu2 = (Inr (), cu3)" "attribute_list_loop (cu3, []) = (Inr b, cu4, dict_of as)"
    "cu_at 8 cu4 (k # t)"
    using tag_attributes_read [OF assms(2,4) 2(2)] by metis
  have w': "reads skipWhite (k # t) () (k # t)"
    using skipWhite_reads [of "[]" k t] char_facts(5) [OF assms(4)] by simp
  obtain cu5 where 5: "skipWhite cu4 = (Inr (), cu5)" "cu_at 8 cu5 (k # t)"
    using readsE [OF w' 3(3)] by blast
  have "start_element_head s = (Inr (), started s n (dict_of as) (xp_is_empty s) cu5)"
    using 1 2 3 5 assms(1,3)
    by (simp add: start_element_head_def parse_name_member_def io_bind_def on_cursor_def xp_modify_def parseAttributeList_def
        open_element_def started_def xml_name_def)
  then show thesis using that 5(2) by blast
qed

lemma start_close_read:
  assumes "cu_at 8 cu ((if e then ''/>'' else ''>'') @ t)"
  obtains cu' where "start_element_close (started s n d e0 cu) = (Inr True, started s n d e cu')" "cu_at 8 cu' t"
proof -
  have cursor: "xp_cursor (started s n d e0 cu) = cu" by (simp add: started_def)
  show thesis
  proof (cases e)
    case True
    then obtain cu' where "cu_expect ''/>'' cu = (Inr True, cu')" "cu_at 8 cu' t"
      using readsE [OF cu_expect_found [of "''/>''"]] assms by auto
    then show thesis
      using that [of cu'] cursor True
      by (simp add: start_element_close_def io_bind_def on_cursor_def xp_modify_def) (simp add: started_def)
  next
    case False
    obtain cu1 where 1: "cu_expect ''/>'' cu = (Inr False, cu1)" "cu_at 8 cu1 (''>'' @ t)"
      using readsE [OF cu_expect_other [of "CHR ''>''" "CHR ''/''" "[]" "''>''"]] assms False by auto
    obtain cu' where "cu_expect ''>'' cu1 = (Inr True, cu')" "cu_at 8 cu' t"
      using readsE [OF cu_expect_found [of "''>''"] 1(2)] by auto
    then show thesis
      using that [of cu'] 1(1) cursor False
      by (simp add: start_element_close_def io_bind_def on_cursor_def xp_modify_def) (simp add: started_def)
  qed
qed

lemma start_tag_read:
  assumes "xml_name n" "\<forall>a \<in> set as. xml_name (fst a)" "\<not> xp_process_ns s"
    and at: "cu_at 8 (xp_cursor s) (n @ xml_attributes as @ (if e then ''/>'' else ''>'') @ t)"
  obtains cu where "parseStartElement s = (Inr True, started s n (dict_of as) e cu)" "cu_at 8 cu t"
proof -
  obtain c m where n: "n = c # m" "c \<noteq> CHR ''/''" "schar c = int (byte c)"
    using name_head [OF assms(1)] by metis
  obtain k u where k: "tag_end k" "(if e then ''/>'' else ''>'') @ t = k # u" by (cases e) (auto simp: tag_end_def)
  have peek: "on_cursor cursor_peek s = (Inr (schar c), s)"
    using at n(1) cu_peek_at [of 8 "xp_cursor s" c] by (simp add: on_cursor_def cursor_peek_def)
  obtain cu1 where 1: "start_element_head s = (Inr (), started s n (dict_of as) (xp_is_empty s) cu1)" "cu_at 8 cu1 (k # u)"
    by (rule start_head_read [OF assms(1-3) k(1)]) (use at k(2) in simp)
  have "int (byte c) \<noteq> 47" using n(2) by (auto simp: char_eq_byte [of c])
  then have body: "parseStartElement s = start_element_close (started s n (dict_of as) (xp_is_empty s) cu1)"
    using peek 1(1) n(3) by (simp add: parseStartElement_def io_bind_Inr)
  obtain cu where "start_element_close (started s n (dict_of as) (xp_is_empty s) cu1) = (Inr True, started s n (dict_of as) e cu)"
    "cu_at 8 cu t"
    by (rule start_close_read [of cu1 e t]) (use 1(2) k(2) in simp)
  then show thesis using that body by simp
qed

lemma end_tag_read:
  assumes "xml_name n" "cu_at 8 (xp_cursor s) (CHR ''/'' # n @ CHR ''>'' # t)"
  obtains cu where "parseStartElement s = (Inr False, s)" "parseEndElement s = (Inr True, s\<lparr>xp_cursor := cu, xp_name := n\<rparr>)"
    "cu_at 8 cu t"
proof -
  obtain c m where n: "n = c # m" "\<not> xml_space c" "byte c < 128" using name_head [OF assms(1)] by metis
  have peek: "on_cursor cursor_peek s = (Inr 47, s)"
    using assms(2) cu_peek_at [of 8 "xp_cursor s" "CHR ''/''"] by (simp add: on_cursor_def cursor_peek_def schar_def)
  obtain cu1 where 1: "cu_read (xp_cursor s) = (47, cu1)" "cu_at 8 cu1 (n @ CHR ''>'' # t)"
    using cu_read_ascii [OF assms(2)] cu_at_mono [of 7 _ "n @ CHR ''>'' # t" 8] by auto
  have w: "reads skipWhite (n @ CHR ''>'' # t) () (n @ CHR ''>'' # t)"
    using skipWhite_reads [of "[]" c "m @ CHR ''>'' # t"] n by simp
  obtain cu2 where 2: "skipWhite cu1 = (Inr (), cu2)" "cu_at 8 cu2 (n @ CHR ''>'' # t)"
    using readsE [OF w 1(2)] by blast
  obtain cu3 where 3: "parseName cu2 = (Inr n, cu3)" "cu_at 8 cu3 (CHR ''>'' # t)"
    using readsE [OF parseName_reads [OF assms(1)] 2(2)] char_facts(5) [of "CHR ''>''" 1] by (auto simp: tag_end_def)
  have w': "reads skipWhite (CHR ''>'' # t) () (''>'' @ t)"
    using skipWhite_reads [of "[]" "CHR ''>''" t] by (simp add: xml_space_byte)
  obtain cu4 where 4: "skipWhite cu3 = (Inr (), cu4)" "cu_at 8 cu4 (''>'' @ t)"
    using readsE [OF w' 3(2)] by blast
  obtain cu5 where 5: "cu_expect ''>'' cu4 = (Inr True, cu5)" "cu_at 8 cu5 t"
    using readsE [OF cu_expect_found [of "''>''"] 4(2)] by auto
  have "parseStartElement s = (Inr False, s)"
    using peek by (simp add: parseStartElement_def io_bind_Inr)
  moreover have "parseEndElement s = (Inr True, s\<lparr>xp_cursor := cu5, xp_name := n\<rparr>)"
    using peek 1 2 3 4 5 assms(1)
    by (simp add: parseEndElement_def parse_name_member_def cursor_read_def io_bind_def on_cursor_def xp_modify_def xml_name_def)
  ultimately show thesis using that 5(2) by blast
qed

section \<open>Text in front of the parser\<close>

definition xml_white :: "string \<Rightarrow> bool" where
  "xml_white t \<longleftrightarrow> (\<forall>c \<in> set t. c = CHR '' '' \<or> c = LF)"

lemma characters_loop_at:
  "CR \<notin> set t \<Longrightarrow> cu_at 8 cu (xml_escape t @ CHR ''<'' # s) \<Longrightarrow>
     \<exists>cu'. characters_loop (cu, x, ws) = (Inr (), cu', x @ t, ws \<and> xml_white t) \<and> cu_at 8 cu' (CHR ''<'' # s)"
proof (induction t arbitrary: cu x ws)
  case Nil
  then obtain cu1 where n: "cu_next cu = (Some CHR ''<'', cu1)" "cu_at 7 cu1 s"
    using cu_next_reads [of cu "CHR ''<''" s] by (auto simp: xml_escape_def)
  obtain cu2 where "cu_putback CHR ''<'' cu1 = (Inr (), cu2)" "cu_at 8 cu2 (CHR ''<'' # s)"
    using cu_putback_at [OF n(2), of "CHR ''<''"] by auto
  then show ?case using n(1) by (simp add: characters_loop.simps [of cu] xml_white_def char_eq_byte [of _ CR])
next
  case (Cons c t)
  have cr: "c \<noteq> CR" "CR \<notin> set t" using Cons.prems(1) by auto
  show ?case
  proof (cases rule: xml_escape_cases [of c])
    case plain
    then obtain cu1 where "cu_next cu = (Some c, cu1)" "cu_at 8 cu1 (xml_escape t @ CHR ''<'' # s)"
      using cu_next_reads [of cu c] Cons.prems(2) by (auto simp: xml_escape_Cons)
    then show ?thesis
      using Cons.IH [OF cr(2), of cu1 "x @ [c]" "ws \<and> (c = CHR '' '' \<or> c = LF)"] plain cr(1)
      by (auto simp: characters_loop.simps [of cu] xml_white_def)
  next
    case (entity q)
    then obtain cu1 where n: "cu_next cu = (Some CHR ''&'', cu1)" "cu_at 8 cu1 (q @ xml_escape t @ CHR ''<'' # s)"
      using cu_next_reads [of cu "CHR ''&''"] Cons.prems(2) by (auto simp: xml_escape_Cons)
    obtain cu2 where e: "escapeString cu1 = (Inr (Some [c]), cu2)" "cu_at 8 cu2 (xml_escape t @ CHR ''<'' # s)"
      using readsE [OF entity(2) n(2)] by blast
    have "c \<noteq> CHR '' ''" "c \<noteq> LF"
      using entity(1) by (auto simp: xml_escape_char_def char_eq_byte [of _ LF] char_eq_byte [of DQ] split: if_splits)
    then show ?thesis
      using Cons.IH [OF cr(2) e(2), of "x @ [c]" False] n(1) e(1)
      by (auto simp: characters_loop.simps [of cu] xml_white_def char_eq_byte [of _ CR])
  qed
qed

section \<open>Trees, their print and their events\<close>

datatype xml_tree = Element string "(string \<times> string) list" "xml_tree list" | Text string

datatype xml_event = Start_element string dict | Characters string bool | End_element string

text \<open>An element without children is printed as an empty tag.\<close>

fun xml_print :: "xml_tree \<Rightarrow> string" where
  "xml_print (Text t) = xml_escape t"
| "xml_print (Element n as cs) =
     CHR ''<'' # n @ xml_attributes as @
       (if cs = [] then ''/>'' else CHR ''>'' # concat (map xml_print cs) @ ''</'' @ n @ ''>'')"

fun tree_events :: "xml_tree \<Rightarrow> xml_event list" where
  "tree_events (Text t) = [Characters t (xml_white t)]"
| "tree_events (Element n as cs) =
     Start_element n (dict_of as) # concat (map tree_events cs) @ [End_element n]"

fun is_text :: "xml_tree \<Rightarrow> bool" where
  "is_text (Text t) = True"
| "is_text (Element n as cs) = False"

fun separated :: "xml_tree list \<Rightarrow> bool" where
  "separated (c # d # cs) = (\<not> (is_text c \<and> is_text d) \<and> separated (d # cs))"
| "separated cs = True"

text \<open>The trees a print can hold: names are names, text is not empty, not next to text, and there are no
  carriage returns, which XML normalises away.\<close>

fun xml_ok :: "xml_tree \<Rightarrow> bool" where
  "xml_ok (Text t) = (t \<noteq> [] \<and> CR \<notin> set t)"
| "xml_ok (Element n as cs) =
     (xml_name n \<and> (\<forall>a \<in> set as. xml_name (fst a) \<and> CR \<notin> set (snd a)) \<and> separated cs \<and> (\<forall>c \<in> set cs. xml_ok c))"

text \<open>What a client sees of an event: its type, and the name, the attributes or the text.\<close>

definition observe :: "token_type option \<Rightarrow> xml_parser \<Rightarrow> xml_event option" where
  "observe ev s =
     (if ev = Some START_TAG then Some (Start_element (xp_local_name s) (xp_attributes s))
      else if ev = Some TEXT then Some (Characters (xp_text s) (xp_is_whitespace s))
      else if ev = Some END_TAG then Some (End_element (xp_local_name s))
      else None)"

fun read_events :: "nat \<Rightarrow> (xml_parser, xml_event option list) eff" where
  "read_events 0 s = (Inr [], s)"
| "read_events (Suc n) s =
     io_bind next_event (\<lambda>ev s. io_bind (read_events n) (\<lambda>es. io_return (observe ev s # es)) s) s"

lemma read_events_append:
  assumes "read_events m s = (Inr a, s1)" "read_events n s1 = (Inr b, s2)"
  shows "read_events (m + n) s = (Inr (a @ b), s2)"
  using assms(1)
proof (induction m arbitrary: s a)
  case 0
  then show ?case using assms(2) by simp
next
  case (Suc m)
  obtain ev s' a' where n: "next_event s = (Inr ev, s')" "read_events m s' = (Inr a', s1)" "a = observe ev s' # a'"
    using Suc.prems by (auto elim!: io_bind_cases)
  show ?case using Suc.IH [OF n(2)] n by (simp add: io_bind_Inr)
qed

lemma read_events_one: "next_event s = (Inr ev, s') \<Longrightarrow> read_events 1 s = (Inr [observe ev s'], s')"
  by (simp add: io_bind_Inr)

section \<open>The parser in front of a document\<close>

text \<open>The parser is about to read a token in front of \<^verbatim>\<open>x\<close>, inside the elements \<^verbatim>\<open>names\<close>, the innermost first.\<close>

definition placed :: "xml_parser \<Rightarrow> string list \<Rightarrow> string \<Rightarrow> bool" where
  "placed s names x \<longleftrightarrow> cu_at 8 (xp_cursor s) x \<and> \<not> xp_process_ns s \<and> map el_name (xp_elements s) = names
     \<and> xp_depth s = int (length names)"

definition before :: "xml_parser \<Rightarrow> string list \<Rightarrow> string \<Rightarrow> bool" where
  "before s names x \<longleftrightarrow> (\<exists>s1. nextToken s = nextToken_read s1 \<and> placed s1 names x)"

text \<open>The parser has just read the end of the element \<^verbatim>\<open>n\<close>.\<close>

definition ended :: "xml_parser \<Rightarrow> string \<Rightarrow> string list \<Rightarrow> string \<Rightarrow> bool" where
  "ended s n names x \<longleftrightarrow> placed s names x \<and> xp_token s = END_TAG \<and> xp_local_name s = n"

lemma before_next:
  "placed s names x \<Longrightarrow> xp_token s \<noteq> START_DOCUMENT \<Longrightarrow> \<not> (xp_token s = START_TAG \<and> xp_is_empty s) \<Longrightarrow> before s names x"
  unfolding before_def using nextToken_plain by blast

lemma ended_before: "ended s n names x \<Longrightarrow> before s names x"
  unfolding ended_def by (rule before_next) auto

lemma placed_event [simp]: "placed (s\<lparr>xp_event := ev\<rparr>) names x = placed s names x"
  by (simp add: placed_def)

lemma next_event_token:
  assumes "nextToken s = (Inr t, s')" "xp_token s' \<in> {START_TAG, END_TAG, TEXT}"
  shows "next_event s = (Inr (Some (xp_token s')), s'\<lparr>xp_event := Some (xp_token s')\<rparr>)"
proof -
  have "token_loop s = (Inr (), s')"
    using assms by (auto simp: token_loop.simps [of s] skipped_tokens_def)
  then show ?thesis using assms(2) by (auto simp: next_event_def io_bind_Inr event_of_def)
qed

lemma nextToken_read_at:
  assumes "cu_at 8 (xp_cursor s) (c # x)"
  obtains cu where "cu_at 8 cu x" "cu_at 7 cu x"
    "nextToken_read s = io_bind (if c = CHR ''<'' then markup_token else text_token c) (\<lambda>u s. (Inr (xp_token s), s))
       (s\<lparr>xp_cursor := cu\<rparr>)"
proof -
  obtain cu where "cu_next (xp_cursor s) = (Some c, cu)" "cu_at 8 cu x" "cu_at 7 cu x"
    using cu_next_reads [OF assms] by blast
  then show thesis using that by (simp add: nextToken_read_def)
qed

lemma markup_token_at:
  assumes "before s names (CHR ''<'' # x)"
  obtains s1 where "nextToken s = io_bind markup_token (\<lambda>u s. (Inr (xp_token s), s)) s1" "placed s1 names x"
proof -
  obtain s0 where s0: "nextToken s = nextToken_read s0" "placed s0 names (CHR ''<'' # x)"
    using assms by (auto simp: before_def)
  then have at: "cu_at 8 (xp_cursor s0) (CHR ''<'' # x)" by (simp add: placed_def)
  obtain cu where "cu_at 8 cu x"
    "nextToken_read s0 = io_bind (if CHR ''<'' = CHR ''<'' then markup_token else text_token CHR ''<'')
       (\<lambda>u s. (Inr (xp_token s), s)) (s0\<lparr>xp_cursor := cu\<rparr>)"
    by (rule nextToken_read_at [OF at])
  then show thesis using that [of "s0\<lparr>xp_cursor := cu\<rparr>"] s0 by (simp add: placed_def)
qed

lemma start_event:
  assumes "before s names (CHR ''<'' # n @ xml_attributes as @ (if e then ''/>'' else ''>'') @ t)"
    and "xml_name n" "\<forall>a \<in> set as. xml_name (fst a)"
  obtains s' where "read_events 1 s = (Inr [Some (Start_element n (dict_of as))], s')" "placed s' (n # names) t"
    "xp_token s' = START_TAG" "xp_is_empty s' = e" "xp_local_name s' = n"
proof -
  obtain s1 where s1: "nextToken s = io_bind markup_token (\<lambda>u s. (Inr (xp_token s), s)) s1"
    "placed s1 names (n @ xml_attributes as @ (if e then ''/>'' else ''>'') @ t)"
    by (rule markup_token_at [OF assms(1)])
  have at: "cu_at 8 (xp_cursor s1) (n @ xml_attributes as @ (if e then ''/>'' else ''>'') @ t)" and ns: "\<not> xp_process_ns s1"
    using s1(2) by (simp_all add: placed_def)
  obtain cu where st: "parseStartElement s1 = (Inr True, started s1 n (dict_of as) e cu)" "cu_at 8 cu t"
    by (rule start_tag_read [OF assms(2,3) ns at])
  define s' where "s' = (started s1 n (dict_of as) e cu)
    \<lparr>xp_token := START_TAG, xp_depth := xp_depth s1 + 1, xp_event := Some START_TAG\<rparr>"
  have "next_event s = (Inr (Some START_TAG), s')"
    using next_event_token [of s] s1(1) st(1)
    by (simp add: markup_token_def io_bind_Inr xp_modify_def io_bind_def started_def s'_def)
  then have "read_events 1 s = (Inr [Some (Start_element n (dict_of as))], s')"
    using read_events_one by (fastforce simp: observe_def s'_def started_def)
  moreover have "placed s' (n # names) t" "xp_token s' = START_TAG" "xp_is_empty s' = e" "xp_local_name s' = n"
    using s1(2) st(2) by (auto simp: placed_def s'_def started_def)
  ultimately show thesis using that by blast
qed

lemma end_event:
  assumes "before s (n # names) (''</'' @ n @ CHR ''>'' # t)" "xml_name n"
  obtains s' where "read_events 1 s = (Inr [Some (End_element n)], s')" "ended s' n names t"
proof -
  obtain s1 where s1: "nextToken s = io_bind markup_token (\<lambda>u s. (Inr (xp_token s), s)) s1"
    "placed s1 (n # names) (CHR ''/'' # n @ CHR ''>'' # t)"
    using assms(1) by (auto elim: markup_token_at)
  then obtain e es where es: "xp_elements s1 = e # es" "el_name e = n" "map el_name es = names" and
    at: "cu_at 8 (xp_cursor s1) (CHR ''/'' # n @ CHR ''>'' # t)" and ns: "\<not> xp_process_ns s1"
    by (auto simp: placed_def)
  obtain cu where p: "parseStartElement s1 = (Inr False, s1)" "parseEndElement s1 = (Inr True, s1\<lparr>xp_cursor := cu, xp_name := n\<rparr>)"
    "cu_at 8 cu t"
    by (rule end_tag_read [OF assms(2) at])
  define s' where "s' = s1\<lparr>xp_cursor := cu, xp_name := n, xp_local_name := n, xp_ns := el_ns e, xp_prefix := el_prefix e,
    xp_token := END_TAG, xp_depth := xp_depth s1 - 1, xp_elements := es, xp_event := Some END_TAG\<rparr>"
  have "next_event s = (Inr (Some END_TAG), s')"
    using next_event_token [of s] s1(1) p(1,2) es ns
    by (simp add: markup_token_def markup_rest_def close_element_def pop_element_def io_bind_Inr xp_modify_def s'_def)
  then have "read_events 1 s = (Inr [Some (End_element n)], s')"
    using read_events_one by (fastforce simp: observe_def s'_def)
  moreover have "ended s' n names t"
    using s1(2) es p(3) by (auto simp: ended_def placed_def s'_def)
  ultimately show thesis using that by blast
qed

lemma empty_end_event:
  assumes "placed s (n # names) t" "xp_token s = START_TAG" "xp_is_empty s" "xp_local_name s = n"
  obtains s' where "read_events 1 s = (Inr [Some (End_element n)], s')" "ended s' n names t"
proof -
  obtain e es where es: "xp_elements s = e # es" "map el_name es = names" and ns: "\<not> xp_process_ns s"
    using assms(1) by (auto simp: placed_def)
  define s' where "s' = s\<lparr>xp_is_empty := False, xp_depth := xp_depth s - 1, xp_elements := es, xp_token := END_TAG,
    xp_event := Some END_TAG\<rparr>"
  have "next_event s = (Inr (Some END_TAG), s')"
    using next_event_token [of s] es ns assms(2,3)
    by (simp add: nextToken_after_empty io_bind_Inr pop_element_def set_token_def xp_modify_def s'_def)
  then have "read_events 1 s = (Inr [Some (End_element n)], s')"
    using read_events_one assms(4) by (fastforce simp: observe_def s'_def)
  moreover have "ended s' n names t"
    using assms(1,4) es by (auto simp: ended_def placed_def s'_def)
  ultimately show thesis using that by blast
qed

lemma xml_escape_head: "t \<noteq> [] \<Longrightarrow> \<exists>c y. xml_escape t = c # y \<and> c \<noteq> CHR ''<''"
proof (cases t)
  case (Cons c u)
  show ?thesis by (cases rule: xml_escape_cases [of c]) (auto simp: Cons xml_escape_Cons)
qed simp

lemma text_event:
  assumes "before s names (xml_escape t @ CHR ''<'' # u)" "t \<noteq> []" "CR \<notin> set t"
  obtains s' where "read_events 1 s = (Inr [Some (Characters t (xml_white t))], s')" "before s' names (CHR ''<'' # u)"
proof -
  obtain s1 where s1: "nextToken s = nextToken_read s1" "placed s1 names (xml_escape t @ CHR ''<'' # u)"
    using assms(1) by (auto simp: before_def)
  obtain c y where c: "xml_escape t = c # y" "c \<noteq> CHR ''<''" using xml_escape_head [OF assms(2)] by blast
  have at: "cu_at 8 (xp_cursor s1) (c # (y @ CHR ''<'' # u))" using s1(2) c(1) by (simp add: placed_def)
  obtain cu where n: "cu_at 7 cu (y @ CHR ''<'' # u)"
    "nextToken_read s1 = io_bind (if c = CHR ''<'' then markup_token else text_token c) (\<lambda>u s. (Inr (xp_token s), s))
       (s1\<lparr>xp_cursor := cu\<rparr>)"
    by (rule nextToken_read_at [OF at])
  obtain cu1 where 1: "cu_putback c cu = (Inr (), cu1)" "cu_at 8 cu1 (xml_escape t @ CHR ''<'' # u)"
    using cu_putback_at [OF n(1), of c] c(1) by auto
  obtain cu2 where 2: "characters_loop (cu1, [], True) = (Inr (), cu2, t, xml_white t)" "cu_at 8 cu2 (CHR ''<'' # u)"
    using characters_loop_at [OF assms(3) 1(2), of "[]" True] by auto
  define s' where "s' = s1\<lparr>xp_cursor := cu2, xp_text := t, xp_is_whitespace := xml_white t, xp_token := TEXT,
    xp_event := Some TEXT\<rparr>"
  have "next_event s = (Inr (Some TEXT), s')"
    using next_event_token [of s] s1(1) n(2) c(2) 1(1) 2(1) assms(2)
    by (simp add: text_token_def io_bind_assoc io_bind_def on_cursor_def parseCharacters_def set_token_def xp_modify_def s'_def)
  then have "read_events 1 s = (Inr [Some (Characters t (xml_white t))], s')"
    using read_events_one by (fastforce simp: observe_def s'_def)
  moreover have "before s' names (CHR ''<'' # u)"
    by (rule before_next) (use s1(2) 2(2) in \<open>auto simp: placed_def s'_def\<close>)
  ultimately show thesis using that by blast
qed

section \<open>The events of a tree\<close>

definition reads_tree :: "xml_parser \<Rightarrow> string list \<Rightarrow> xml_event list \<Rightarrow> string \<Rightarrow> bool" where
  "reads_tree s names evs t \<longleftrightarrow>
     (\<exists>s'. read_events (length evs) s = (Inr (map Some evs), s') \<and> before s' names t)"

lemma reads_tree_Nil: "before s names t \<Longrightarrow> reads_tree s names [] t"
  by (simp add: reads_tree_def)

lemma reads_tree_append:
  assumes "reads_tree s names a u" "\<And>s'. before s' names u \<Longrightarrow> reads_tree s' names' b t"
  shows "reads_tree s names' (a @ b) t"
proof -
  obtain s1 where s1: "read_events (length a) s = (Inr (map Some a), s1)" "before s1 names u"
    using assms(1) by (auto simp: reads_tree_def)
  obtain s2 where "read_events (length b) s1 = (Inr (map Some b), s2)" "before s2 names' t"
    using assms(2) [OF s1(2)] by (auto simp: reads_tree_def)
  then show ?thesis using read_events_append [OF s1(1)] by (auto simp: reads_tree_def)
qed

lemma xml_print_head: "\<not> is_text c \<Longrightarrow> \<exists>u. xml_print c = CHR ''<'' # u"
  by (cases c) auto

lemma forest_events:
  assumes "\<And>c s u. c \<in> set cs \<Longrightarrow> (is_text c \<Longrightarrow> \<exists>v. u = CHR ''<'' # v) \<Longrightarrow> before s names (xml_print c @ u) \<Longrightarrow>
      reads_tree s names (tree_events c) u"
    and "separated cs" "before s names (concat (map xml_print cs) @ CHR ''<'' # v)"
  shows "reads_tree s names (concat (map tree_events cs)) (CHR ''<'' # v)"
  using assms
proof (induction cs arbitrary: s)
  case Nil
  then show ?case by (simp add: reads_tree_Nil)
next
  case (Cons c cs)
  let ?u = "concat (map xml_print cs) @ CHR ''<'' # v"
  have sep: "separated cs" using Cons.prems(2) by (cases cs) auto
  have head: "\<exists>w. ?u = CHR ''<'' # w" if "is_text c"
  proof (cases cs)
    case (Cons d ds)
    then have "\<not> is_text d" using \<open>separated (c # cs)\<close> that by simp
    then show ?thesis using xml_print_head [of d] Cons by auto
  qed simp
  have "reads_tree s names (tree_events c) ?u"
    using Cons.prems(1) [of c ?u s] Cons.prems(3) head by simp
  moreover have "reads_tree s' names (concat (map tree_events cs)) (CHR ''<'' # v)" if "before s' names ?u" for s'
    using Cons.IH [OF _ sep that] Cons.prems(1) by simp
  ultimately show ?case by (auto intro: reads_tree_append)
qed

lemma reads_tree_one: "read_events 1 s = (Inr [Some ev], s') \<Longrightarrow> before s' names t \<Longrightarrow> reads_tree s names [ev] t"
  by (auto simp: reads_tree_def)

lemma element_read:
  assumes ok: "xml_ok (Element n as cs)"
    and IH: "\<And>c s u. c \<in> set cs \<Longrightarrow> (is_text c \<Longrightarrow> \<exists>v. u = CHR ''<'' # v) \<Longrightarrow> before s (n # names) (xml_print c @ u) \<Longrightarrow>
      reads_tree s (n # names) (tree_events c) u"
    and s: "before s names (xml_print (Element n as cs) @ u)"
  obtains s' where "read_events (length (tree_events (Element n as cs))) s = (Inr (map Some (tree_events (Element n as cs))), s')"
    "ended s' n names u"
proof -
  have n: "xml_name n" "\<forall>a \<in> set as. xml_name (fst a)" "separated cs" using ok by auto
  let ?body = "concat (map xml_print cs)" and ?close = "CHR ''/'' # n @ CHR ''>'' # u"
  let ?start = "[Start_element n (dict_of as)]"
  have inside: "\<exists>s2. read_events (length (?start @ concat (map tree_events cs))) s =
        (Inr (map Some (?start @ concat (map tree_events cs))), s2) \<and> before s2 (n # names) (CHR ''<'' # ?close)"
    if ne: "cs \<noteq> []"
  proof -
    obtain s1 where 1: "read_events 1 s = (Inr [Some (Start_element n (dict_of as))], s1)"
      "placed s1 (n # names) (?body @ CHR ''<'' # ?close)" "xp_token s1 = START_TAG" "\<not> xp_is_empty s1"
      by (rule start_event [of s names n as False "?body @ CHR ''<'' # ?close"]) (use s n ne in auto)
    have "before s1 (n # names) (?body @ CHR ''<'' # ?close)"
      by (rule before_next [OF 1(2)]) (use 1(3,4) in auto)
    then have "reads_tree s (n # names) ?start (?body @ CHR ''<'' # ?close)" by (rule reads_tree_one [OF 1(1)])
    then have "reads_tree s (n # names) (?start @ concat (map tree_events cs)) (CHR ''<'' # ?close)"
      by (rule reads_tree_append) (rule forest_events [OF IH n(3)])
    then show ?thesis by (simp only: reads_tree_def)
  qed
  show thesis
  proof (cases "cs = []")
    case True
    obtain s1 where 1: "read_events 1 s = (Inr [Some (Start_element n (dict_of as))], s1)" "placed s1 (n # names) u"
      "xp_token s1 = START_TAG" "xp_is_empty s1" "xp_local_name s1 = n"
      by (rule start_event [of s names n as True u]) (use s n True in auto)
    obtain s2 where 2: "read_events 1 s1 = (Inr [Some (End_element n)], s2)" "ended s2 n names u"
      by (rule empty_end_event [OF 1(2-5)])
    show thesis
      by (rule that [OF _ 2(2)])
        (use read_events_append [OF 1(1) 2(1)] True in \<open>simp add: numeral_2_eq_2 del: read_events.simps\<close>)
  next
    case False
    obtain s2 where 2: "read_events (length (?start @ concat (map tree_events cs))) s =
        (Inr (map Some (?start @ concat (map tree_events cs))), s2)" "before s2 (n # names) (CHR ''<'' # ?close)"
      using inside [OF False] by blast
    obtain s3 where 3: "read_events 1 s2 = (Inr [Some (End_element n)], s3)" "ended s3 n names u"
      by (rule end_event [of s2 n names u]) (use 2(2) n in auto)
    show thesis
      by (rule that [OF _ 3(2)]) (use read_events_append [OF 2(1) 3(1)] in \<open>simp del: read_events.simps\<close>)
  qed
qed

lemma tree_read:
  "xml_ok t \<Longrightarrow> (is_text t \<Longrightarrow> \<exists>v. u = CHR ''<'' # v) \<Longrightarrow> before s names (xml_print t @ u) \<Longrightarrow>
     reads_tree s names (tree_events t) u"
proof (induction t arbitrary: s names u)
  case (Text t)
  then obtain v where u: "u = CHR ''<'' # v" by auto
  obtain s' where "read_events 1 s = (Inr [Some (Characters t (xml_white t))], s')" "before s' names (CHR ''<'' # v)"
    by (rule text_event [of s names t v]) (use Text u in auto)
  then show ?case using u by (simp add: reads_tree_one del: read_events.simps)
next
  case (Element n as cs)
  have IH: "reads_tree s' (n # names) (tree_events c) v"
    if "c \<in> set cs" "is_text c \<Longrightarrow> \<exists>w. v = CHR ''<'' # w" "before s' (n # names) (xml_print c @ v)" for c s' v
    using Element.IH [OF that(1) _ that(2,3)] Element.prems(1) that(1) by simp
  show ?case
    by (rule element_read [OF Element.prems(1) IH Element.prems(3)]) (auto simp only: reads_tree_def intro: ended_before)
qed

text \<open>The root: after its events the parser has read its end.\<close>

lemma root_read:
  assumes "xml_ok (Element n as cs)" "before s [] (xml_print (Element n as cs) @ u)"
  obtains s' where "read_events (length (tree_events (Element n as cs))) s = (Inr (map Some (tree_events (Element n as cs))), s')"
    "ended s' n [] u"
  using assms(1)
  by (rule element_read [OF _ tree_read assms(2)]) (use assms(1) in auto)

section \<open>The end of the input\<close>

text \<open>The end of the stream is delivered as the byte 255; only the next call returns false.\<close>

definition at_eof :: "cursor \<Rightarrow> bool" where
  "at_eof cu \<longleftrightarrow> xs_state (cu_strm cu) \<noteq> XGood"

lemma cu_next_eof: "at_eof cu \<Longrightarrow> cu_next cu = (None, cu)"
  by (simp add: at_eof_def cu_next_def)

lemma cu_next_last:
  assumes "cu_at b cu []"
  shows "\<exists>cu'. cu_next cu = (Some EOF_CHAR, cu') \<and> at_eof cu' \<and> cu_ahead cu' = []"
proof -
  have "cu_ahead cu = []" "xs_rest (cu_strm cu) = []" "xs_state (cu_strm cu) = XGood"
    using assms by (auto simp: cu_at_def)
  then show ?thesis
    by (simp add: cu_next_def cu_read_def cu_get_def xs_get_def uchar_def schar_def at_eof_def EOF_CHAR_def Let_def)
qed

text \<open>Text that runs to the end of the input.\<close>

definition plain_tail :: "string \<Rightarrow> bool" where
  "plain_tail t \<longleftrightarrow> CHR ''<'' \<notin> set t \<and> CHR ''&'' \<notin> set t"

lemma characters_loop_eof:
  "plain_tail t \<Longrightarrow> CR \<notin> set t \<Longrightarrow> cu_at 8 cu t \<Longrightarrow>
     \<exists>cu'. characters_loop (cu, x, ws) = (Inr (), cu', x @ t @ [EOF_CHAR], False) \<and> at_eof cu'"
proof (induction t arbitrary: cu x ws)
  case Nil
  then obtain cu1 where n: "cu_next cu = (Some EOF_CHAR, cu1)" "at_eof cu1" using cu_next_last by blast
  then show ?case
    by (simp add: characters_loop.simps [of cu] characters_loop.simps [of cu1] cu_next_eof char_eq_byte [of EOF_CHAR])
next
  case (Cons c t)
  obtain cu1 where n: "cu_next cu = (Some c, cu1)" "cu_at 8 cu1 t"
    using cu_next_reads Cons.prems(3) by blast
  have c: "c \<noteq> CR" "c \<noteq> CHR ''<''" "c \<noteq> CHR ''&''" "plain_tail t" "CR \<notin> set t"
    using Cons.prems(1,2) by (auto simp: plain_tail_def)
  show ?case
    using Cons.IH [OF c(4,5) n(2), of "x @ [c]" "ws \<and> (c = CHR '' '' \<or> c = LF)"] c(1-3) n(1)
    by (simp add: characters_loop.simps [of cu])
qed

lemma next_event_end:
  assumes "at_eof (xp_cursor s)" "xp_token s \<noteq> START_DOCUMENT" "\<not> (xp_token s = START_TAG \<and> xp_is_empty s)"
  shows "\<exists>s'. next_event s = (Inr (Some END_DOCUMENT), s')"
proof -
  have "nextToken s = (Inr END_DOCUMENT, s\<lparr>xp_token := END_DOCUMENT\<rparr>)"
    using nextToken_plain [OF assms(2,3)] cu_next_eof [OF assms(1)] by (simp add: nextToken_read_def)
  then show ?thesis
    by (simp add: next_event_def token_loop.simps [of s] skipped_tokens_def io_bind_Inr event_of_def)
qed

text \<open>After the end of the root: without more text its event is reported once more, with text there is one
  event of text.\<close>

lemma root_ended:
  assumes "ended s n [] t" "plain_tail t" "CR \<notin> set t"
  obtains s1 s2 ev where "next_event s = (Inr ev, s1)"
    "observe ev s1 = Some (if t = [] then End_element n else Characters (t @ [EOF_CHAR]) False)"
    "next_event s1 = (Inr (Some END_DOCUMENT), s2)"
proof -
  have s: "cu_at 8 (xp_cursor s) t" "xp_token s = END_TAG" "xp_local_name s = n"
    using assms(1) by (simp_all add: ended_def placed_def)
  have read: "nextToken s = nextToken_read s" using s(2) by (simp add: nextToken_plain)
  show thesis
  proof (cases t)
    case Nil
    then obtain cu1 where 1: "cu_next (xp_cursor s) = (Some EOF_CHAR, cu1)" "at_eof cu1" "cu_ahead cu1 = []"
      using cu_next_last s(1) by blast
    obtain cu2 where 2: "cu_putback EOF_CHAR cu1 = (Inr (), cu2)" "at_eof cu2"
      using 1(2,3) by (auto simp: cu_putback_def max_read_ahead_def at_eof_def Let_def)
    define s1 where "s1 = s\<lparr>xp_cursor := cu2, xp_text := [], xp_is_whitespace := True, xp_event := Some END_TAG\<rparr>"
    have "next_event s = (Inr (Some END_TAG), s1)"
      using next_event_token [of s] read 1(1) 2 s(2)
      by (simp add: nextToken_read_def text_token_def io_bind_assoc io_bind_def on_cursor_def parseCharacters_def
          characters_loop.simps [of cu2] cu_next_eof char_eq_byte [of EOF_CHAR] s1_def)
    moreover obtain s2 where "next_event s1 = (Inr (Some END_DOCUMENT), s2)"
      using next_event_end [of s1] 2(2) s(2) by (auto simp: s1_def)
    ultimately show thesis using that s(3) Nil by (fastforce simp: observe_def s1_def)
  next
    case (Cons c u)
    then have c: "c \<noteq> CHR ''<''" using assms(2) by (auto simp: plain_tail_def)
    obtain cu1 where 1: "cu_next (xp_cursor s) = (Some c, cu1)" "cu_at 7 cu1 u"
      using cu_next_reads [of "xp_cursor s" c u] s(1) Cons by auto
    obtain cu2 where 2: "cu_putback c cu1 = (Inr (), cu2)" "cu_at 8 cu2 t"
      using cu_putback_at [OF 1(2), of c] Cons by auto
    obtain cu3 where 3: "characters_loop (cu2, [], True) = (Inr (), cu3, t @ [EOF_CHAR], False)" "at_eof cu3"
      using characters_loop_eof [OF assms(2,3) 2(2), of "[]" True] by auto
    define s1 where "s1 = s\<lparr>xp_cursor := cu3, xp_text := t @ [EOF_CHAR], xp_is_whitespace := False, xp_token := TEXT,
      xp_event := Some TEXT\<rparr>"
    have "next_event s = (Inr (Some TEXT), s1)"
      using next_event_token [of s] read 1(1) 2(1) 3(1) c
      by (simp add: nextToken_read_def text_token_def io_bind_assoc io_bind_def on_cursor_def parseCharacters_def
          set_token_def xp_modify_def s1_def)
    moreover obtain s2 where "next_event s1 = (Inr (Some END_DOCUMENT), s2)"
      using next_event_end [of s1] 3(2) by (auto simp: s1_def)
    ultimately show thesis using that Cons by (fastforce simp: observe_def s1_def)
  qed
qed

section \<open>Documents\<close>

definition xml_declaration :: "(string \<times> string) list option \<Rightarrow> string" where
  "xml_declaration decl = (case decl of None \<Rightarrow> [] | Some as \<Rightarrow> ''<?xml'' @ xml_attributes as @ ''?>'')"

definition declaration_ok :: "(string \<times> string) list option \<Rightarrow> bool" where
  "declaration_ok decl = (case decl of None \<Rightarrow> True
     | Some as \<Rightarrow> as \<noteq> [] \<and> (\<forall>a \<in> set as. xml_name (fst a) \<and> CR \<notin> set (snd a)))"

text \<open>The declaration, white space, and what follows.\<close>

definition xml_document :: "(string \<times> string) list option \<Rightarrow> string \<Rightarrow> string \<Rightarrow> string" where
  "xml_document decl w body = xml_declaration decl @ w @ body"

lemma name_no_CR: "xml_name n \<Longrightarrow> CR \<notin> set n"
proof
  assume "xml_name n" "CR \<in> set n"
  then obtain i where i: "i < length n" "n ! i = CR" by (auto simp: in_set_conv_nth)
  have "is_valid_name_char CR i" using xml_name_nth [OF \<open>xml_name n\<close> i(1)] i(2) by simp
  then show False by (auto simp: is_valid_name_char_def char_class_defs char_eq_byte [of CR] split: if_splits)
qed

lemma escape_no_CR: "CR \<notin> set t \<Longrightarrow> CR \<notin> set (xml_escape t)"
proof (induction t)
  case (Cons c t)
  then show ?case by (auto simp: xml_escape_Cons xml_escape_char_def char_eq_byte [of CR])
qed (simp add: xml_escape_def)

lemma attributes_no_CR:
  "\<forall>a \<in> set as. xml_name (fst a) \<and> CR \<notin> set (snd a) \<Longrightarrow> CR \<notin> set (xml_attributes as)"
proof (induction as)
  case (Cons a as)
  then show ?case
    using name_no_CR [of "fst a"] escape_no_CR [of "snd a"]
    by (simp add: xml_attributes_def xml_attribute_def char_eq_byte [of CR])
qed (simp add: xml_attributes_def)

lemma print_no_CR: "xml_ok t \<Longrightarrow> CR \<notin> set (xml_print t)"
proof (induction t)
  case (Element n as cs)
  then have "CR \<notin> set n" "CR \<notin> set (xml_attributes as)" "\<forall>c \<in> set cs. CR \<notin> set (xml_print c)"
    using name_no_CR attributes_no_CR by auto
  then show ?case by (auto simp: char_eq_byte [of CR])
qed (simp add: escape_no_CR)

lemma new_parser_at:
  "CR \<notin> set doc \<Longrightarrow> placed ((XmlPullParser (xstream_of doc) False)\<lparr>xp_event := ev\<rparr>) [] doc"
  by (simp add: placed_def XmlPullParser_def new_cursor_def xstream_of_def cu_at_def)

text \<open>The prolog, without a declaration and with one.\<close>

lemma element_head:
  assumes "xml_ok t" "\<not> is_text t"
  obtains c u where "xml_print t = CHR ''<'' # c # u" "byte c < 128" "c \<noteq> CHR ''?''"
proof -
  obtain n as cs where t: "t = Element n as cs" using assms(2) by (cases t) auto
  then have "xml_name n" using assms(1) by simp
  then show thesis
    using that t by (auto elim!: name_head)
qed

lemma bom_absent: "byte c < 128 \<Longrightarrow> reads parseBOM (c # u) False (c # u)"
proof -
  assume c: "byte c < 128"
  then have "c \<noteq> char_of (239 :: nat)" by (auto simp: char_eq_byte [of c])
  then show ?thesis
    using cu_expect_other [of c "char_of (239 :: nat)" "[]" "map char_of [187 :: nat, 191]" u] c
    by (simp add: parseBOM_def)
qed

lemma white_before_markup: "\<forall>x \<in> set w. xml_space x \<Longrightarrow> reads skipWhite (w @ CHR ''<'' # u) () (CHR ''<'' # u)"
  by (rule skipWhite_reads) (simp_all add: char_facts)

lemma xml_declaration_read:
  assumes "declaration_ok (Some as)" "cu_at 8 (xp_cursor s) (xml_declaration (Some as) @ u)"
  obtains cu where "parseXmlDecl s = (Inr True, s\<lparr>xp_cursor := cu, xp_attributes := []\<rparr>)" "cu_at 8 cu u"
proof -
  have as: "\<forall>a \<in> set as. xml_name (fst a)" "as \<noteq> []" using assms(1) by (simp_all add: declaration_ok_def)
  obtain cu1 where 1: "cu_expect ''<?xml'' (xp_cursor s) = (Inr True, cu1)" "cu_at 8 cu1 (xml_attributes as @ CHR ''?'' # CHR ''>'' # u)"
    using readsE [OF cu_expect_found [of "''<?xml''"]] assms(2) by (fastforce simp: xml_declaration_def)
  obtain cu2 cu3 b where 2: "skipWhite cu1 = (Inr (), cu2)" "attribute_list_loop (cu2, []) = (Inr b, cu3, dict_of as)"
    "b \<longleftrightarrow> as \<noteq> []" "cu_at 8 cu3 (CHR ''?'' # CHR ''>'' # u)"
    by (rule tag_attributes_read [OF as(1) _ 1(2)]) (auto simp: tag_end_def)
  have w: "reads skipWhite (CHR ''?'' # CHR ''>'' # u) () (''?>'' @ u)"
    using skipWhite_reads [of "[]" "CHR ''?''" "CHR ''>'' # u"] by (simp add: xml_space_byte)
  obtain cu4 where 3: "skipWhite cu3 = (Inr (), cu4)" "cu_at 8 cu4 (''?>'' @ u)"
    using readsE [OF w 2(4)] by blast
  obtain cu5 where 4: "cu_expect ''?>'' cu4 = (Inr True, cu5)" "cu_at 8 cu5 u"
    using readsE [OF cu_expect_found [of "''?>''"] 3(2)] by auto
  have "parseXmlDecl s = (Inr True, s\<lparr>xp_cursor := cu5, xp_attributes := []\<rparr>)"
    using 1 2 3 4 as(2) by (simp add: parseXmlDecl_def io_bind_def on_cursor_def parseAttributeList_def)
  then show thesis using that 4(2) by blast
qed

lemma xml_declaration_absent:
  assumes "cu_at 8 (xp_cursor s) (CHR ''<'' # c # u)" "byte c < 128" "c \<noteq> CHR ''?''"
  obtains cu where "parseXmlDecl s = (Inr False, s\<lparr>xp_cursor := cu\<rparr>)" "cu_at 8 cu (CHR ''<'' # c # u)"
proof -
  have x: "reads (cu_expect ''<?xml'') (CHR ''<'' # c # u) False (CHR ''<'' # c # u)"
    using cu_expect_other [of c "CHR ''?''" "''<''" "''xml''" u] assms(2,3) by simp
  obtain cu where "cu_expect ''<?xml'' (xp_cursor s) = (Inr False, cu)" "cu_at 8 cu (CHR ''<'' # c # u)"
    using readsE [OF x assms(1)] by blast
  then show thesis using that by (simp add: parseXmlDecl_def io_bind_def on_cursor_def)
qed

lemma prolog_read:
  assumes "declaration_ok decl" "\<forall>x \<in> set w. xml_space x" "byte c < 128" "c \<noteq> CHR ''?''"
    and s: "placed s [] (xml_document decl w (CHR ''<'' # c # u))" "xp_attributes s = []"
  obtains cu where "prolog s = (Inr (), s\<lparr>xp_cursor := cu\<rparr>)" "cu_at 8 cu (CHR ''<'' # c # u)"
proof -
  let ?doc = "xml_document decl w (CHR ''<'' # c # u)"
  have at: "cu_at 8 (xp_cursor s) ?doc" using s(1) by (simp add: placed_def)
  obtain x v where x: "?doc = x # v" "byte x < 128"
    using assms(2)
    by (cases decl; cases w) (auto simp: xml_document_def xml_declaration_def xml_space_byte)
  obtain cu1 where 1: "parseBOM (xp_cursor s) = (Inr False, cu1)" "cu_at 8 cu1 (?doc)"
    using readsE [OF bom_absent [OF x(2), of v]] at x(1) by auto
  show thesis
  proof (cases decl)
    case None
    have doc: "?doc = w @ CHR ''<'' # c # u"
      using None by (simp add: xml_document_def xml_declaration_def)
    obtain cu2 where 2: "skipWhite cu1 = (Inr (), cu2)" "cu_at 8 cu2 (CHR ''<'' # c # u)"
      using readsE [OF white_before_markup [OF assms(2)]] 1(2) doc by metis
    obtain cu3 where 3: "parseXmlDecl (s\<lparr>xp_cursor := cu2\<rparr>) = (Inr False, s\<lparr>xp_cursor := cu3\<rparr>)" "cu_at 8 cu3 (CHR ''<'' # c # u)"
      using xml_declaration_absent [of "s\<lparr>xp_cursor := cu2\<rparr>" c u] 2(2) assms(3,4) by auto
    obtain cu4 where 4: "skipWhite cu3 = (Inr (), cu4)" "cu_at 8 cu4 (CHR ''<'' # c # u)"
      using readsE [OF white_before_markup [of "[]"]] 3(2) by auto
    show thesis
      using that [of cu4] 1 2 3 4 by (simp add: prolog_def io_bind_def on_cursor_def)
  next
    case (Some as)
    have d: "?doc = CHR ''<'' # (''?xml'' @ xml_attributes as @ ''?>'' @ w @ CHR ''<'' # c # u)"
      "?doc = xml_declaration (Some as) @ w @ CHR ''<'' # c # u"
      using Some by (simp_all add: xml_document_def xml_declaration_def)
    obtain cu2 where 2: "skipWhite cu1 = (Inr (), cu2)" "cu_at 8 cu2 (?doc)"
      using readsE [OF white_before_markup [of "[]"]] 1(2) d(1) by (metis append_Nil empty_iff empty_set)
    have at2: "cu_at 8 (xp_cursor (s\<lparr>xp_cursor := cu2\<rparr>)) (xml_declaration (Some as) @ w @ CHR ''<'' # c # u)"
      using 2(2) d(2) by simp
    have same: "s\<lparr>xp_cursor := k, xp_attributes := []\<rparr> = s\<lparr>xp_cursor := k\<rparr>" for k
      using s(2) by (cases s) simp
    obtain cu3 where 3: "parseXmlDecl (s\<lparr>xp_cursor := cu2\<rparr>) = (Inr True, s\<lparr>xp_cursor := cu3\<rparr>)" "cu_at 8 cu3 (w @ CHR ''<'' # c # u)"
    proof (rule xml_declaration_read [OF _ at2])
      show "declaration_ok (Some as)" using assms(1) Some by simp
    qed (simp add: same)
    obtain cu4 where 4: "skipWhite cu3 = (Inr (), cu4)" "cu_at 8 cu4 (CHR ''<'' # c # u)"
      using readsE [OF white_before_markup [OF assms(2)] 3(2)] by blast
    show thesis
      using that [of cu4] 1 2 3 4 by (simp add: prolog_def io_bind_def on_cursor_def)
  qed
qed

lemma declaration_no_CR: "declaration_ok decl \<Longrightarrow> CR \<notin> set (xml_declaration decl)"
  using attributes_no_CR
  by (auto simp: xml_declaration_def declaration_ok_def char_eq_byte [of CR] split: option.splits)

text \<open>A parser that has read nothing comes to the first markup after the prolog.\<close>

lemma first_markup:
  assumes "declaration_ok decl" "\<forall>x \<in> set w. xml_space x" "byte c < 128" "c \<noteq> CHR ''?''"
    and s: "placed s [] (xml_document decl w (CHR ''<'' # c # u))" "xp_token s = START_DOCUMENT" "\<not> xp_is_empty s"
      "xp_attributes s = []"
  shows "before s [] (CHR ''<'' # c # u)"
proof -
  obtain cu where p: "prolog s = (Inr (), s\<lparr>xp_cursor := cu\<rparr>)" "cu_at 8 cu (CHR ''<'' # c # u)"
    by (rule prolog_read [OF assms(1-4) s(1,4)])
  have "nextToken s = nextToken_read (s\<lparr>xp_cursor := cu\<rparr>)"
    by (rule nextToken_start(1) [OF s(2) p(1)]) (simp add: s)
  then show ?thesis using s(1) p(2) by (auto simp: before_def placed_def)
qed

lemma new_parser_before:
  assumes "declaration_ok decl" "\<forall>x \<in> set w. xml_space x \<and> x \<noteq> CR" "byte c < 128" "c \<noteq> CHR ''?''" "CR \<notin> set (c # u)"
  shows "before ((XmlPullParser (xstream_of (xml_document decl w (CHR ''<'' # c # u))) False)\<lparr>xp_event := ev\<rparr>) []
     (CHR ''<'' # c # u)"
proof -
  have "CR \<notin> set (xml_document decl w (CHR ''<'' # c # u))"
    using assms declaration_no_CR [of decl] by (auto simp: xml_document_def char_eq_byte [of CR])
  then have "placed ((XmlPullParser (xstream_of (xml_document decl w (CHR ''<'' # c # u))) False)\<lparr>xp_event := ev\<rparr>) []
      (xml_document decl w (CHR ''<'' # c # u))"
    by (rule new_parser_at)
  then show ?thesis
    by (intro first_markup [of decl w]) (use assms in \<open>simp_all add: XmlPullParser_def\<close>)
qed

lemma no_event: "(XmlPullParser strm ns)\<lparr>xp_event := None\<rparr> = XmlPullParser strm ns"
  by (simp add: XmlPullParser_def)

lemmas fresh_parser_before = new_parser_before [where ev = None, unfolded no_event]

lemma markup_throws:
  assumes "before s names (CHR ''<'' # c # u)" "c = CHR ''!'' \<or> c = CHR ''?''"
  shows "\<exists>line col. fst (next_event s) = Inl (Runtime_error (make_message ''Error parsing start element name'' line col))"
proof -
  obtain s1 where s1: "nextToken s = io_bind markup_token (\<lambda>u s. (Inr (xp_token s), s)) s1" "placed s1 names (c # u)"
    by (rule markup_token_at [OF assms(1)])
  then have at: "cu_at 8 (xp_cursor s1) (c # u)" by (simp add: placed_def)
  have c: "byte c < 128" "\<not> xml_space c" "\<not> is_valid_name_char c 0" "schar c \<noteq> 47" "0 \<le> schar c"
    using assms(2) by (auto simp: xml_space_byte is_valid_name_char_def char_class_defs schar_def)
  have w: "reads skipWhite (c # u) () (c # u)" using skipWhite_reads [of "[]" c u] c by simp
  obtain cu1 where 1: "skipWhite (xp_cursor s1) = (Inr (), cu1)" "cu_at 8 cu1 (c # u)" using readsE [OF w at] by blast
  obtain cu2 where 2: "parseName cu1 = (Inr [], cu2)" using readsE [OF parseName_no_name [OF c(3)] 1(2)] by blast
  have "fst (start_element_head s1) =
      Inl (Runtime_error (make_message ''Error parsing start element name'' (cu_line cu2) (cu_column cu2)))"
    using 1(1) 2
    by (simp add: start_element_head_def parse_name_member_def io_bind_def on_cursor_def xp_modify_def fatal_def)
  then have "fst (nextToken s) =
      Inl (Runtime_error (make_message ''Error parsing start element name'' (cu_line cu2) (cu_column cu2)))"
    using s1(1) c cu_peek_at [OF at]
    by (cases "start_element_head s1")
      (simp add: markup_token_def parseStartElement_def io_bind_def on_cursor_def cursor_peek_def)
  then show ?thesis
    by (cases "nextToken s") (auto simp: next_event_def token_loop.simps [of s] io_bind_def)
qed

text \<open>C18: The events read back from the print of an element tree, after an optional XML declaration and white
  space and with anything after it, are those of the tree: a start tag with the name and the attributes (the
  first of a name counts) and an end tag for every element, an empty tag included, and the text between
  them with the references in it expanded.\<close>

theorem xml_events_recovered:
  assumes "xml_ok root" "\<not> is_text root" "declaration_ok decl" "\<forall>x \<in> set w. xml_space x \<and> x \<noteq> CR" "CR \<notin> set rest"
  shows "fst (read_events (length (tree_events root))
      (XmlPullParser (xstream_of (xml_document decl w (xml_print root @ rest))) False)) = Inr (map Some (tree_events root))"
proof -
  obtain c u where root: "xml_print root = CHR ''<'' # c # u" "byte c < 128" "c \<noteq> CHR ''?''"
    by (rule element_head [OF assms(1,2)])
  have "CR \<notin> set (c # u @ rest)" using print_no_CR [OF assms(1)] root(1) assms(5) by simp
  then have "before (XmlPullParser (xstream_of (xml_document decl w (xml_print root @ rest))) False) [] (xml_print root @ rest)"
    using fresh_parser_before [OF assms(3,4) root(2,3)] root(1) by simp
  from tree_read [OF assms(1) _ this] assms(2) show ?thesis
    by (auto simp: reads_tree_def simp del: read_events.simps)
qed

definition sample_gpx :: xml_tree where
  "sample_gpx = Element ''gpx'' [(''creator'', ''a<b'')] [Element ''wpt'' [(''lat'', ''1.5''), (''lon'', ''2'')] [],
     Text ''x & y'', Element ''trk'' [] [Element ''name'' [] [Text ''t'']]]"

theorem xml_events_recovered_witness:
  "fst (read_events 10
      (XmlPullParser (xstream_of (xml_document (Some [(''version'', ''1.0'')]) [LF] (xml_print sample_gpx @ [LF]))) False)) =
     Inr (map Some (tree_events sample_gpx))"
proof -
  have "length (tree_events sample_gpx) = 10" "\<not> is_text sample_gpx" "xml_ok sample_gpx"
    by (simp_all add: sample_gpx_def xml_name_def is_valid_name_char_def char_class_defs char_eq_byte [of CR])
  then show ?thesis
    using xml_events_recovered [of sample_gpx "Some [(''version'', ''1.0'')]" "[LF]" "[LF]"]
    by (simp add: declaration_ok_def xml_name_def is_valid_name_char_def char_class_defs char_eq_byte [of CR] char_eq_byte [of LF] xml_space_def
        del: read_events.simps)
qed

text \<open>C40: A comment, a document type declaration or a CDATA section as the first markup after an optional XML
  declaration is an error: a start tag is tried first, and it throws for want of a name.\<close>

theorem xml_markup_rejected:
  assumes "declaration_ok decl" "\<forall>x \<in> set w. xml_space x \<and> x \<noteq> CR" "CR \<notin> set u"
  shows "\<exists>line col. fst (next_event (XmlPullParser (xstream_of (xml_document decl w (''<!'' @ u))) False)) =
     Inl (Runtime_error (make_message ''Error parsing start element name'' line col))"
  using markup_throws [OF fresh_parser_before [OF assms(1,2), of "CHR ''!''" u]] assms(3)
  by (simp add: char_eq_byte [of CR])

theorem xml_markup_rejected_witness:
  "\<exists>line col. fst (next_event (XmlPullParser (xstream_of (xml_document None [LF] (''<!'' @ ''-- a --><gpx/>''))) False)) =
     Inl (Runtime_error (make_message ''Error parsing start element name'' line col))"
  using xml_markup_rejected [of None "[LF]" "''-- a --><gpx/>''"]
  by (simp add: declaration_ok_def xml_space_def char_eq_byte [of LF] char_eq_byte [of CR])

end
