(* ===== verification/Gpx.thy ===== *)
theory Gpx
  imports XmlEvents LocaleResolver
begin

text \<open>
  \<^verbatim>\<open>app/util/gpx.hpp\<close>: the reader of GPX files of the example application, over the events of the pull parser.
  Numbers are the exact decimals \<^verbatim>\<open>std::stod\<close> reads, as in the locale middleware.  \<^verbatim>\<open>std::get_time\<close>,
  \<^verbatim>\<open>mktime\<close> and \<^verbatim>\<open>gmtime\<close>, which depend on the time zone of the process, are parameters.
\<close>

section \<open>Data\<close>

record track_point =
  tp_lat :: rat
  tp_lon :: rat
  tp_time :: "int option"
  tp_ele :: "rat option"

record way_point =
  wp_lat :: rat
  wp_lon :: rat
  wp_time :: "int option"
  wp_ele :: "rat option"
  wp_name :: string
  wp_desc :: string

type_synonym track_segment = "track_point list"

record track =
  tr_name :: string
  tr_segments :: "track_segment list"

record gpx =
  gx_creator :: string
  gx_waypoints :: "way_point list"
  gx_tracks :: "track list"

definition new_track_point :: track_point where
  "new_track_point = \<lparr>tp_lat = 0, tp_lon = 0, tp_time = None, tp_ele = None\<rparr>"

definition new_way_point :: way_point where
  "new_way_point = \<lparr>wp_lat = 0, wp_lon = 0, wp_time = None, wp_ele = None, wp_name = [], wp_desc = []\<rparr>"

definition new_track :: track where
  "new_track = \<lparr>tr_name = [], tr_segments = []\<rparr>"

definition new_gpx :: gpx where
  "new_gpx = \<lparr>gx_creator = [], gx_waypoints = [], gx_tracks = []\<rparr>"

text \<open>The locals of \<^verbatim>\<open>parse\<close> with the object it fills.\<close>

record gpx_state =
  gs_gpx :: gpx
  gs_track :: track
  gs_pt :: track_point
  gs_wpt :: way_point
  gs_seg :: track_segment
  gs_element :: string
  gs_in_track :: bool
  gs_in_waypoint :: bool
  gs_in_trkpoint :: bool
  gs_in_trkseg :: bool

definition gpx_start_state :: "gpx \<Rightarrow> gpx_state" where
  "gpx_start_state g =
     \<lparr>gs_gpx = g, gs_track = new_track, gs_pt = new_track_point, gs_wpt = new_way_point, gs_seg = [], gs_element = [],
      gs_in_track = False, gs_in_waypoint = False, gs_in_trkpoint = False, gs_in_trkseg = False\<rparr>"

section \<open>Times\<close>

text \<open>\<^verbatim>\<open>get_time\<close> is what the format extracts, \<^const>\<open>None\<close> when it fails.  The fraction of a second only moves
  the stream.\<close>

record 't time_lib =
  tl_get_time :: "string \<Rightarrow> 't option"
  tl_mktime :: "'t \<Rightarrow> int"
  tl_gmtime :: "int \<Rightarrow> 't option"

definition parse_date_time :: "'t time_lib \<Rightarrow> string \<Rightarrow> int" where
  "parse_date_time L src =
     (case tl_get_time L src of
        None \<Rightarrow> 0
      | Some tm \<Rightarrow>
          (let localTime = tl_mktime L tm
           in if localTime = - 1 then 0
              else
                (case tl_gmtime L localTime of
                   None \<Rightarrow> 0
                 | Some gm \<Rightarrow> (let offset = localTime - tl_mktime L gm in localTime + offset))))"

text \<open>In a zone with a constant offset the result is the time the text names in UTC.\<close>

lemma parse_date_time_utc:
  assumes "\<And>tm. tl_mktime L tm = utc tm - off" "\<And>t. \<exists>gm. tl_gmtime L t = Some gm \<and> utc gm = t"
    and "tl_get_time L src = Some tm" "utc tm - off \<noteq> - 1"
  shows "parse_date_time L src = utc tm"
proof -
  obtain gm where "tl_gmtime L (utc tm - off) = Some gm" "utc gm = utc tm - off" using assms(2) by blast
  then show ?thesis using assms by (simp add: parse_date_time_def Let_def)
qed

section \<open>Events\<close>

text \<open>\<^verbatim>\<open>std::stod\<close>: \<^verbatim>\<open>invalid_argument\<close> when no number is there, \<^verbatim>\<open>out_of_range\<close> when it does not fit a
  \<^verbatim>\<open>double\<close>.  Neither is caught by \<^verbatim>\<open>parse\<close>.\<close>

definition number_there :: "string \<Rightarrow> bool" where
  "number_there s =
     (let (sg, t) = strip_sign (dropWhile isspace s)
      in case t of
           [] \<Rightarrow> False
         | c # cs \<Rightarrow> isdigit c \<or> (c = CHR ''.'' \<and> cs \<noteq> [] \<and> isdigit (hd cs)))"

definition gpx_number :: "string \<Rightarrow> rat result" where
  "gpx_number s =
     (case stod s of None \<Rightarrow> Inl (if number_there s then Out_of_range else Invalid_argument) | Some v \<Rightarrow> Inr v)"

definition gpx_start :: "string \<Rightarrow> dict \<Rightarrow> gpx_state \<Rightarrow> gpx_state result" where
  "gpx_start name attrs g =
     (let g = g\<lparr>gs_element := name\<rparr>
      in if name = ''gpx'' then
           Inr (g\<lparr>gs_gpx := (gs_gpx g)\<lparr>gx_creator := dict_get attrs ''creator'' []\<rparr>\<rparr>)
         else if name = ''trk'' then Inr (g\<lparr>gs_in_track := True, gs_track := new_track\<rparr>)
         else if name = ''trkseg'' then Inr (g\<lparr>gs_in_trkseg := True, gs_seg := []\<rparr>)
         else if name = ''wpt'' then
           rbind (gpx_number (dict_get attrs ''lat'' [])) (\<lambda>lat. rbind (gpx_number (dict_get attrs ''lon'' [])) (\<lambda>lon.
             Inr (g\<lparr>gs_in_waypoint := True, gs_wpt := new_way_point\<lparr>wp_lat := lat, wp_lon := lon\<rparr>\<rparr>)))
         else if name = ''trkpt'' then
           rbind (gpx_number (dict_get attrs ''lat'' [])) (\<lambda>lat. rbind (gpx_number (dict_get attrs ''lon'' [])) (\<lambda>lon.
             Inr (g\<lparr>gs_in_trkpoint := True, gs_pt := new_track_point\<lparr>tp_lat := lat, tp_lon := lon\<rparr>\<rparr>)))
         else Inr g)"

definition gpx_text :: "'t time_lib \<Rightarrow> string \<Rightarrow> gpx_state \<Rightarrow> gpx_state result" where
  "gpx_text L t g =
     (if gs_element g = ''ele'' then
        (if gs_in_waypoint g then rmap (\<lambda>v. g\<lparr>gs_wpt := (gs_wpt g)\<lparr>wp_ele := Some v\<rparr>\<rparr>) (gpx_number t)
         else if gs_in_trkpoint g then rmap (\<lambda>v. g\<lparr>gs_pt := (gs_pt g)\<lparr>tp_ele := Some v\<rparr>\<rparr>) (gpx_number t)
         else Inr g)
      else if gs_element g = ''time'' then
        (if gs_in_waypoint g then Inr (g\<lparr>gs_wpt := (gs_wpt g)\<lparr>wp_time := Some (parse_date_time L t)\<rparr>\<rparr>)
         else if gs_in_trkpoint g then Inr (g\<lparr>gs_pt := (gs_pt g)\<lparr>tp_time := Some (parse_date_time L t)\<rparr>\<rparr>)
         else Inr g)
      else if gs_element g = ''name'' then
        (if gs_in_waypoint g then Inr (g\<lparr>gs_wpt := (gs_wpt g)\<lparr>wp_name := t\<rparr>\<rparr>)
         else if gs_in_track g then Inr (g\<lparr>gs_track := (gs_track g)\<lparr>tr_name := t\<rparr>\<rparr>)
         else Inr g)
      else Inr g)"

text \<open>The end of a segment leaves the track, not the segment.\<close>

definition gpx_end :: "string \<Rightarrow> gpx_state \<Rightarrow> gpx_state" where
  "gpx_end end_tag g =
     (let g = (if end_tag = ''trkpt'' then g\<lparr>gs_seg := gs_seg g @ [gs_pt g], gs_in_trkpoint := False\<rparr>
               else if end_tag = ''wpt'' then
                 g\<lparr>gs_gpx := (gs_gpx g)\<lparr>gx_waypoints := gx_waypoints (gs_gpx g) @ [gs_wpt g]\<rparr>, gs_in_waypoint := False\<rparr>
               else if end_tag = ''trkseg'' then
                 g\<lparr>gs_track := (gs_track g)\<lparr>tr_segments := tr_segments (gs_track g) @ [gs_seg g]\<rparr>, gs_in_track := False\<rparr>
               else if end_tag = ''trk'' then
                 g\<lparr>gs_gpx := (gs_gpx g)\<lparr>gx_tracks := gx_tracks (gs_gpx g) @ [gs_track g]\<rparr>, gs_in_track := False\<rparr>
               else g)
      in g\<lparr>gs_element := []\<rparr>)"

text \<open>The switch over the type of the event, on what the reader says of it.\<close>

definition gpx_event :: "'t time_lib \<Rightarrow> xml_event option \<Rightarrow> gpx_state \<Rightarrow> gpx_state result" where
  "gpx_event L ev g =
     (case ev of
        Some (Start_element name attrs) \<Rightarrow> gpx_start name attrs g
      | Some (Characters t ws) \<Rightarrow> gpx_text L t g
      | Some (End_element name) \<Rightarrow> Inr (gpx_end name g)
      | None \<Rightarrow> Inr g)"

section \<open>The reader\<close>

text \<open>The loop: how it ends, with the object it has filled so far.  An event type that is not one the switch
  handles, as the indeterminate one, is \<^const>\<open>None\<close>.\<close>

partial_function (option) gpx_loop ::
  "'t time_lib \<Rightarrow> token_type option \<Rightarrow> xml_parser \<Rightarrow> gpx_state \<Rightarrow> (unit result \<times> gpx) option" where
  "gpx_loop L ev s g =
     (if ev = Some END_DOCUMENT then Some (Inr (), gs_gpx g)
      else
        (case gpx_event L (observe ev s) g of
           Inl e \<Rightarrow> Some (Inl e, gs_gpx g)
         | Inr g' \<Rightarrow>
             (case next_event s of
                (Inl e, s') \<Rightarrow> Some (Inl e, gs_gpx g')
              | (Inr ev', s') \<Rightarrow> gpx_loop L ev' s' g')))"

declare gpx_loop.simps [code]

text \<open>\<^verbatim>\<open>parse\<close>: the first event type is read before \<^verbatim>\<open>next\<close> has set it; \<^verbatim>\<open>ev0\<close> is the value found there.  An
  exception of the parser makes the result false, others pass.\<close>

definition gpx_parse :: "'t time_lib \<Rightarrow> token_type option \<Rightarrow> xstream \<Rightarrow> gpx \<Rightarrow> (bool result \<times> gpx) option" where
  "gpx_parse L ev0 strm g =
     (case gpx_loop L ev0 ((XmlPullParser strm False)\<lparr>xp_event := ev0\<rparr>) (gpx_start_state g) of
        None \<Rightarrow> None
      | Some (Inr u, g') \<Rightarrow> Some (Inr True, g')
      | Some (Inl (Runtime_error e), g') \<Rightarrow> Some (Inr False, g')
      | Some (Inl e, g') \<Rightarrow> Some (Inl e, g'))"

section \<open>The loop returns\<close>

lemma gpx_number_defined: "gpx_number t \<noteq> Inl Undefined"
  by (simp add: gpx_number_def split: option.split)

lemma gpx_event_defined: "gpx_event L ev g \<noteq> Inl Undefined"
proof -
  have n: "rbind (gpx_number a) k \<noteq> Inl Undefined" if "\<And>v. k v \<noteq> Inl Undefined" for a and k :: "rat \<Rightarrow> gpx_state result"
    using that gpx_number_defined [of a] by (cases "gpx_number a") auto
  have m: "rmap f (gpx_number a) \<noteq> Inl Undefined" for a and f :: "rat \<Rightarrow> gpx_state"
    using gpx_number_defined [of a] by (cases "gpx_number a") auto
  show ?thesis
    by (auto simp: gpx_event_def gpx_start_def gpx_text_def Let_def n m split: option.split xml_event.split)
qed

lemma gpx_loop_returns:
  "xp_ok s \<Longrightarrow> \<exists>r g'. gpx_loop L ev s g = Some (r, g') \<and> r \<noteq> Inl Undefined"
proof (induction "xp_todo s" arbitrary: s ev g rule: less_induct)
  case less
  obtain r s' where n: "next_event s = (r, s')" by (cases "next_event s")
  note ok = next_event_ok [OF less.prems]
  show ?case
  proof (cases "gpx_event L (observe ev s) g")
    case (Inl e)
    then show ?thesis using gpx_event_defined [of L "observe ev s" g] by (subst gpx_loop.simps) auto
  next
    case (Inr g1)
    show ?thesis
    proof (cases r)
      case (Inl e)
      then have "e \<noteq> Undefined" using ok(1) n by (simp add: token_ok_def)
      then show ?thesis using n \<open>gpx_event L (observe ev s) g = Inr g1\<close> Inl by (subst gpx_loop.simps) simp
    next
      case (Inr ev')
      have "\<exists>q g'. gpx_loop L ev' s' g1 = Some (q, g') \<and> q \<noteq> Inl Undefined"
      proof (cases "ev' = Some END_DOCUMENT")
        case True
        then show ?thesis by (subst gpx_loop.simps) simp
      next
        case False
        then have "xp_todo s' < xp_todo s" using ok(2) n Inr by simp
        moreover have "xp_ok s'" using ok(1) n by (simp add: token_ok_def)
        ultimately show ?thesis using less.hyps by blast
      qed
      then show ?thesis using n \<open>gpx_event L (observe ev s) g = Inr g1\<close> Inr by (subst gpx_loop.simps) auto
    qed
  qed
qed

lemma gpx_parse_returns:
  "\<exists>r g'. gpx_parse L ev0 strm g = Some (r, g') \<and> r \<noteq> Inl Undefined"
proof -
  have "xp_ok ((XmlPullParser strm False)\<lparr>xp_event := ev0\<rparr>)"
    using new_parser_ok [of strm False] by (simp add: xp_ok_def xp_sound_def)
  then obtain r g' where l: "gpx_loop L ev0 ((XmlPullParser strm False)\<lparr>xp_event := ev0\<rparr>) (gpx_start_state g) = Some (r, g')"
    "r \<noteq> Inl Undefined"
    using gpx_loop_returns by blast
  show ?thesis
  proof (cases r)
    case (Inl e)
    then show ?thesis using l by (cases e) (auto simp: gpx_parse_def)
  qed (use l in \<open>simp add: gpx_parse_def\<close>)
qed

section \<open>Reading a list of events\<close>

fun gpx_events :: "'t time_lib \<Rightarrow> xml_event list \<Rightarrow> gpx_state \<Rightarrow> gpx_state result" where
  "gpx_events L [] g = Inr g"
| "gpx_events L (ev # evs) g = rbind (gpx_event L (Some ev) g) (gpx_events L evs)"

lemma gpx_events_append: "gpx_events L (a @ b) g = rbind (gpx_events L a g) (gpx_events L b)"
proof (induction a arbitrary: g)
  case (Cons e a)
  then show ?case by (cases "gpx_event L (Some e) g") auto
qed simp

text \<open>The loop from the next event on.\<close>

definition gpx_next :: "'t time_lib \<Rightarrow> xml_parser \<Rightarrow> gpx_state \<Rightarrow> (unit result \<times> gpx) option" where
  "gpx_next L s g =
     (case next_event s of
        (Inl e, s') \<Rightarrow> Some (Inl e, gs_gpx g)
      | (Inr ev, s') \<Rightarrow> gpx_loop L ev s' g)"

lemma gpx_next_step:
  assumes "next_event s = (Inr ev, s')" "observe ev s' = Some e" "gpx_event L (Some e) g = Inr g'"
  shows "gpx_next L s g = gpx_next L s' g'"
proof -
  have "ev \<noteq> Some END_DOCUMENT" using assms(2) by (auto simp: observe_def)
  then show ?thesis
    using assms by (simp add: gpx_next_def) (subst gpx_loop.simps, simp add: gpx_next_def)
qed

lemma gpx_next_events:
  "read_events (length evs) s = (Inr (map Some evs), s') \<Longrightarrow> gpx_events L evs g = Inr g' \<Longrightarrow>
     gpx_next L s g = gpx_next L s' g'"
proof (induction evs arbitrary: s g)
  case (Cons e evs)
  obtain ev s1 where n: "next_event s = (Inr ev, s1)" "observe ev s1 = Some e"
    "read_events (length evs) s1 = (Inr (map Some evs), s')"
    using Cons.prems(1) by (auto elim!: io_bind_cases)
  obtain g1 where g1: "gpx_event L (Some e) g = Inr g1" "gpx_events L evs g1 = Inr g'"
    using Cons.prems(2) by (auto simp: rbind_Inr_iff)
  show ?case using gpx_next_step [OF n(1,2) g1(1)] Cons.IH [OF n(3) g1(2)] by simp
qed simp

section \<open>GPX documents\<close>

text \<open>Elements may be set apart by white space: \<^verbatim>\<open>pad (Some w) cs\<close> has \<^verbatim>\<open>w\<close> around each.\<close>

definition pad :: "string option \<Rightarrow> xml_tree list \<Rightarrow> xml_tree list" where
  "pad w cs = (case w of None \<Rightarrow> cs | Some w \<Rightarrow> concat (map (\<lambda>c. [Text w, c]) cs) @ [Text w])"

definition leaf :: "string \<Rightarrow> string \<Rightarrow> xml_tree" where
  "leaf n t = Element n [] [Text t]"

text \<open>What is to be written: a point is its latitude, longitude and, if known, its elevation and time, as
  texts; a way point has a name besides.\<close>

type_synonym point_text = "string \<times> string \<times> string option \<times> string option"

fun point_children :: "point_text \<Rightarrow> xml_tree list" where
  "point_children (lat, lon, ele, tm) =
     (case ele of None \<Rightarrow> [] | Some e \<Rightarrow> [leaf ''ele'' e]) @ (case tm of None \<Rightarrow> [] | Some t \<Rightarrow> [leaf ''time'' t])"

fun point_position :: "point_text \<Rightarrow> (string \<times> string) list" where
  "point_position (lat, lon, ele, tm) = [(''lat'', lat), (''lon'', lon)]"

definition point_tree :: "string option \<Rightarrow> point_text \<Rightarrow> xml_tree" where
  "point_tree w p = Element ''trkpt'' (point_position p) (pad w (point_children p))"

definition segment_tree :: "string option \<Rightarrow> point_text list \<Rightarrow> xml_tree" where
  "segment_tree w ps = Element ''trkseg'' [] (pad w (map (point_tree w) ps))"

definition track_tree :: "string option \<Rightarrow> string \<times> point_text list list \<Rightarrow> xml_tree" where
  "track_tree w tr = Element ''trk'' [] (pad w (leaf ''name'' (fst tr) # map (segment_tree w) (snd tr)))"

definition waypoint_tree :: "string option \<Rightarrow> string \<times> point_text \<Rightarrow> xml_tree" where
  "waypoint_tree w wp = Element ''wpt'' (point_position (snd wp)) (pad w (leaf ''name'' (fst wp) # point_children (snd wp)))"

definition gpx_tree ::
  "string option \<Rightarrow> string \<Rightarrow> (string \<times> point_text) list \<Rightarrow> (string \<times> point_text list list) list \<Rightarrow> xml_tree" where
  "gpx_tree w creator wps trs =
     Element ''gpx'' [(''creator'', creator)] (pad w (map (waypoint_tree w) wps @ map (track_tree w) trs))"

text \<open>The values the texts name.\<close>

definition number_of :: "string \<Rightarrow> rat" where
  "number_of t = (case stod t of None \<Rightarrow> 0 | Some v \<Rightarrow> v)"

fun track_point_of :: "'t time_lib \<Rightarrow> point_text \<Rightarrow> track_point" where
  "track_point_of L (lat, lon, ele, tm) =
     \<lparr>tp_lat = number_of lat, tp_lon = number_of lon, tp_time = map_option (parse_date_time L) tm, tp_ele = map_option number_of ele\<rparr>"

fun way_point_of :: "'t time_lib \<Rightarrow> string \<times> point_text \<Rightarrow> way_point" where
  "way_point_of L (n, lat, lon, ele, tm) =
     \<lparr>wp_lat = number_of lat, wp_lon = number_of lon, wp_time = map_option (parse_date_time L) tm,
      wp_ele = map_option number_of ele, wp_name = n, wp_desc = []\<rparr>"

definition track_of :: "'t time_lib \<Rightarrow> string \<times> point_text list list \<Rightarrow> track" where
  "track_of L tr = \<lparr>tr_name = fst tr, tr_segments = map (map (track_point_of L)) (snd tr)\<rparr>"

text \<open>Texts that can stand in the document: numbers that are numbers, no empty text, no carriage return.\<close>

definition text_ok :: "string \<Rightarrow> bool" where
  "text_ok t \<longleftrightarrow> t \<noteq> [] \<and> CR \<notin> set t"

fun point_text_ok :: "point_text \<Rightarrow> bool" where
  "point_text_ok (lat, lon, ele, tm) =
     (stod lat \<noteq> None \<and> stod lon \<noteq> None \<and> CR \<notin> set lat \<and> CR \<notin> set lon
      \<and> (case ele of None \<Rightarrow> True | Some e \<Rightarrow> stod e \<noteq> None \<and> text_ok e)
      \<and> (case tm of None \<Rightarrow> True | Some t \<Rightarrow> text_ok t))"

definition track_text_ok :: "string \<times> point_text list list \<Rightarrow> bool" where
  "track_text_ok tr \<longleftrightarrow> text_ok (fst tr) \<and> (\<forall>ps \<in> set (snd tr). \<forall>p \<in> set ps. point_text_ok p)"

section \<open>What the events of a tree do\<close>

lemma gpx_number_ok: "stod t \<noteq> None \<Longrightarrow> gpx_number t = Inr (number_of t)"
  by (auto simp: gpx_number_def number_of_def)

text \<open>White space is text, which has an effect only inside the elements that are leaves here.\<close>

definition text_ignored :: "gpx_state \<Rightarrow> bool" where
  "text_ignored g \<longleftrightarrow> gs_element g \<notin> {''ele'', ''time'', ''name''}"

lemma ignored_text: "text_ignored g \<Longrightarrow> gpx_event L (Some (Characters t ws)) g = Inr g"
  by (auto simp: text_ignored_def gpx_event_def gpx_text_def)

text \<open>The events of an element leave no element current, so that padding changes nothing.\<close>

lemma element_leaves_none:
  assumes "\<not> is_text c" "gpx_events L (tree_events c) g = Inr g'"
  shows "gs_element g' = []"
proof -
  obtain n as cs where c: "c = Element n as cs" using assms(1) by (cases c) auto
  obtain g1 where "gpx_event L (Some (End_element n)) g1 = Inr g'"
    using assms(2) by (auto simp: c gpx_events_append rbind_Inr_iff)
  then show ?thesis by (auto simp: gpx_event_def gpx_end_def Let_def)
qed

lemma pad_irrelevant:
  assumes "\<forall>c \<in> set cs. \<not> is_text c" "text_ignored g"
  shows "gpx_events L (concat (map tree_events (pad w cs))) g = gpx_events L (concat (map tree_events cs)) g"
proof (cases w)
  case (Some x)
  have "gpx_events L (concat (map tree_events (concat (map (\<lambda>c. [Text x, c]) cs) @ [Text x]))) g =
      gpx_events L (concat (map tree_events cs)) g"
    using assms
  proof (induction cs arbitrary: g)
    case Nil
    then show ?case by (simp add: ignored_text)
  next
    case (Cons c cs)
    show ?case
    proof (cases "gpx_events L (tree_events c) g")
      case (Inr g')
      then have "text_ignored g'" using element_leaves_none [of c L g g'] Cons.prems(1) by (simp add: text_ignored_def)
      then show ?thesis using Cons Inr by (simp add: gpx_events_append ignored_text)
    qed (use Cons in \<open>simp add: gpx_events_append ignored_text\<close>)
  qed
  then show ?thesis by (simp add: pad_def Some)
qed (simp add: pad_def)

lemma leaf_events: "tree_events (leaf n t) = [Start_element n [], Characters t (xml_white t), End_element n]"
  by (simp add: leaf_def dict_of_def)

lemma position_attrs [simp]:
  "dict_get (dict_of (point_position (lat, lon, ele, tm))) ''lat'' [] = lat"
  "dict_get (dict_of (point_position (lat, lon, ele, tm))) ''lon'' [] = lon"
  by (simp_all add: dict_of_def dict_get_def)

definition leads :: "'t time_lib \<Rightarrow> xml_event list \<Rightarrow> gpx_state \<Rightarrow> (gpx_state \<Rightarrow> bool) \<Rightarrow> bool" where
  "leads L evs g Q \<longleftrightarrow> (\<exists>g'. gpx_events L evs g = Inr g' \<and> Q g')"

text \<open>Each element of a list adds its value to a part of the state and keeps the rest of it.\<close>

lemma leads_list:
  assumes "\<And>x g v. x \<in> set xs \<Longrightarrow> P v g \<Longrightarrow> leads L (tree_events (T x)) g (P (v @ [f x]))"
  shows "P v g \<Longrightarrow> leads L (concat (map tree_events (map T xs))) g (P (v @ map f xs))"
  using assms
proof (induction xs arbitrary: v g)
  case (Cons x xs)
  obtain g1 where 1: "gpx_events L (tree_events (T x)) g = Inr g1" "P (v @ [f x]) g1"
    using Cons.prems(2) [of x v g] Cons.prems(1) by (auto simp: leads_def)
  have "leads L (concat (map tree_events (map T xs))) g1 (P ((v @ [f x]) @ map f xs))"
    using Cons.IH [OF 1(2)] Cons.prems(2) by simp
  then show ?case using 1(1) by (auto simp: leads_def gpx_events_append)
qed (simp add: leads_def)

lemmas gpx_event_defs = gpx_event_def gpx_start_def gpx_text_def gpx_end_def Let_def

lemma point_leads:
  assumes "point_text_ok p" "\<not> gs_in_waypoint g"
  shows "leads L (tree_events (point_tree w p)) g
     (\<lambda>g'. gs_seg g' = gs_seg g @ [track_point_of L p] \<and> gs_gpx g' = gs_gpx g \<and> gs_track g' = gs_track g
        \<and> gs_in_track g' = gs_in_track g \<and> \<not> gs_in_waypoint g')"
proof -
  obtain lat lon ele tm where p: "p = (lat, lon, ele, tm)" by (cases p)
  let ?g = "g\<lparr>gs_element := ''trkpt'', gs_in_trkpoint := True,
    gs_pt := new_track_point\<lparr>tp_lat := number_of lat, tp_lon := number_of lon\<rparr>\<rparr>"
  have start: "gpx_event L (Some (Start_element ''trkpt'' (dict_of (point_position p)))) g = Inr ?g"
    using assms(1) by (simp add: p gpx_event_defs gpx_number_ok del: point_position.simps)
  have kids: "\<forall>c \<in> set (point_children p). \<not> is_text c" by (auto simp: p leaf_def split: option.splits)
  have body: "gpx_events L (concat (map tree_events (pad w (point_children p)))) ?g =
      gpx_events L (concat (map tree_events (point_children p))) ?g"
    by (rule pad_irrelevant [OF kids]) (simp add: text_ignored_def)
  show ?thesis
    using assms start body
    by (cases ele; cases tm)
      (auto simp: p leads_def point_tree_def gpx_events_append leaf_events gpx_event_defs gpx_number_ok new_track_point_def
        simp del: point_position.simps)
qed

text \<open>Around the children of an element: its start, the padding and its end.\<close>

lemma element_leads:
  assumes "gpx_event L (Some (Start_element n (dict_of as))) g = Inr g1" "\<forall>c \<in> set cs. \<not> is_text c" "text_ignored g1"
    and "leads L (concat (map tree_events cs)) g1 Q" "\<And>g'. Q g' \<Longrightarrow> R (gpx_end n g')"
  shows "leads L (tree_events (Element n as (pad w cs))) g R"
proof -
  obtain g2 where 2: "gpx_events L (concat (map tree_events cs)) g1 = Inr g2" "Q g2"
    using assms(4) by (auto simp: leads_def)
  then show ?thesis
    using assms(1,5) pad_irrelevant [OF assms(2,3), of L w]
    by (auto simp: leads_def gpx_events_append gpx_event_def [of L "Some (End_element n)"])
qed

lemma segment_leads:
  assumes "\<forall>p \<in> set ps. point_text_ok p" "\<not> gs_in_waypoint g"
  shows "leads L (tree_events (segment_tree w ps)) g
     (\<lambda>g'. gs_track g' = (gs_track g)\<lparr>tr_segments := tr_segments (gs_track g) @ [map (track_point_of L) ps]\<rparr>
        \<and> gs_gpx g' = gs_gpx g \<and> \<not> gs_in_waypoint g')"
proof -
  let ?P = "\<lambda>v (g' :: gpx_state). gs_seg g' = v \<and> gs_gpx g' = gs_gpx g \<and> gs_track g' = gs_track g \<and> \<not> gs_in_waypoint g'"
  let ?g = "g\<lparr>gs_element := ''trkseg'', gs_in_trkseg := True, gs_seg := []\<rparr>"
  have start: "gpx_event L (Some (Start_element ''trkseg'' (dict_of []))) g = Inr ?g"
    by (simp add: gpx_event_defs)
  have body: "leads L (concat (map tree_events (map (point_tree w) ps))) ?g (?P ([] @ map (track_point_of L) ps))"
  proof (rule leads_list)
    show "?P [] ?g" using assms(2) by simp
    fix p v and g' :: gpx_state
    assume "p \<in> set ps" "?P v g'"
    then show "leads L (tree_events (point_tree w p)) g' (?P (v @ [track_point_of L p]))"
      using point_leads [of p g' L w] assms(1) by (auto simp: leads_def)
  qed
  show ?thesis
    unfolding segment_tree_def
    by (rule element_leads [OF start _ _ body]) (auto simp: point_tree_def text_ignored_def gpx_end_def)
qed

lemma track_leads:
  assumes "track_text_ok tr" "\<not> gs_in_waypoint g"
  shows "leads L (tree_events (track_tree w tr)) g
     (\<lambda>g'. gs_gpx g' = (gs_gpx g)\<lparr>gx_tracks := gx_tracks (gs_gpx g) @ [track_of L tr]\<rparr> \<and> \<not> gs_in_waypoint g')"
proof -
  let ?P = "\<lambda>v (g' :: gpx_state). gs_track g' = \<lparr>tr_name = fst tr, tr_segments = v\<rparr> \<and> gs_gpx g' = gs_gpx g \<and> \<not> gs_in_waypoint g'"
  let ?g = "g\<lparr>gs_element := ''trk'', gs_in_track := True, gs_track := new_track\<rparr>"
  let ?h = "?g\<lparr>gs_element := [], gs_track := \<lparr>tr_name = fst tr, tr_segments = []\<rparr>\<rparr>"
  have start: "gpx_event L (Some (Start_element ''trk'' (dict_of []))) g = Inr ?g"
    by (simp add: gpx_event_defs)
  have name: "gpx_events L (tree_events (leaf ''name'' (fst tr))) ?g = Inr ?h"
    using assms(2) by (simp add: leaf_events gpx_event_defs new_track_def)
  have "leads L (concat (map tree_events (map (segment_tree w) (snd tr)))) ?h
      (?P ([] @ map (map (track_point_of L)) (snd tr)))"
  proof (rule leads_list)
    show "?P [] ?h" using assms(2) by simp
    fix ps v and g' :: gpx_state
    assume "ps \<in> set (snd tr)" "?P v g'"
    then show "leads L (tree_events (segment_tree w ps)) g' (?P (v @ [map (track_point_of L) ps]))"
      using segment_leads [of ps g' L w] assms(1) by (auto simp: leads_def track_text_ok_def)
  qed
  then have body: "leads L (concat (map tree_events (leaf ''name'' (fst tr) # map (segment_tree w) (snd tr)))) ?g
      (?P (map (map (track_point_of L)) (snd tr)))"
    using name by (simp add: leads_def gpx_events_append del: tree_events.simps)
  show ?thesis
    unfolding track_tree_def
    by (rule element_leads [OF start _ _ body])
      (auto simp: segment_tree_def leaf_def text_ignored_def gpx_end_def track_of_def)
qed

lemma waypoint_leads:
  assumes "text_ok (fst wp)" "point_text_ok (snd wp)"
  shows "leads L (tree_events (waypoint_tree w wp)) g
     (\<lambda>g'. gs_gpx g' = (gs_gpx g)\<lparr>gx_waypoints := gx_waypoints (gs_gpx g) @ [way_point_of L wp]\<rparr> \<and> \<not> gs_in_waypoint g')"
proof -
  obtain n lat lon ele tm where wp: "wp = (n, lat, lon, ele, tm)" by (cases wp)
  let ?g = "g\<lparr>gs_element := ''wpt'', gs_in_waypoint := True,
    gs_wpt := new_way_point\<lparr>wp_lat := number_of lat, wp_lon := number_of lon\<rparr>\<rparr>"
  have start: "gpx_event L (Some (Start_element ''wpt'' (dict_of (point_position (snd wp))))) g = Inr ?g"
    using assms(2) by (simp add: wp gpx_event_defs gpx_number_ok del: point_position.simps)
  have body: "leads L (concat (map tree_events (leaf ''name'' (fst wp) # point_children (snd wp)))) ?g
      (\<lambda>g'. gs_wpt g' = way_point_of L wp \<and> gs_gpx g' = gs_gpx g)"
    using assms(2)
    by (cases ele; cases tm)
      (auto simp: wp leads_def gpx_events_append leaf_events gpx_event_defs gpx_number_ok new_way_point_def)
  show ?thesis
    unfolding waypoint_tree_def
    by (rule element_leads [OF start _ _ body])
      (auto simp: wp leaf_def text_ignored_def gpx_end_def split: option.splits)
qed

definition gpx_of ::
  "'t time_lib \<Rightarrow> string \<Rightarrow> (string \<times> point_text) list \<Rightarrow> (string \<times> point_text list list) list \<Rightarrow> gpx" where
  "gpx_of L creator wps trs =
     \<lparr>gx_creator = creator, gx_waypoints = map (way_point_of L) wps, gx_tracks = map (track_of L) trs\<rparr>"

lemma gpx_leads:
  assumes "\<forall>wp \<in> set wps. text_ok (fst wp) \<and> point_text_ok (snd wp)" "\<forall>tr \<in> set trs. track_text_ok tr"
    and "gs_gpx g = new_gpx" "\<not> gs_in_waypoint g"
  shows "leads L (tree_events (gpx_tree w creator wps trs)) g
     (\<lambda>g'. gs_gpx g' = gpx_of L creator wps trs \<and> gs_element g' = [])"
proof -
  let ?g = "g\<lparr>gs_element := ''gpx'', gs_gpx := (gs_gpx g)\<lparr>gx_creator := creator\<rparr>\<rparr>"
  let ?W = "\<lambda>v (g' :: gpx_state). gs_gpx g' = \<lparr>gx_creator = creator, gx_waypoints = v, gx_tracks = []\<rparr> \<and> \<not> gs_in_waypoint g'"
  let ?T = "\<lambda>v (g' :: gpx_state). gs_gpx g' = \<lparr>gx_creator = creator, gx_waypoints = map (way_point_of L) wps, gx_tracks = v\<rparr>
    \<and> \<not> gs_in_waypoint g'"
  have start: "gpx_event L (Some (Start_element ''gpx'' (dict_of [(''creator'', creator)]))) g = Inr ?g"
    by (simp add: gpx_event_defs dict_of_def dict_get_def)
  have "leads L (concat (map tree_events (map (waypoint_tree w) wps))) ?g (?W ([] @ map (way_point_of L) wps))"
  proof (rule leads_list)
    show "?W [] ?g" using assms(3,4) by (simp add: new_gpx_def)
    fix wp v and g' :: gpx_state
    assume "wp \<in> set wps" "?W v g'"
    then show "leads L (tree_events (waypoint_tree w wp)) g' (?W (v @ [way_point_of L wp]))"
      using waypoint_leads [of wp L w g'] assms(1) by (auto simp: leads_def)
  qed
  then obtain g1 where 1: "gpx_events L (concat (map tree_events (map (waypoint_tree w) wps))) ?g = Inr g1"
    "?T [] g1"
    by (auto simp: leads_def)
  have "leads L (concat (map tree_events (map (track_tree w) trs))) g1 (?T ([] @ map (track_of L) trs))"
  proof (rule leads_list)
    show "?T [] g1" by (rule 1(2))
    fix tr v and g' :: gpx_state
    assume "tr \<in> set trs" "?T v g'"
    then show "leads L (tree_events (track_tree w tr)) g' (?T (v @ [track_of L tr]))"
      using track_leads [of tr g' L w] assms(2) by (auto simp: leads_def)
  qed
  then have body: "leads L (concat (map tree_events (map (waypoint_tree w) wps @ map (track_tree w) trs))) ?g
      (?T (map (track_of L) trs))"
    using 1(1) by (simp add: leads_def gpx_events_append)
  show ?thesis
    unfolding gpx_tree_def
    by (rule element_leads [OF start _ _ body])
      (auto simp: waypoint_tree_def track_tree_def text_ignored_def gpx_end_def gpx_of_def)
qed

section \<open>Recovering a document\<close>

definition padding_ok :: "string option \<Rightarrow> bool" where
  "padding_ok w \<longleftrightarrow> (case w of None \<Rightarrow> True | Some x \<Rightarrow> text_ok x)"

lemma separated_elements: "\<forall>c \<in> set cs. \<not> is_text c \<Longrightarrow> separated cs"
  by (induction cs rule: separated.induct) auto

lemma pad_ok:
  assumes "padding_ok w" "\<forall>c \<in> set cs. \<not> is_text c \<and> xml_ok c"
  shows "separated (pad w cs) \<and> (\<forall>c \<in> set (pad w cs). xml_ok c)"
proof (cases w)
  case None
  then show ?thesis using assms(2) separated_elements by (simp add: pad_def)
next
  case (Some x)
  have "separated (concat (map (\<lambda>c. [Text x, c]) cs) @ [Text x])"
    using assms(2)
  proof (induction cs)
    case (Cons c cs)
    then show ?case by (cases cs) auto
  qed simp
  then show ?thesis using assms Some by (auto simp: pad_def padding_ok_def text_ok_def)
qed

text \<open>The elements and the attributes a document uses are names, and an element around elements is one.\<close>

lemma gpx_names [simp]:
  "xml_name ''gpx''" "xml_name ''wpt''" "xml_name ''trk''" "xml_name ''trkseg''" "xml_name ''trkpt''" "xml_name ''name''"
  "xml_name ''ele''" "xml_name ''time''" "xml_name ''lat''" "xml_name ''lon''" "xml_name ''creator''"
  by (simp_all add: xml_name_def is_valid_name_char_def char_class_defs)

lemma element_ok:
  assumes "xml_name n" "\<forall>a \<in> set as. xml_name (fst a) \<and> CR \<notin> set (snd a)" "padding_ok w"
    and "\<forall>c \<in> set cs. \<not> is_text c \<and> xml_ok c"
  shows "xml_ok (Element n as (pad w cs))"
  using assms pad_ok [OF assms(3,4)] by simp

lemma trees_are_elements [simp]:
  "\<not> is_text (leaf n t)" "\<not> is_text (point_tree w p)" "\<not> is_text (segment_tree w ps)" "\<not> is_text (track_tree w tr)"
  "\<not> is_text (waypoint_tree w wp)" "\<not> is_text (gpx_tree w creator wps trs)"
  by (simp_all add: leaf_def point_tree_def segment_tree_def track_tree_def waypoint_tree_def gpx_tree_def)

lemma leaf_ok: "xml_name n \<Longrightarrow> text_ok t \<Longrightarrow> xml_ok (leaf n t)"
  by (simp add: leaf_def text_ok_def)

lemma point_children_ok: "point_text_ok p \<Longrightarrow> \<forall>c \<in> set (point_children p). \<not> is_text c \<and> xml_ok c"
  by (cases p) (auto simp: leaf_ok split: option.splits)

lemma point_position_ok: "point_text_ok p \<Longrightarrow> \<forall>a \<in> set (point_position p). xml_name (fst a) \<and> CR \<notin> set (snd a)"
  by (cases p) simp

lemma point_tree_ok: "padding_ok w \<Longrightarrow> point_text_ok p \<Longrightarrow> xml_ok (point_tree w p)"
  unfolding point_tree_def by (intro element_ok point_children_ok point_position_ok) simp_all

lemma segment_tree_ok: "padding_ok w \<Longrightarrow> \<forall>p \<in> set ps. point_text_ok p \<Longrightarrow> xml_ok (segment_tree w ps)"
  unfolding segment_tree_def by (rule element_ok) (simp_all add: point_tree_ok)

lemma track_tree_ok: "padding_ok w \<Longrightarrow> track_text_ok tr \<Longrightarrow> xml_ok (track_tree w tr)"
  unfolding track_tree_def by (rule element_ok) (simp_all add: segment_tree_ok leaf_ok track_text_ok_def)

lemma waypoint_tree_ok:
  "padding_ok w \<Longrightarrow> text_ok (fst wp) \<Longrightarrow> point_text_ok (snd wp) \<Longrightarrow> xml_ok (waypoint_tree w wp)"
  unfolding waypoint_tree_def using point_children_ok [of "snd wp"]
  by (intro element_ok point_position_ok) (simp_all add: leaf_ok)

lemma gpx_tree_ok:
  assumes "padding_ok w" "CR \<notin> set creator" "\<forall>wp \<in> set wps. text_ok (fst wp) \<and> point_text_ok (snd wp)"
    "\<forall>tr \<in> set trs. track_text_ok tr"
  shows "xml_ok (gpx_tree w creator wps trs)"
  unfolding gpx_tree_def using assms
  by (intro element_ok) (auto simp: waypoint_tree_ok track_tree_ok)

text \<open>The events of a whole document.\<close>

lemma gpx_next_document:
  assumes "xml_ok t" "before s [] (xml_print t @ u)" "plain_tail u" "CR \<notin> set u"
    and "gpx_events L (tree_events t) g = Inr g'" "gs_element g' = []" "t = Element ''gpx'' as cs"
  shows "gpx_next L s g = Some (Inr (), gs_gpx g')"
proof -
  obtain s1 where 1: "read_events (length (tree_events t)) s = (Inr (map Some (tree_events t)), s1)" "ended s1 ''gpx'' [] u"
    using root_read [of "''gpx''" as cs s u] assms(1,2,7) by blast
  obtain s2 s3 ev where 2: "next_event s1 = (Inr ev, s2)"
    "observe ev s2 = Some (if u = [] then End_element ''gpx'' else Characters (u @ [EOF_CHAR]) False)"
    "next_event s2 = (Inr (Some END_DOCUMENT), s3)"
    by (rule root_ended [OF 1(2) assms(3,4)])
  have "gpx_event L (Some (if u = [] then End_element ''gpx'' else Characters (u @ [EOF_CHAR]) False)) g' = Inr g'"
    using assms(6) ignored_text [of g' L] by (simp add: gpx_event_def gpx_end_def text_ignored_def)
  then have "gpx_next L s1 g' = gpx_next L s2 g'" by (rule gpx_next_step [OF 2(1,2)])
  moreover have "gpx_next L s2 g' = Some (Inr (), gs_gpx g')"
    using 2(3) by (simp add: gpx_next_def) (subst gpx_loop.simps, simp)
  ultimately show ?thesis using gpx_next_events [OF 1(1) assms(5)] by simp
qed

text \<open>Whatever the first event type is, the end of the document excepted, the first round does nothing.\<close>

lemma first_round:
  assumes "ev \<noteq> Some END_DOCUMENT"
  shows "gpx_loop L ev ((XmlPullParser strm False)\<lparr>xp_event := ev\<rparr>) (gpx_start_state g) =
    gpx_next L ((XmlPullParser strm False)\<lparr>xp_event := ev\<rparr>) (gpx_start_state g)"
proof -
  have "gpx_event L (observe ev ((XmlPullParser strm False)\<lparr>xp_event := ev\<rparr>)) (gpx_start_state g) = Inr (gpx_start_state g)"
    by (simp add: observe_def gpx_event_defs gpx_start_state_def XmlPullParser_def)
  then show ?thesis using assms by (subst gpx_loop.simps) (simp add: gpx_next_def)
qed

text \<open>A GPX document is read back as the object it was written from, unless the first event type happens to
  be the end of the document: then nothing is read, and \<^verbatim>\<open>parse\<close> answers true all the same.\<close>

text \<open>C21: \<^verbatim>\<open>GPX::parse\<close> reads a GPX document back as the value it was written from: the creator, the way points and
  the tracks, their segments and points, with every number as \<^verbatim>\<open>std::stod\<close> reads it and every time as
  \<^verbatim>\<open>parse_date_time\<close> does, whatever white space stands between the elements and whatever text follows the
  document.  This holds for every first event type \<^verbatim>\<open>ev0\<close> but \<^verbatim>\<open>END_DOCUMENT\<close>; with that one nothing is read and
  the result is true.\<close>

theorem gpx_recovered:
  assumes "padding_ok w" "CR \<notin> set creator" "\<forall>wp \<in> set wps. text_ok (fst wp) \<and> point_text_ok (snd wp)"
    and "\<forall>tr \<in> set trs. track_text_ok tr"
    and "declaration_ok decl" "\<forall>x \<in> set w0. xml_space x \<and> x \<noteq> CR" "plain_tail tail" "CR \<notin> set tail"
  shows "gpx_parse L ev0 (xstream_of (xml_document decl w0 (xml_print (gpx_tree w creator wps trs) @ tail))) new_gpx =
    Some (Inr True, if ev0 = Some END_DOCUMENT then new_gpx else gpx_of L creator wps trs)"
proof (cases "ev0 = Some END_DOCUMENT")
  case True
  then show ?thesis by (simp add: gpx_parse_def gpx_loop.simps [of L "Some END_DOCUMENT"] gpx_start_state_def)
next
  case False
  let ?t = "gpx_tree w creator wps trs"
  let ?s = "(XmlPullParser (xstream_of (xml_document decl w0 (xml_print ?t @ tail))) False)\<lparr>xp_event := ev0\<rparr>"
  have ok: "xml_ok ?t" by (rule gpx_tree_ok [OF assms(1-4)])
  obtain c u where root: "xml_print ?t = CHR ''<'' # c # u" "byte c < 128" "c \<noteq> CHR ''?''"
    by (rule element_head [OF ok]) simp_all
  have "CR \<notin> set (c # u @ tail)" using print_no_CR [OF ok] root(1) assms(8) by simp
  then have before: "before ?s [] (xml_print ?t @ tail)"
    using new_parser_before [OF assms(5,6) root(2,3), of "u @ tail" ev0] root(1) by simp
  have "leads L (tree_events ?t) (gpx_start_state new_gpx) (\<lambda>g'. gs_gpx g' = gpx_of L creator wps trs \<and> gs_element g' = [])"
    by (rule gpx_leads [OF assms(3,4)]) (simp_all add: gpx_start_state_def)
  then obtain g' where g': "gpx_events L (tree_events ?t) (gpx_start_state new_gpx) = Inr g'"
    "gs_gpx g' = gpx_of L creator wps trs" "gs_element g' = []"
    by (auto simp: leads_def)
  have "gpx_next L ?s (gpx_start_state new_gpx) = Some (Inr (), gs_gpx g')"
    by (rule gpx_next_document [OF ok before assms(7,8) g'(1,3)]) (rule gpx_tree_def)
  then show ?thesis using first_round [OF False, of L] g'(2) False by (simp add: gpx_parse_def)
qed

definition sample_times :: "int time_lib" where
  "sample_times = \<lparr>tl_get_time = (\<lambda>s. if s = [] then None else Some (int (length s))), tl_mktime = id, tl_gmtime = Some\<rparr>"

definition sample_waypoint :: "string \<times> point_text" where
  "sample_waypoint = (''A & B'', ''40.5'', ''-3'', Some ''12'', None)"

definition sample_track :: "string \<times> point_text list list" where
  "sample_track = (''walk'', [[(''1'', ''2'', None, Some ''2020-01-01T00:00:00Z'')], []])"

theorem gpx_recovered_witness:
  "gpx_parse sample_times None
      (xstream_of (xml_document None [] (xml_print (gpx_tree (Some [LF]) ''me'' [sample_waypoint] [sample_track]) @ [LF]))) new_gpx =
    Some (Inr True, gpx_of sample_times ''me'' [sample_waypoint] [sample_track])"
proof -
  have num: "stod ''40.5'' \<noteq> None" "stod ''-3'' \<noteq> None" "stod ''12'' \<noteq> None" "stod ''1'' \<noteq> None" "stod ''2'' \<noteq> None"
    by (simp_all add: stod_def split_digits_def strip_sign_def digits_value_def read_exponent_def scale10_def char_class_defs)
  have "text_ok (fst sample_waypoint) \<and> point_text_ok (snd sample_waypoint)" "track_text_ok sample_track"
    using num by (simp_all add: sample_waypoint_def sample_track_def text_ok_def track_text_ok_def char_eq_byte [of CR])
  then show ?thesis
    using gpx_recovered [of "Some [LF]" "''me''" "[sample_waypoint]" "[sample_track]" None "[]" "[LF]" sample_times None]
    by (simp add: padding_ok_def text_ok_def declaration_ok_def plain_tail_def char_eq_byte [of CR] char_eq_byte [of LF]
        char_eq_byte [of "CHR ''<''"] char_eq_byte [of "CHR ''&''"])
qed

end
