(* ===== verification/ConnectionPool.thy ===== *)
theory ConnectionPool
  imports Prelude "HOL-Library.Multiset"
begin

text \<open>
  \<^verbatim>\<open>app/connection_pool.hpp\<close>: the pool of database connections of the example application.  The body of every
  operation runs under the mutex, so an operation is a step; the threads waiting on the condition variable, those
  it has woken and the connections out are part of the state.  The connections themselves are a type parameter.
\<close>

section \<open>The pool\<close>

text \<open>\<^verbatim>\<open>cp_waiting\<close> are the threads blocked in \<^verbatim>\<open>cv_.wait\<close>, \<^verbatim>\<open>cp_woken\<close> those that were notified and have not got the
  mutex back, \<^verbatim>\<open>cp_lent\<close> the smart pointers that are out, each with the thread that owns it.\<close>

record ('c, 't) connection_pool =
  cp_url :: string
  cp_max_size :: nat
  cp_free :: "'c list"
  cp_waiting :: "'t list"
  cp_woken :: "'t list"
  cp_lent :: "('t \<times> 'c) list"

text \<open>The constructor: \<^verbatim>\<open>connect url i\<close> is the outcome of the i-th connection.  When one fails the exception leaves
  the constructor, and with it the connections made before, which no destructor deletes: they are given back
  with the error.\<close>

fun open_connections :: "(nat \<Rightarrow> string + 'c) \<Rightarrow> nat \<Rightarrow> nat \<Rightarrow> 'c list \<Rightarrow> (string \<times> 'c list) + 'c list" where
  "open_connections connect i 0 made = Inr made"
| "open_connections connect i (Suc n) made =
     (case connect i of
        Inl e \<Rightarrow> Inl (e, made)
      | Inr c \<Rightarrow> open_connections connect (Suc i) n (made @ [c]))"

definition ConnectionPool ::
  "(string \<Rightarrow> nat \<Rightarrow> string + 'c) \<Rightarrow> string \<Rightarrow> nat \<Rightarrow> (string \<times> 'c list) + ('c, 't) connection_pool" where
  "ConnectionPool connect url pool_size =
     (case open_connections (connect url) 0 pool_size [] of
        Inl e \<Rightarrow> Inl e
      | Inr made \<Rightarrow> Inr \<lparr>cp_url = url, cp_max_size = pool_size, cp_free = made, cp_waiting = [], cp_woken = [], cp_lent = []\<rparr>)"

text \<open>The destructor: the connections it deletes.  Those that are out are not in the queue.\<close>

definition destroy_pool :: "('c, 't) connection_pool \<Rightarrow> 'c list \<times> ('c, 't) connection_pool" where
  "destroy_pool p = (cp_free p, p\<lparr>cp_free := []\<rparr>)"

section \<open>Operations\<close>

text \<open>\<^verbatim>\<open>acquireConnection\<close> with the mutex held: the predicate is tested; a thread for which it fails blocks.  A thread
  that comes back from the wait tests again.\<close>

definition acquireConnection :: "'t \<Rightarrow> ('c, 't) connection_pool \<Rightarrow> ('c, 't) connection_pool" where
  "acquireConnection t p =
     (case cp_free p of
        [] \<Rightarrow> p\<lparr>cp_waiting := cp_waiting p @ [t]\<rparr>
      | session # rest \<Rightarrow> p\<lparr>cp_free := rest, cp_lent := cp_lent p @ [(t, session)]\<rparr>)"

text \<open>\<^verbatim>\<open>notify_one\<close> wakes one of the waiting threads, whichever it is, or does nothing.\<close>

definition notify_one :: "'t option \<Rightarrow> ('c, 't) connection_pool \<Rightarrow> ('c, 't) connection_pool option" where
  "notify_one w p =
     (case w of
        None \<Rightarrow> if cp_waiting p = [] then Some p else None
      | Some t \<Rightarrow>
          if t \<in> set (cp_waiting p)
          then Some (p\<lparr>cp_waiting := remove1 t (cp_waiting p), cp_woken := cp_woken p @ [t]\<rparr>)
          else None)"

definition releaseConnection ::
  "'t \<times> 'c \<Rightarrow> 't option \<Rightarrow> ('c, 't) connection_pool \<Rightarrow> ('c, 't) connection_pool option" where
  "releaseConnection tc w p =
     notify_one w (p\<lparr>cp_free := cp_free p @ [snd tc], cp_lent := remove1 tc (cp_lent p)\<rparr>)"

text \<open>\<^verbatim>\<open>ConnectionDeleter\<close>: a null pointer is not given back.\<close>

definition ConnectionDeleter ::
  "'t \<times> 'c option \<Rightarrow> 't option \<Rightarrow> ('c, 't) connection_pool \<Rightarrow> ('c, 't) connection_pool option" where
  "ConnectionDeleter ts w p =
     (case snd ts of None \<Rightarrow> Some p | Some session \<Rightarrow> releaseConnection (fst ts, session) w p)"

section \<open>Steps\<close>

text \<open>What threads do: ask for a connection, go on after a notification, wake up without one, and let a pointer
  go out of scope.  A thread that waits does nothing else.\<close>

datatype ('c, 't) pool_label = Ask 't | Resume 't | Spurious 't | Let_go 't 'c "'t option"

definition running :: "'t \<Rightarrow> ('c, 't) connection_pool \<Rightarrow> bool" where
  "running t p \<longleftrightarrow> t \<notin> set (cp_waiting p) \<and> t \<notin> set (cp_woken p)"

fun cp_step :: "('c, 't) pool_label \<Rightarrow> ('c, 't) connection_pool \<Rightarrow> ('c, 't) connection_pool option" where
  "cp_step (Ask t) p = (if running t p then Some (acquireConnection t p) else None)"
| "cp_step (Resume t) p =
     (if t \<in> set (cp_woken p) then Some (acquireConnection t (p\<lparr>cp_woken := remove1 t (cp_woken p)\<rparr>)) else None)"
| "cp_step (Spurious t) p =
     (if t \<in> set (cp_waiting p) then Some (acquireConnection t (p\<lparr>cp_waiting := remove1 t (cp_waiting p)\<rparr>)) else None)"
| "cp_step (Let_go t c w) p =
     (if running t p \<and> (t, c) \<in> set (cp_lent p) then ConnectionDeleter (t, Some c) w p else None)"

fun cp_run :: "('c, 't) pool_label list \<Rightarrow> ('c, 't) connection_pool \<Rightarrow> ('c, 't) connection_pool option" where
  "cp_run [] p = Some p"
| "cp_run (l # ls) p = (case cp_step l p of None \<Rightarrow> None | Some p' \<Rightarrow> cp_run ls p')"

section \<open>The invariant\<close>

text \<open>No connection is lost or doubled, no thread waits twice, and there are as many notifications under way as
  connections a waiting thread could take.\<close>

definition cp_inv :: "'c multiset \<Rightarrow> ('c, 't) connection_pool \<Rightarrow> bool" where
  "cp_inv made p \<longleftrightarrow>
     mset (cp_free p) + mset (map snd (cp_lent p)) = made \<and>
     distinct (cp_waiting p @ cp_woken p) \<and>
     (cp_waiting p \<noteq> [] \<longrightarrow> length (cp_free p) \<le> length (cp_woken p))"

lemma mset_lent_remove1:
  "tc \<in> set xs \<Longrightarrow> add_mset (snd tc) (mset (map snd (remove1 tc xs))) = mset (map snd xs)"
proof -
  assume tc: "tc \<in> set xs"
  then have "add_mset (snd tc) (image_mset snd (mset xs - {#tc#})) = image_mset snd (mset xs)"
    by (metis image_mset_add_mset insert_DiffM set_mset_mset)
  then show ?thesis by simp
qed

text \<open>Asking again after a wait: one waiting or woken thread less, then the test.\<close>

lemma acquire_inv:
  assumes "mset (cp_free p) + mset (map snd (cp_lent p)) = made" "distinct (cp_waiting p @ cp_woken p)" "running t p"
    and "cp_waiting p \<noteq> [] \<Longrightarrow> length (cp_free p) \<le> Suc (length (cp_woken p))"
  shows "cp_inv made (acquireConnection t p)"
proof (cases "cp_free p")
  case Nil
  then show ?thesis using assms(1-3) by (auto simp: acquireConnection_def cp_inv_def running_def)
next
  case (Cons c cs)
  then show ?thesis using assms by (auto simp: acquireConnection_def cp_inv_def)
qed

lemma cp_step_inv: "cp_inv made p \<Longrightarrow> cp_step l p = Some p' \<Longrightarrow> cp_inv made p'"
proof (cases l)
  case (Ask t)
  assume "cp_inv made p" "cp_step l p = Some p'"
  then show ?thesis using Ask acquire_inv [of p made t] by (auto simp: cp_inv_def split: if_splits)
next
  case (Resume t)
  assume inv: "cp_inv made p" and "cp_step l p = Some p'"
  then have t: "t \<in> set (cp_woken p)" and p': "p' = acquireConnection t (p\<lparr>cp_woken := remove1 t (cp_woken p)\<rparr>)"
    using Resume by (auto split: if_splits)
  show ?thesis
    unfolding p' by (rule acquire_inv) (use inv t in \<open>auto simp: cp_inv_def running_def length_remove1\<close>)
next
  case (Spurious t)
  assume inv: "cp_inv made p" and "cp_step l p = Some p'"
  then have t: "t \<in> set (cp_waiting p)" and p': "p' = acquireConnection t (p\<lparr>cp_waiting := remove1 t (cp_waiting p)\<rparr>)"
    using Spurious by (auto split: if_splits)
  show ?thesis
    unfolding p' by (rule acquire_inv) (use inv t in \<open>auto simp: cp_inv_def running_def\<close>)
next
  case (Let_go t c w)
  assume inv: "cp_inv made p" and s: "cp_step l p = Some p'"
  then have lent: "(t, c) \<in> set (cp_lent p)" and p': "releaseConnection (t, c) w p = Some p'"
    using Let_go by (auto simp: ConnectionDeleter_def split: if_splits)
  show ?thesis
    using inv p' mset_lent_remove1 [OF lent]
    by (cases w) (auto simp: cp_inv_def releaseConnection_def notify_one_def split: if_splits)
qed

lemma cp_run_inv: "cp_run ls p = Some p' \<Longrightarrow> cp_inv made p \<Longrightarrow> cp_inv made p'"
  by (induction ls arbitrary: p) (auto split: option.splits dest: cp_step_inv)

lemma open_connections_made:
  "open_connections connect i n made = Inr cs \<Longrightarrow> \<exists>new. cs = made @ new \<and> length new = n \<and> map connect [i..<i + n] = map Inr new"
proof (induction n arbitrary: i made)
  case (Suc n)
  then obtain c where c: "connect i = Inr c" "open_connections connect (Suc i) n (made @ [c]) = Inr cs"
    by (auto split: sum.splits)
  obtain new where "cs = (made @ [c]) @ new" "length new = n" "map connect [Suc i..<Suc i + n] = map Inr new"
    using Suc.IH [OF c(2)] by blast
  then show ?case using c(1) by (intro exI [of _ "c # new"]) (simp add: upt_conv_Cons del: upt_Suc)
qed simp

lemma new_pool_inv:
  "ConnectionPool connect url n = Inr p \<Longrightarrow>
     cp_inv (mset (cp_free p)) p \<and> length (cp_free p) = n \<and> map (connect url) [0..<n] = map Inr (cp_free p) \<and>
     cp_waiting p = [] \<and> cp_woken p = [] \<and> cp_lent p = []"
  by (auto simp: ConnectionPool_def cp_inv_def dest: open_connections_made split: sum.splits)

text \<open>The connections a pool was made with are at every moment either in its queue or out, each exactly once:
  no two owners ever hold the same connection, and never more are out than \<^verbatim>\<open>max_size_\<close>.\<close>

lemma connections_never_shared:
  fixes p0 :: "('c, 't) connection_pool"
  assumes "ConnectionPool connect url n = Inr p0" "distinct (cp_free p0)" "cp_run ls p0 = Some p"
  shows "mset (cp_free p @ map snd (cp_lent p)) = mset (cp_free p0) \<and> distinct (cp_free p @ map snd (cp_lent p)) \<and>
     length (cp_free p) + length (cp_lent p) = n"
proof -
  have p0: "cp_inv (mset (cp_free p0)) p0" "length (cp_free p0) = n" using new_pool_inv [OF assms(1)] by simp_all
  have m: "mset (cp_free p @ map snd (cp_lent p)) = mset (cp_free p0)"
    using cp_run_inv [OF assms(3) p0(1)] by (simp add: cp_inv_def)
  moreover have "length (cp_free p) + length (cp_lent p) = n" using mset_eq_length [OF m] p0(2) by simp
  ultimately show ?thesis using mset_eq_imp_distinct_iff [OF m] assms(2) by blast
qed

section \<open>Construction that fails, and destruction\<close>

lemma open_connections_fails:
  "\<forall>j < d. connect (i + j) = Inr (f j) \<Longrightarrow> connect (i + d) = Inl e \<Longrightarrow> d < n \<Longrightarrow>
     open_connections connect i n made = Inl (e, made @ map f [0..<d])"
proof (induction n arbitrary: i d f made)
  case (Suc n)
  show ?case
  proof (cases d)
    case 0
    then show ?thesis using Suc.prems(2) by simp
  next
    case (Suc d')
    have 0: "connect i = Inr (f 0)" using Suc.prems(1) Suc by (metis add.right_neutral zero_less_Suc)
    have "open_connections connect (Suc i) n (made @ [f 0]) = Inl (e, (made @ [f 0]) @ map (\<lambda>j. f (Suc j)) [0..<d'])"
      by (rule Suc.IH) (use Suc.prems Suc in auto)
    then show ?thesis using 0 Suc by (simp add: map_Suc_upt [symmetric] upt_conv_Cons comp_def del: upt_Suc)
  qed
qed simp

text \<open>When the \<^verbatim>\<open>k\<close>th connection cannot be made, the \<^verbatim>\<open>k\<close> made before are left open.\<close>

lemma failed_pool_leaks:
  "\<forall>j < k. connect url j = Inr (f j) \<Longrightarrow> connect url k = Inl e \<Longrightarrow> k < n \<Longrightarrow>
     ConnectionPool connect url n = Inl (e, map f [0..<k])"
  using open_connections_fails [of k "connect url" 0 f e n "[]"] by (simp add: ConnectionPool_def)

text \<open>With every connection back the destructor deletes each one.\<close>

lemma destroy_deletes_all: "cp_inv made p \<Longrightarrow> cp_lent p = [] \<Longrightarrow> mset (fst (destroy_pool p)) = made"
  by (simp add: cp_inv_def destroy_pool_def)

section \<open>Every wait ends\<close>

text \<open>The steps that serve those already there: woken threads go on, pointers go out of scope.\<close>

definition serving :: "('c, 't) pool_label \<Rightarrow> bool" where
  "serving l = (case l of Resume t \<Rightarrow> True | Let_go t c w \<Rightarrow> True | _ \<Rightarrow> False)"

definition cp_load :: "('c, 't) connection_pool \<Rightarrow> nat" where
  "cp_load p = 2 * length (cp_waiting p) + 3 * length (cp_woken p) + 2 * length (cp_lent p)"

lemma remove1_shorter: "x \<in> set xs \<Longrightarrow> length xs = Suc (length (remove1 x xs))"
  using length_pos_if_in_set [of x xs] by (simp add: length_remove1)

lemma serving_step_load:
  assumes "cp_step l p = Some p'" "serving l"
  shows "cp_load p' < cp_load p"
proof (cases l)
  case (Resume t)
  then have "t \<in> set (cp_woken p)" using assms(1) by (auto split: if_splits)
  then show ?thesis
    using assms(1) Resume remove1_shorter [of t "cp_woken p"]
    by (auto simp: cp_load_def acquireConnection_def split: list.splits simp del: length_remove1)
next
  case (Let_go t c w)
  then have "(t, c) \<in> set (cp_lent p)" "releaseConnection (t, c) w p = Some p'"
    using assms(1) by (auto simp: ConnectionDeleter_def split: if_splits)
  then show ?thesis
    using remove1_shorter [of "(t, c)" "cp_lent p"] remove1_shorter [of "the w" "cp_waiting p"]
    by (cases w) (auto simp: cp_load_def releaseConnection_def notify_one_def split: if_splits simp del: length_remove1)
qed (use assms(2) in \<open>simp_all add: serving_def\<close>)

text \<open>No thread that waits owns a connection, as when every thread asks for one at a time.\<close>

definition owners_run :: "('c, 't) connection_pool \<Rightarrow> bool" where
  "owners_run p \<longleftrightarrow> (\<forall>(t, c) \<in> set (cp_lent p). running t p)"

lemma serving_step_owners:
  assumes "cp_step l p = Some p'" "serving l" "owners_run p" "cp_inv made p"
  shows "owners_run p'"
proof (cases l)
  case (Resume t)
  then have t: "t \<in> set (cp_woken p)" and p': "p' = acquireConnection t (p\<lparr>cp_woken := remove1 t (cp_woken p)\<rparr>)"
    using assms(1) by (auto split: if_splits)
  have "t \<notin> fst ` set (cp_lent p)" using assms(3) t by (auto simp: owners_run_def running_def)
  then show ?thesis
    using assms(3,4) t
    by (cases "cp_free p") (auto simp: p' acquireConnection_def owners_run_def running_def cp_inv_def)
next
  case (Let_go t c w)
  then have "releaseConnection (t, c) w p = Some p'" using assms(1) by (auto simp: ConnectionDeleter_def split: if_splits)
  moreover have "set (remove1 (t, c) (cp_lent p)) \<subseteq> set (cp_lent p)" by (rule set_remove1_subset)
  ultimately show ?thesis
    using assms(3,4)
    by (cases w) (fastforce simp: releaseConnection_def notify_one_def owners_run_def running_def cp_inv_def split: if_splits)+
qed (use assms(2) in \<open>simp_all add: serving_def\<close>)

lemma serving_run:
  "cp_run ls p = Some p' \<Longrightarrow> \<forall>l \<in> set ls. serving l \<Longrightarrow> owners_run p \<Longrightarrow> cp_inv made p \<Longrightarrow>
     length ls + cp_load p' \<le> cp_load p \<and> owners_run p'"
proof (induction ls arbitrary: p)
  case (Cons l ls)
  obtain p1 where 1: "cp_step l p = Some p1" "cp_run ls p1 = Some p'" using Cons.prems(1) by (auto split: option.splits)
  have "length ls + cp_load p' \<le> cp_load p1 \<and> owners_run p'"
    using Cons.IH [OF 1(2)] Cons.prems serving_step_owners [OF 1(1)] cp_step_inv [OF _ 1(1)] by auto
  moreover have "cp_load p1 < cp_load p" using serving_step_load [OF 1(1)] Cons.prems(2) by simp
  ultimately show ?case by simp
qed simp

text \<open>When no such step is left, nobody waits and every connection is back.\<close>

lemma no_serving_step:
  assumes "cp_inv made p" "owners_run p" "made \<noteq> {#}" "\<And>l. serving l \<Longrightarrow> cp_step l p = None"
  shows "cp_waiting p = [] \<and> cp_woken p = [] \<and> cp_lent p = []"
proof -
  have woken: "cp_woken p = []"
  proof (rule ccontr)
    assume "cp_woken p \<noteq> []"
    then show False using assms(4) [of "Resume (hd (cp_woken p))"] by (simp add: serving_def)
  qed
  have lent: "cp_lent p = []"
  proof (rule ccontr)
    assume "cp_lent p \<noteq> []"
    then obtain t c where tc: "(t, c) \<in> set (cp_lent p)" by (cases "cp_lent p") auto
    let ?w = "if cp_waiting p = [] then None else Some (hd (cp_waiting p))"
    have "running t p" using tc assms(2) by (auto simp: owners_run_def)
    then show False
      using tc assms(4) [of "Let_go t c ?w"]
      by (auto simp: serving_def ConnectionDeleter_def releaseConnection_def notify_one_def split: if_splits)
  qed
  have "cp_waiting p = []"
    using assms(1,3) woken lent by (auto simp: cp_inv_def)
  then show ?thesis using woken lent by blast
qed

text \<open>A thread that waits goes on waiting until it has a connection.\<close>

definition served :: "'t \<Rightarrow> ('c, 't) pool_label list \<Rightarrow> ('c, 't) connection_pool \<Rightarrow> bool" where
  "served t ls p \<longleftrightarrow> (\<exists>k \<le> length ls. \<exists>q. cp_run (take k ls) p = Some q \<and> t \<in> fst ` set (cp_lent q))"

lemma step_waits:
  assumes "cp_step l p = Some p'" "\<not> running t p"
  shows "\<not> running t p' \<or> t \<in> fst ` set (cp_lent p')"
proof (cases l)
  case (Let_go u c w)
  then show ?thesis
    using assms by (cases w)
      (auto simp: running_def ConnectionDeleter_def releaseConnection_def notify_one_def in_set_remove1 split: if_splits)
qed (use assms in \<open>auto simp: running_def acquireConnection_def in_set_remove1 image_iff split: list.splits if_splits\<close>)

lemma run_waits: "cp_run ls p = Some p' \<Longrightarrow> \<not> running t p \<Longrightarrow> \<not> running t p' \<or> served t ls p"
proof (induction ls arbitrary: p)
  case (Cons l ls)
  obtain p1 where 1: "cp_step l p = Some p1" "cp_run ls p1 = Some p'" using Cons.prems(1) by (auto split: option.splits)
  consider "\<not> running t p1" | "t \<in> fst ` set (cp_lent p1)" using step_waits [OF 1(1) Cons.prems(2)] by blast
  then show ?case
  proof cases
    case 1: 1
    have "served t ls p1 \<Longrightarrow> served t (l # ls) p"
      unfolding served_def using \<open>cp_step l p = Some p1\<close> by (metis Suc_le_mono cp_run.simps(2) length_Cons option.simps(5) take_Suc_Cons)
    then show ?thesis using Cons.IH [OF \<open>cp_run ls p1 = Some p'\<close> 1] by blast
  next
    case 2
    then have "cp_run (take 1 (l # ls)) p = Some p1 \<and> t \<in> fst ` set (cp_lent p1)" using 1(1) by simp
    then show ?thesis unfolding served_def by (metis One_nat_def Suc_le_mono length_Cons zero_le)
  qed
qed simp

text \<open>C20: Without a new request, the steps that serve the threads already there come to an end after at most twice the
  waiting, three times the woken threads and twice the connections out, and when none is left nobody waits, every
  connection is back and every thread that waited has had one: no wake-up is lost.  This needs a pool of at least
  one connection, and owners that do not wait for another.\<close>

theorem pool_serves_all:
  fixes p0 :: "('c, 't) connection_pool"
  assumes "ConnectionPool connect url n = Inr p0" "0 < n" "cp_run before p0 = Some p" "owners_run p"
    and "cp_run ls p = Some p'" "\<forall>l \<in> set ls. serving l"
  shows "length ls \<le> cp_load p \<and>
     ((\<exists>l p''. serving l \<and> cp_step l p' = Some p'') \<or>
      (cp_waiting p' = [] \<and> cp_woken p' = [] \<and> cp_lent p' = [] \<and>
       (\<forall>t \<in> set (cp_waiting p @ cp_woken p). served t ls p)))"
proof -
  let ?made = "mset (cp_free p0)"
  have made: "?made \<noteq> {#}" using new_pool_inv [OF assms(1)] assms(2) by auto
  have inv: "cp_inv ?made p" using cp_run_inv [OF assms(3)] new_pool_inv [OF assms(1)] by blast
  have run: "length ls + cp_load p' \<le> cp_load p" "owners_run p'"
    using serving_run [OF assms(5,6,4) inv] by simp_all
  show ?thesis
  proof (cases "\<exists>l p''. serving l \<and> cp_step l p' = Some p''")
    case True
    then show ?thesis using run(1) by simp
  next
    case False
    have "cp_waiting p' = [] \<and> cp_woken p' = [] \<and> cp_lent p' = []"
      by (rule no_serving_step [OF cp_run_inv [OF assms(5) inv] run(2) made]) (use False in auto)
    then show ?thesis using run(1) run_waits [OF assms(5)] by (auto simp: running_def)
  qed
qed

theorem pool_serves_all_witness:
  "\<exists>q. cp_run [Let_go 1 0 (Some (2::nat)), Resume 2, Let_go 2 0 None]
      \<lparr>cp_url = ''db'', cp_max_size = 1, cp_free = [], cp_waiting = [2], cp_woken = [], cp_lent = [(1, 0::nat)]\<rparr> = Some q \<and>
    (\<nexists>l q'. serving l \<and> cp_step l q = Some q') \<and>
    served 2 [Let_go 1 0 (Some (2::nat)), Resume 2, Let_go 2 0 None]
      \<lparr>cp_url = ''db'', cp_max_size = 1, cp_free = [], cp_waiting = [2], cp_woken = [], cp_lent = [(1, 0::nat)]\<rparr>"
proof -
  let ?start = "\<lparr>cp_url = ''db'', cp_max_size = 1, cp_free = [0], cp_waiting = [], cp_woken = [], cp_lent = []\<rparr> ::
         (nat, nat) connection_pool"
  let ?mid = "?start\<lparr>cp_free := [], cp_waiting := [2], cp_lent := [(1, 0)]\<rparr>"
  let ?ls = "[Let_go 1 0 (Some 2), Resume 2, Let_go 2 0 None] :: (nat, nat) pool_label list"
  note defs = running_def acquireConnection_def ConnectionDeleter_def releaseConnection_def notify_one_def
  have new: "ConnectionPool (\<lambda>url i. Inr i) ''db'' 1 = (Inr ?start :: (string \<times> nat list) + (nat, nat) connection_pool)"
    by (simp add: ConnectionPool_def)
  have asked: "cp_run [Ask 1, Ask 2] ?start = Some ?mid" by (simp add: defs)
  have run: "cp_run ?ls ?mid = Some ?start" by (simp add: defs)
  have stuck: "\<nexists>l q'. serving l \<and> cp_step l ?start = Some q'"
    by (auto simp: serving_def split: pool_label.splits)
  have "owners_run ?mid" "\<forall>l \<in> set ?ls. serving l" by (simp_all add: owners_run_def running_def serving_def)
  from pool_serves_all [OF new _ asked this(1) run this(2)] stuck have "served 2 ?ls ?mid" by auto
  then show ?thesis using run stuck by (intro exI [of _ ?start]) simp
qed

end
