(* ===== verification/StringUtil.thy ===== *)
theory StringUtil
  imports Prelude
begin

text \<open>
  \<^verbatim>\<open>app/util/string_util.cpp\<close> of the example application: random names, and the type of an image from its first
  bytes.  The random engine is a parameter: a state and a number below a bound drawn from it.
\<close>

section \<open>Random strings\<close>

definition alphabet :: string where
  "alphabet = ''0123456789'' @ ''ABCDEFGHIJKLMNOPQRSTUVWXYZ'' @ ''abcdefghijklmnopqrstuvwxyz''"

text \<open>\<^verbatim>\<open>draw hi g\<close> is the distribution over 0 to \<^verbatim>\<open>hi\<close>, both included.\<close>

primrec random_chars :: "(nat \<Rightarrow> 'g \<Rightarrow> nat \<times> 'g) \<Rightarrow> nat \<Rightarrow> 'g \<Rightarrow> string \<Rightarrow> string" where
  "random_chars draw 0 g s = s"
| "random_chars draw (Suc n) g s =
     (case draw (length alphabet - 1) g of (i, g') \<Rightarrow> random_chars draw n g' (s @ [alphabet ! i]))"

definition randomString :: "(nat \<Rightarrow> 'g \<Rightarrow> nat \<times> 'g) \<Rightarrow> 'g \<Rightarrow> nat \<Rightarrow> string" where
  "randomString draw g n = random_chars draw n g []"

lemma random_chars_ok:
  assumes "\<And>hi g. fst (draw hi g) \<le> hi"
  shows "\<exists>r. random_chars draw n g s = s @ r \<and> length r = n \<and> set r \<subseteq> set alphabet"
proof (induction n arbitrary: g s)
  case (Suc n)
  obtain i g' where d: "draw (length alphabet - 1) g = (i, g')" by (cases "draw (length alphabet - 1) g")
  then have "i \<le> length alphabet - 1" using assms [of "length alphabet - 1" g] by simp
  then have i: "alphabet ! i \<in> set alphabet" by (intro nth_mem) (simp add: alphabet_def)
  obtain r where "random_chars draw n g' (s @ [alphabet ! i]) = (s @ [alphabet ! i]) @ r" "length r = n" "set r \<subseteq> set alphabet"
    using Suc.IH by blast
  then show ?case using d i by (intro exI [of _ "alphabet ! i # r"]) simp
qed simp

text \<open>A distribution that keeps its bounds gives a string of the length asked for, of letters and digits.\<close>

lemma randomString_ok:
  "(\<And>hi g. fst (draw hi g) \<le> hi) \<Longrightarrow>
     length (randomString draw g n) = n \<and> (\<forall>c \<in> set (randomString draw g n). isalnum c)"
proof -
  assume "\<And>hi g. fst (draw hi g) \<le> hi"
  moreover have "\<forall>c \<in> set alphabet. isalnum c" by (simp add: alphabet_def char_class_defs)
  ultimately show ?thesis using random_chars_ok [of draw n g "[]"] by (auto simp: randomString_def)
qed

section \<open>The type of an image\<close>

text \<open>The bytes are read unsigned.  Short buffers are refused before any byte is read.\<close>

definition mimeFromHeader :: "string \<Rightarrow> string" where
  "mimeFromHeader buffer =
     (let bytes = (\<lambda>i. byte (buffer ! i))
      in if length buffer < 4 then ''application/octet-stream''
         else if bytes 0 = 0xFF \<and> bytes 1 = 0xD8 \<and> bytes 2 = 0xFF then ''image/jpeg''
         else if bytes 0 = 0x89 \<and> bytes 1 = 0x50 \<and> bytes 2 = 0x4E \<and> bytes 3 = 0x47 then ''image/png''
         else if bytes 0 = 0x47 \<and> bytes 1 = 0x49 \<and> bytes 2 = 0x46 \<and> bytes 3 = 0x38 then ''image/gif''
         else if 12 \<le> length buffer \<and> buffer ! 0 = CHR ''R'' \<and> buffer ! 1 = CHR ''I'' \<and> buffer ! 2 = CHR ''F'' \<and>
             buffer ! 3 = CHR ''F'' \<and> buffer ! 8 = CHR ''W'' \<and> buffer ! 9 = CHR ''E'' \<and> buffer ! 10 = CHR ''B'' \<and>
             buffer ! 11 = CHR ''P'' then ''image/webp''
         else if bytes 0 = 0x42 \<and> bytes 1 = 0x4D then ''image/bmp''
         else ''application/octet-stream'')"

text \<open>The table the tests spell out: the pieces a file starts with, each at its offset.\<close>

definition signatures :: "((nat \<times> string) list \<times> string) list" where
  "signatures =
     [([(0, [char_of (0xFF :: nat), char_of (0xD8 :: nat), char_of (0xFF :: nat)])], ''image/jpeg''),
      ([(0, char_of (0x89 :: nat) # ''PNG'')], ''image/png''),
      ([(0, ''GIF8'')], ''image/gif''),
      ([(0, ''RIFF''), (8, ''WEBP'')], ''image/webp''),
      ([(0, ''BM'')], ''image/bmp'')]"

definition has_piece :: "string \<Rightarrow> nat \<times> string \<Rightarrow> bool" where
  "has_piece buffer p \<longleftrightarrow> take (length (snd p)) (drop (fst p) buffer) = snd p"

definition signature_type :: "string \<Rightarrow> string" where
  "signature_type buffer =
     (case find (\<lambda>s. list_all (has_piece buffer) (fst s)) signatures of
        None \<Rightarrow> ''application/octet-stream''
      | Some s \<Rightarrow> snd s)"

lemma has_piece_Nil: "has_piece buffer (i, [])"
  by (simp add: has_piece_def)

lemma has_piece_Cons:
  "has_piece buffer (i, c # cs) \<longleftrightarrow> i < length buffer \<and> byte (buffer ! i) = byte c \<and> has_piece buffer (Suc i, cs)"
  by (cases "i < length buffer") (auto simp: has_piece_def Cons_nth_drop_Suc [symmetric])

lemmas has_piece_simps = has_piece_Nil has_piece_Cons

text \<open>For a buffer of four bytes or more the answer is that of the table.\<close>

lemma mimeFromHeader_signatures:
  "mimeFromHeader buffer = (if length buffer < 4 then ''application/octet-stream'' else signature_type buffer)"
proof (cases "length buffer < 4")
  case False
  then have len: "buffer \<noteq> []" "Suc 0 < length buffer" "2 < length buffer" "3 < length buffer" by auto
  have rest: "12 \<le> length buffer \<longleftrightarrow> 8 < length buffer \<and> 9 < length buffer \<and> 10 < length buffer \<and> 11 < length buffer"
    by auto
  show ?thesis
    by (simp add: mimeFromHeader_def signature_type_def signatures_def has_piece_simps char_eq_byte Let_def rest len False
        len(3,4) [unfolded numeral_2_eq_2 numeral_3_eq_3] numeral_2_eq_2 numeral_3_eq_3)
qed (simp add: mimeFromHeader_def)

text \<open>What it answers is an image type a browser shows, or the type of any bytes.\<close>

lemma mimeFromHeader_range:
  "mimeFromHeader buffer \<in> {''image/jpeg'', ''image/png'', ''image/gif'', ''image/webp'', ''image/bmp'', ''application/octet-stream''}"
  by (simp add: mimeFromHeader_def Let_def)

end
