(* ===== verification/UtilRegex.thy ===== *)
theory UtilRegex
  imports Util Regex
begin

text \<open>
  The functions of \<^verbatim>\<open>src/util.cpp\<close> that take a \<^verbatim>\<open>std::regex\<close>: splitting at the matches and replacing them by a
  format or by the value of a callback, over the matches \<^verbatim>\<open>std::sregex_iterator\<close> visits.
\<close>

section \<open>The matches of a string\<close>

record smatch =
  sm_position :: nat
  sm_prefix :: string
  sm_str :: string
  sm_suffix :: string
  sm_subs :: caps

definition smatch_at :: "nat \<Rightarrow> string \<Rightarrow> nat \<Rightarrow> nat \<Rightarrow> caps \<Rightarrow> smatch" where
  "smatch_at i s p n cs =
     \<lparr>sm_position = p, sm_prefix = take (p - i) s, sm_str = take n (drop (p - i) s), sm_suffix = drop (p - i + n) s,
      sm_subs = cs(0 \<mapsto> take n (drop (p - i) s))\<rparr>"

text \<open>\<^verbatim>\<open>regex_search\<close> with its captures: position, length and captures of the leftmost match.\<close>

fun search_match :: "re \<Rightarrow> nat \<Rightarrow> string \<Rightarrow> (nat \<times> nat \<times> caps) option" where
  "search_match r i [] =
     (case search r (i, [], no_caps) of (j, t, cs) # ms \<Rightarrow> Some (i, j - i, cs) | [] \<Rightarrow> None)"
| "search_match r i (c # s) =
     (case search r (i, c # s, no_caps) of
        (j, t, cs) # ms \<Rightarrow> Some (i, j - i, cs)
      | [] \<Rightarrow> search_match r (Suc i) s)"

text \<open>The next match of an iterator: after an empty one it looks for one that is not empty at the same place
  first, then from the next character on.\<close>

definition next_match :: "re \<Rightarrow> bool \<Rightarrow> nat \<Rightarrow> string \<Rightarrow> (nat \<times> nat \<times> caps) option" where
  "next_match r after_empty i s =
     (if \<not> after_empty then search_match r i s
      else if s = [] then None
      else (case filter (\<lambda>(j, t, cs). i < j) (search r (i, s, no_caps)) of
              (j, t, cs) # ms \<Rightarrow> Some (i, j - i, cs)
            | [] \<Rightarrow> search_match r (Suc i) (tl s)))"

lemma search_hd_bounds: "search r (i, s, cs0) = (j, t, cs) # ms \<Longrightarrow> i \<le> j \<and> j - i \<le> length s"
  using search_follows [of "(j, t, cs)" r "(i, s, cs0)"] by (simp add: follows_def)

lemma search_match_bounds: "search_match r i s = Some (p, n, cs) \<Longrightarrow> i \<le> p \<and> p - i + n \<le> length s"
proof (induction r i s rule: search_match.induct)
  case (1 r i)
  then show ?case using search_hd_bounds [of r i "[]"] by (auto split: list.splits)
next
  case (2 r i c s)
  show ?case
  proof (cases "search r (i, c # s, no_caps)")
    case Nil
    then show ?thesis using 2 by auto
  next
    case (Cons m ms)
    then show ?thesis using 2(2) search_hd_bounds [of r i "c # s"] by (cases m) auto
  qed
qed

lemma next_match_bounds:
  "next_match r after_empty i s = Some (p, n, cs) \<Longrightarrow>
     i \<le> p \<and> p - i + n \<le> length s \<and> (after_empty \<longrightarrow> 0 < p - i + n)"
proof (cases after_empty)
  case False
  then show "next_match r after_empty i s = Some (p, n, cs) \<Longrightarrow> ?thesis"
    using search_match_bounds [of r i s p n cs] by (auto simp: next_match_def)
next
  case True
  assume m: "next_match r after_empty i s = Some (p, n, cs)"
  then have s: "s \<noteq> []" using True by (auto simp: next_match_def)
  show ?thesis
  proof (cases "filter (\<lambda>(j, t, cs). i < j) (search r (i, s, no_caps))")
    case Nil
    then have "search_match r (Suc i) (tl s) = Some (p, n, cs)" using m True s by (auto simp: next_match_def)
    then show ?thesis using search_match_bounds [of r "Suc i" "tl s"] s by (cases s) auto
  next
    case (Cons q ms)
    obtain j t cs' where q: "q = (j, t, cs')" by (cases q)
    have "q \<in> set (filter (\<lambda>(j, t, cs). i < j) (search r (i, s, no_caps)))" by (simp add: Cons)
    then have "(j, t, cs') \<in> set (search r (i, s, no_caps))" "i < j" by (simp_all add: q)
    then show ?thesis
      using m True s Cons q search_follows [of "(j, t, cs')" r "(i, s, no_caps)"]
      by (auto simp: next_match_def follows_def)
  qed
qed

function regex_iterate :: "re \<Rightarrow> bool \<Rightarrow> nat \<Rightarrow> string \<Rightarrow> smatch list" where
  "regex_iterate r after_empty i s =
     (case next_match r after_empty i s of
        None \<Rightarrow> []
      | Some (p, n, cs) \<Rightarrow> smatch_at i s p n cs # regex_iterate r (n = 0) (p + n) (drop (p - i + n) s))"
  by pat_completeness auto
termination
  by (relation "measure (\<lambda>(r, after_empty, i, s). 2 * length s + (if after_empty then 0 else 1))")
    (auto dest!: next_match_bounds split: if_splits)

declare regex_iterate.simps [simp del]

definition smatches :: "re \<Rightarrow> string \<Rightarrow> smatch list" where
  "smatches r s = regex_iterate r False 0 s"

section \<open>Splitting\<close>

text \<open>\<^verbatim>\<open>sregex_token_iterator{s.begin(), s.end(), re, -1}\<close>: the prefix of every match, then what follows the last
  one when it is not empty; the whole string when there is no match.\<close>

definition split_regex :: "string \<Rightarrow> re \<Rightarrow> string list" where
  "split_regex s r =
     (let ms = smatches r s
      in if ms = [] then [s]
         else map sm_prefix ms @ (if sm_suffix (last ms) = [] then [] else [sm_suffix (last ms)]))"

section \<open>Replacing\<close>

text \<open>\<^verbatim>\<open>match_results::format\<close>: the dollar sequences of a format.\<close>

fun format_match :: "smatch \<Rightarrow> string \<Rightarrow> string" where
  "format_match m [] = []"
| "format_match m (c # cs) =
     (if c \<noteq> CHR ''$'' then c # format_match m cs
      else (case cs of
              [] \<Rightarrow> ''$''
            | d # ds \<Rightarrow>
                if d = CHR ''$'' then CHR ''$'' # format_match m ds
                else if d = CHR ''&'' then sub (sm_subs m) 0 @ format_match m ds
                else if d = CHR 0x60 then sm_prefix m @ format_match m ds
                else if d = CHR 0x27 then sm_suffix m @ format_match m ds
                else if isdigit d then
                  (case ds of
                     [] \<Rightarrow> sub (sm_subs m) (digits_value [d])
                   | e # es \<Rightarrow>
                       if isdigit e then sub (sm_subs m) (digits_value [d, e]) @ format_match m es
                       else sub (sm_subs m) (digits_value [d]) @ format_match m ds)
                else CHR ''$'' # format_match m cs))"

text \<open>\<^verbatim>\<open>regex_replace\<close> with the default flags.\<close>

definition replace_regex :: "string \<Rightarrow> re \<Rightarrow> string \<Rightarrow> string" where
  "replace_regex subject r repl =
     (let ms = smatches r subject
      in concat (map (\<lambda>m. sm_prefix m @ format_match m repl) ms) @ (if ms = [] then subject else sm_suffix (last ms)))"

text \<open>The overload with a callback: the loop appends what stands before a match and what the callback makes of it.\<close>

definition replace_step :: "string \<Rightarrow> (smatch \<Rightarrow> string) \<Rightarrow> smatch \<Rightarrow> string \<times> nat \<Rightarrow> string \<times> nat" where
  "replace_step src callback m =
     (\<lambda>(res, start_pos).
        (let pos = sm_position m;
             res1 = res @ take (pos - start_pos) (drop start_pos src);
             res2 = res1 @ callback m
         in (res2, pos + length (sm_str m))))"

definition replace_callback :: "string \<Rightarrow> re \<Rightarrow> (smatch \<Rightarrow> string) \<Rightarrow> string" where
  "replace_callback src r callback = fst (fold (replace_step src callback) (smatches r src) ([], 0))"

section \<open>What the functions return\<close>

text \<open>The matches of an iterator tile the string: each begins where the prefix that follows the one before ends.\<close>

lemma iterate_nonempty:
  "regex_iterate r e i s = m # ms \<Longrightarrow>
     \<exists>p n cs. next_match r e i s = Some (p, n, cs) \<and> m = smatch_at i s p n cs \<and>
       ms = regex_iterate r (n = 0) (p + n) (drop (p - i + n) s)"
  by (subst (asm) regex_iterate.simps) (auto split: option.splits)

lemma iterate_tiles:
  "regex_iterate r e i s = ms \<Longrightarrow>
     concat (map (\<lambda>m. sm_prefix m @ sm_str m) ms) @ (if ms = [] then s else sm_suffix (last ms)) = s"
proof (induction ms arbitrary: e i s)
  case (Cons m ms)
  obtain p n cs where p: "next_match r e i s = Some (p, n, cs)" "m = smatch_at i s p n cs"
    "regex_iterate r (n = 0) (p + n) (drop (p - i + n) s) = ms"
    using iterate_nonempty [OF Cons.prems] by blast
  have "s = take (p - i) s @ take n (drop (p - i) s) @ drop (p - i + n) s"
    by (metis add.commute append_take_drop_id drop_drop)
  then show ?case using Cons.IH [OF p(3)] p(2) by (auto simp: smatch_at_def)
qed simp

lemma replace_step_apply:
  "replace_step src cb m (res, start) =
     (res @ take (sm_position m - start) (drop start src) @ cb m, sm_position m + length (sm_str m))"
  by (simp add: replace_step_def Let_def)

lemma replace_fold:
  "regex_iterate r e i s = ms \<Longrightarrow> i \<le> length src \<Longrightarrow> drop i src = s \<Longrightarrow>
     fst (fold (replace_step src cb) ms (res, i)) = res @ concat (map (\<lambda>m. sm_prefix m @ cb m) ms)"
proof (induction ms arbitrary: e i s res)
  case (Cons m ms)
  obtain p n cs where p: "next_match r e i s = Some (p, n, cs)" "m = smatch_at i s p n cs"
    "regex_iterate r (n = 0) (p + n) (drop (p - i + n) s) = ms"
    using iterate_nonempty [OF Cons.prems(1)] by blast
  have b: "i \<le> p" "p - i + n \<le> length s" using next_match_bounds [OF p(1)] by blast+
  have len: "length (sm_str m) = n" "sm_position m = p" using b p(2) by (simp_all add: smatch_at_def)
  have "fst (fold (replace_step src cb) ms (res @ sm_prefix m @ cb m, p + n)) =
      (res @ sm_prefix m @ cb m) @ concat (map (\<lambda>m. sm_prefix m @ cb m) ms)"
  proof (rule Cons.IH [OF p(3)])
    have "length s = length src - i" using Cons.prems(3) by auto
    then show "p + n \<le> length src" using b Cons.prems(2) by linarith
    show "drop (p + n) src = drop (p - i + n) s" using b(1) by (simp add: Cons.prems(3) [symmetric])
  qed
  then show ?case using Cons.prems(3) len p(2) by (simp add: replace_step_apply smatch_at_def)
qed simp

text \<open>The overload with a callback returns what \<^verbatim>\<open>regex_replace\<close> would, without what follows the last match.\<close>

lemma replace_callback_loses_tail:
  "replace_regex s r repl =
     replace_callback s r (\<lambda>m. format_match m repl) @ (if smatches r s = [] then s else sm_suffix (last (smatches r s)))"
  using replace_fold [of r False 0 s "smatches r s" s "\<lambda>m. format_match m repl" "[]"]
  by (simp add: replace_regex_def replace_callback_def smatches_def Let_def)

text \<open>Replacing each match by itself gives the string back.\<close>

lemma replace_by_itself: "replace_regex s r ''$&'' = s"
proof -
  have "format_match m ''$&'' = sm_str m" if "m \<in> set (regex_iterate r e i t)" for m e i t
    using that
  proof (induction "regex_iterate r e i t" arbitrary: e i t)
    case (Cons x xs)
    obtain p n cs where "x = smatch_at i t p n cs" "xs = regex_iterate r (n = 0) (p + n) (drop (p - i + n) t)"
      using iterate_nonempty [OF Cons.hyps(2) [symmetric]] by blast
    then show ?case using Cons.hyps(1) Cons.prems Cons.hyps(2) [symmetric] by (auto simp: smatch_at_def sub_def)
  qed simp
  then show ?thesis
    using iterate_tiles [of r False 0 s, OF refl]
    by (simp add: replace_regex_def smatches_def Let_def cong: map_cong)
qed

section \<open>Splitting at an expression that matches no empty string\<close>

lemma search_from_match: "search_from r i s = map_option (\<lambda>(p, n, cs). (p, n)) (search_match r i s)"
  by (induction r i s rule: search_match.induct) (auto split: list.splits)

text \<open>Such a split is the one the matching of methods uses.\<close>

lemma split_regex_from:
  assumes "\<And>i s p n cs. search_match r i s = Some (p, n, cs) \<Longrightarrow> 0 < n"
  shows "regex_split_from r i s =
    (let ms = regex_iterate r False i s
     in if ms = [] then [s] else map sm_prefix ms @ (if sm_suffix (last ms) = [] then [] else [sm_suffix (last ms)]))"
proof (induction "length s" arbitrary: i s rule: less_induct)
  case less
  show ?case
  proof (cases "search_match r i s")
    case None
    then show ?thesis
      by (simp add: regex_split_from.simps [of r i s] search_from_match regex_iterate.simps [of r False i s] next_match_def)
  next
    case (Some m)
    obtain p n cs where m: "m = (p, n, cs)" by (cases m)
    note b = search_match_bounds [OF Some [unfolded m]] assms [OF Some [unfolded m]]
    let ?rest = "drop (p - i + n) s"
    have iter: "regex_iterate r False i s = smatch_at i s p n cs # regex_iterate r False (p + n) ?rest"
      using Some b by (simp add: m regex_iterate.simps [of r False i s] next_match_def)
    have "s \<noteq> []" using b by auto
    then have split: "regex_split_from r i s = take (p - i) s # (if ?rest = [] then [] else regex_split_from r (p + n) ?rest)"
      using Some b by (simp add: m regex_split_from.simps [of r i s] search_from_match Let_def)
    have none: "regex_iterate r False (p + n) [] = []"
      using assms [of "p + n" "[]"] search_match_bounds [of r "p + n" "[]"]
      by (auto simp: regex_iterate.simps [of r False "p + n" "[]"] next_match_def split: option.split)
    show ?thesis
    proof (cases "?rest = []")
      case True
      then show ?thesis using split iter none by (simp add: smatch_at_def)
    next
      case False
      have "length ?rest < length s" using b \<open>s \<noteq> []\<close> by (cases s) auto
      then show ?thesis
        using less.hyps [of ?rest "p + n"] split iter False
        by (auto simp: smatch_at_def Let_def)
    qed
  qed
qed

lemma split_regex_simple:
  "(\<And>i s p n cs. search_match r i s = Some (p, n, cs) \<Longrightarrow> 0 < n) \<Longrightarrow> split_regex s r = regex_split r s"
  using split_regex_from [of r 0 s] by (simp add: split_regex_def smatches_def regex_split_def)

end
