(* ===== verification/SqliteStatement.thy ===== *)
theory SqliteStatement
  imports SqliteSession
begin

text \<open>
  The storage of \<^verbatim>\<open>src/sqlite3_session_manager.cpp\<close> call by call: every method prepares a statement, binds its
  parameters, steps it and finalizes it, and throws from between.  What each call of the SQLite library answers
  is a stream the methods consume; what a statement does to the table is what the SQL text says.  The operations
  of the storage in SqliteSession, where a statement has one outcome, are shown to be what these methods do.
\<close>

section \<open>Calls of the library\<close>

text \<open>\<^verbatim>\<open>sq_calls\<close>: the error message of each further call, or none; \<^verbatim>\<open>sq_open\<close>: the statements that are not
  finalized, which keep \<^verbatim>\<open>sqlite3_close\<close> from closing the database.\<close>

record 'a sqlite =
  sq_world :: "'a world"
  sq_calls :: "string option stream"
  sq_open :: nat

type_synonym ('a, 'r) db = "('a sqlite, 'r) eff"

datatype 'r step_rc = Step_row 'r | Step_done | Step_error string

text \<open>One call, with its return code.\<close>

definition sqlite_call :: "('a, string option) db" where
  "sqlite_call d = (Inr (shd (sq_calls d)), d\<lparr>sq_calls := stl (sq_calls d)\<rparr>)"

text \<open>\<^verbatim>\<open>SQLite3SessionStorageException\<close>.\<close>

definition db_throw :: "string \<Rightarrow> string \<Rightarrow> ('a, 'r) db" where
  "db_throw msg err = io_throw (Runtime_error (msg @ '': '' @ err))"

definition sqlite3_prepare :: "('a, string option) db" where
  "sqlite3_prepare =
     io_bind sqlite_call (\<lambda>rc. case rc of
        None \<Rightarrow> (\<lambda>d. (Inr None, d\<lparr>sq_open := sq_open d + 1\<rparr>))
      | Some err \<Rightarrow> io_return (Some err))"

text \<open>The binds of a condition joined by \<^verbatim>\<open>||\<close>: the first that fails is the last that is made.\<close>

primrec sqlite3_binds :: "nat \<Rightarrow> ('a, string option) db" where
  "sqlite3_binds 0 = io_return None"
| "sqlite3_binds (Suc n) =
     io_bind sqlite_call (\<lambda>rc. case rc of None \<Rightarrow> sqlite3_binds n | Some err \<Rightarrow> io_return (Some err))"

text \<open>A step runs the statement on the table: a row, or the end.\<close>

definition sqlite3_step :: "(session_table \<Rightarrow> 'r option \<times> session_table) \<Rightarrow> ('a, 'r step_rc) db" where
  "sqlite3_step stmt =
     io_bind sqlite_call (\<lambda>rc. case rc of
        Some err \<Rightarrow> io_return (Step_error err)
      | None \<Rightarrow> (\<lambda>d. let (row, t) = stmt (w_sessions (sq_world d))
                 in (Inr (case row of Some r \<Rightarrow> Step_row r | None \<Rightarrow> Step_done),
                     d\<lparr>sq_world := (sq_world d)\<lparr>w_sessions := t\<rparr>\<rparr>)))"

definition sqlite3_finalize :: "('a, unit) db" where
  "sqlite3_finalize d = (Inr (), d\<lparr>sq_open := sq_open d - 1\<rparr>)"

text \<open>\<^verbatim>\<open>std::chrono::system_clock::now\<close> in seconds.\<close>

definition db_now :: "('a, int) db" where
  "db_now d = (case io_now (sq_world d) of (r, w) \<Rightarrow> (r, d\<lparr>sq_world := w\<rparr>))"

section \<open>The methods of the storage\<close>

definition db_writeSessionData :: "string \<Rightarrow> string \<Rightarrow> int \<Rightarrow> ('a, unit) db" where
  "db_writeSessionData sid data session_expiration =
     io_bind sqlite3_prepare (\<lambda>rc. case rc of
        Some err \<Rightarrow> db_throw ''Error executing sql command'' err
      | None \<Rightarrow>
          io_bind db_now (\<lambda>now. let expires = now + session_expiration in
            io_bind (sqlite3_binds 3) (\<lambda>rc. case rc of
               Some err \<Rightarrow> db_throw ''Error executing sql prepared statement bind command'' err
             | None \<Rightarrow>
                 io_bind (sqlite3_step (\<lambda>t. (None :: unit option, dict_set sid (data, expires) t))) (\<lambda>rc. case rc of
                    Step_error err \<Rightarrow> db_throw ''Error writing session data'' err
                  | Step_row row \<Rightarrow> db_throw ''Error writing session data'' ''another row available''
                  | Step_done \<Rightarrow> sqlite3_finalize))))"

definition db_remove :: "string \<Rightarrow> ('a, unit) db" where
  "db_remove sid =
     io_bind sqlite3_prepare (\<lambda>rc. case rc of
        Some err \<Rightarrow> db_throw ''Error executing sql command'' err
      | None \<Rightarrow>
          io_bind (sqlite3_binds 1) (\<lambda>rc. case rc of
             Some err \<Rightarrow> db_throw ''Error executing sql prepared statement bind command'' err
           | None \<Rightarrow>
               io_bind (sqlite3_step (\<lambda>t. (None :: unit option, dict_erase sid t))) (\<lambda>rc. case rc of
                  Step_error err \<Rightarrow> db_throw ''Error writing session data'' err
                | Step_row row \<Rightarrow> db_throw ''Error writing session data'' ''another row available''
                | Step_done \<Rightarrow> sqlite3_finalize)))"

text \<open>The end of the rows is an error here, and its message that of \<^verbatim>\<open>SQLITE_DONE\<close>.\<close>

definition db_readSessionData :: "string \<Rightarrow> ('a, string) db" where
  "db_readSessionData sid =
     io_bind sqlite3_prepare (\<lambda>rc. case rc of
        Some err \<Rightarrow> db_throw ''Error executing sql command'' err
      | None \<Rightarrow>
          io_bind (sqlite3_binds 1) (\<lambda>rc. case rc of
             Some err \<Rightarrow> db_throw ''Error executing sql prepared statement bind command'' err
           | None \<Rightarrow>
               io_bind (sqlite3_step (\<lambda>t. (map_of t sid, t))) (\<lambda>rc. case rc of
                  Step_error err \<Rightarrow> db_throw ''Error reading session data'' err
                | Step_done \<Rightarrow> db_throw ''Error reading session data'' ''no more rows available''
                | Step_row row \<Rightarrow> io_bind sqlite3_finalize (\<lambda>u. io_return (fst row)))))"

definition db_deleteSessions :: "int \<Rightarrow> ('a, unit) db" where
  "db_deleteSessions t0 =
     io_bind sqlite3_prepare (\<lambda>rc. case rc of
        Some err \<Rightarrow> db_throw ''Error executing sql command'' err
      | None \<Rightarrow>
          io_bind (sqlite3_binds 1) (\<lambda>rc. case rc of
             Some err \<Rightarrow> db_throw ''Error executing sql prepared statement bind command'' err
           | None \<Rightarrow>
               io_bind (sqlite3_step (\<lambda>t. (None :: unit option, filter (\<lambda>(sid, data, ts). \<not> ts < t0) t))) (\<lambda>rc. case rc of
                  Step_error err \<Rightarrow> db_throw ''Error deleting session data'' err
                | Step_row row \<Rightarrow> db_throw ''Error deleting session data'' ''another row available''
                | Step_done \<Rightarrow> sqlite3_finalize)))"

text \<open>Two binds in conditions of their own, and the statement is finalized before the answer is looked at.\<close>

definition db_contains :: "string \<Rightarrow> int \<Rightarrow> ('a, bool) db" where
  "db_contains sid session_expiration =
     io_bind sqlite3_prepare (\<lambda>rc. case rc of
        Some err \<Rightarrow> db_throw ''Error executing sql command'' err
      | None \<Rightarrow>
          io_bind (sqlite3_binds 1) (\<lambda>rc. case rc of
             Some err \<Rightarrow> db_throw ''Error executing sql prepared statement bind command'' err
           | None \<Rightarrow>
               io_bind (sqlite3_binds 1) (\<lambda>rc. case rc of
                  Some err \<Rightarrow> db_throw ''Error executing sql prepared statement bind command'' err
                | None \<Rightarrow>
                    io_bind (sqlite3_step (\<lambda>t. (case map_of t sid of
                        None \<Rightarrow> None
                      | Some (data, ts) \<Rightarrow> if session_expiration < ts then Some () else None, t))) (\<lambda>rc.
                      io_bind sqlite3_finalize (\<lambda>u. case rc of
                         Step_done \<Rightarrow> io_return False
                       | Step_row row \<Rightarrow> io_return True
                       | Step_error err \<Rightarrow> db_throw ''Error quering session data'' err)))))"

text \<open>The destructor: \<^verbatim>\<open>sqlite3_close\<close> refuses to close a database with a statement that is not finalized, and its
  answer is not looked at.\<close>

definition db_closes :: "'a sqlite \<Rightarrow> bool" where
  "db_closes d \<longleftrightarrow> sq_open d = 0"

section \<open>What the calls amount to\<close>

text \<open>The outcome of a statement with \<^verbatim>\<open>n\<close> binds, and the world in which that is the next outcome.\<close>

fun binds_outcome :: "nat \<Rightarrow> string option stream \<Rightarrow> sql_outcome" where
  "binds_outcome 0 rcs = (case shd rcs of None \<Rightarrow> Sql_runs | Some err \<Rightarrow> Sql_step_fails err)"
| "binds_outcome (Suc n) rcs = (case shd rcs of None \<Rightarrow> binds_outcome n (stl rcs) | Some err \<Rightarrow> Sql_bind_fails err)"

definition outcome_of :: "nat \<Rightarrow> string option stream \<Rightarrow> sql_outcome" where
  "outcome_of n rcs = (case shd rcs of None \<Rightarrow> binds_outcome n (stl rcs) | Some err \<Rightarrow> Sql_prepare_fails err)"

definition abstract_world :: "nat \<Rightarrow> 'a sqlite \<Rightarrow> 'a world" where
  "abstract_world n d = (sq_world d)\<lparr>w_sql := outcome_of n (sq_calls d) ## w_sql (sq_world d)\<rparr>"

text \<open>A method with \<^verbatim>\<open>n\<close> binds does what the operation of the storage does: the same result, the same world.\<close>

definition implements :: "nat \<Rightarrow> ('a, 'r) db \<Rightarrow> ('a, 'r) io \<Rightarrow> 'a sqlite \<Rightarrow> bool" where
  "implements n m abstract d \<longleftrightarrow> (case m d of (r, d') \<Rightarrow> abstract (abstract_world n d) = (r, sq_world d'))"

text \<open>The statements a method leaves open.\<close>

definition left_open :: "('a, 'r) db \<Rightarrow> 'a sqlite \<Rightarrow> nat" where
  "left_open m d = sq_open (snd (m d)) - sq_open d"

definition db_throws :: "('a, 'r) db \<Rightarrow> 'a sqlite \<Rightarrow> bool" where
  "db_throws m d \<longleftrightarrow> isl (fst (m d))"

text \<open>A method that throws after its statement was prepared leaves it open; otherwise nothing is left.\<close>

definition leaks_when_throwing :: "('a, 'r) db \<Rightarrow> 'a sqlite \<Rightarrow> bool" where
  "leaks_when_throwing m d \<longleftrightarrow> left_open m d = (if shd (sq_calls d) = None \<and> db_throws m d then 1 else 0)"

section \<open>The methods implement the operations\<close>

lemmas sqlite_calls = sqlite3_prepare_def sqlite3_step_def sqlite3_finalize_def sqlite_call_def db_throw_def db_now_def
lemmas sqlite_views =
  implements_def leaks_when_throwing_def left_open_def db_throws_def abstract_world_def outcome_of_def io_sql_def io_now_def
lemmas sqlite_defs = sqlite_calls sqlite_views

lemma io_bind_unfold: "io_bind m k d = (case m d of (Inl e, d') \<Rightarrow> (Inl e, d') | (Inr x, d') \<Rightarrow> k x d')"
  by (simp add: io_bind_def)

lemma write_statement:
  "implements 3 (db_writeSessionData sid data e) (storage_write sid data e) d \<and>
   leaks_when_throwing (db_writeSessionData sid data e) d"
  by (auto simp: db_writeSessionData_def storage_write_def sqlite_defs io_bind_unfold numeral_3_eq_3 Let_def
      split: option.splits)

lemma remove_statement:
  "implements 1 (db_remove sid) (storage_remove sid) d \<and> leaks_when_throwing (db_remove sid) d"
  by (auto simp: db_remove_def storage_remove_def sqlite_defs io_bind_unfold Let_def split: option.splits)

lemma read_statement:
  "implements 1 (db_readSessionData sid) (storage_read sid) d \<and> leaks_when_throwing (db_readSessionData sid) d"
  by (auto simp: db_readSessionData_def storage_read_def sqlite_defs io_bind_unfold Let_def split: option.splits)

lemma delete_statement:
  "implements 1 (db_deleteSessions t0) (storage_deleteSessions t0) d \<and> leaks_when_throwing (db_deleteSessions t0) d"
  by (auto simp: db_deleteSessions_def storage_deleteSessions_def sqlite_defs io_bind_unfold Let_def split: option.splits)

lemma contains_statement:
  "implements 2 (db_contains sid now) (storage_contains sid now) d \<and>
   left_open (db_contains sid now) d = (case outcome_of 2 (sq_calls d) of Sql_bind_fails err \<Rightarrow> 1 | _ \<Rightarrow> 0)"
  by (auto simp: db_contains_def storage_contains_def sqlite_defs io_bind_unfold numeral_2_eq_2 Let_def
      split: option.splits)

text \<open>Asking for a session that is not there is enough for the database not to be closed.\<close>

lemma absent_session_keeps_open:
  assumes "map_of (w_sessions (sq_world d)) sid = None" "stake 3 (sq_calls d) = [None, None, None]"
  shows "\<not> db_closes (snd (db_readSessionData sid d))"
  using assms
  by (simp add: db_readSessionData_def sqlite_calls io_bind_unfold db_closes_def numeral_3_eq_3)


end
