(* ===== verification/Spec2Isabelle.thy ===== *)
theory Spec2Isabelle
  imports Util Dict Base64 Url Route Request RequestParser FormData Multipart MimeTypes
    Response World Crypto Middleware Application Session SqliteSession Csrf Auth
    LocaleResolver Filters Logger IoPool Server ResponseParser HttpClient Mime Mailer
    XmlCursor XmlPull XmlEvents Gpx ConnectionPool StringUtil
    UtilRegex SqliteStatement HttpUrl
begin

text \<open>
  \<^bold>\<open>wsrv\<close>, an HTTP server library in C++, with its client, its mailer and its utilities.  This library of
  theories models the sources under \<^verbatim>\<open>src/\<close> and \<^verbatim>\<open>include/wsrv/\<close> of the repository, and the utilities of
  its example application, by definitions that compute, and proves what makes each component correct, or
  where it is not.

  \<^bold>\<open>How the program is put together.\<close>  \<^verbatim>\<open>HttpServer\<close> accepts connections on a pool of I/O services.  A
  connection reads blocks, feeds them to the request parser, and when a request is complete hands it to the
  application, whose response it writes before it is closed.  The application looks the request up in
  its routes and runs the middlewares of the route (sessions, CSRF, authentication, locale, logging,
  compression) around the handler.  Beside it stand the client, which reads responses with a parser of
  its own, and the mailer with its MIME parts.

  \<^bold>\<open>Foundations.\<close>
  Prelude holds the faults an expression can end in (\<^verbatim>\<open>Undefined\<close> for undefined behaviour,
  \<^verbatim>\<open>Aborted\<close> for a failed assert, one constructor per kind of exception) and the sum type that carries
  them, bytes, searching and number conversion.
  Dict models \<^verbatim>\<open>std::map\<close> by key-sorted association lists; the locale \<^verbatim>\<open>dictionary\<close> states what its
  clients rely on and is interpreted by these lists.
  Istream models \<^verbatim>\<open>std::istream\<close>, Regex the part of \<^verbatim>\<open>std::regex\<close> the program uses, from the text of a
  pattern to the captures of its first match.
  World is the state outside the program (clock, random pool, SQLite and its outcomes, log, application
  state) with the effects on it; the locale \<^verbatim>\<open>effect_relation\<close> carries what every composition of effects
  leaves alone, and is interpreted for the world and for a mail conversation.

  \<^bold>\<open>Strings and addresses.\<close>
  Util (\<^verbatim>\<open>util.cpp\<close>): trimming, splitting, joining, replacing, URL encoding; decoding inverts encoding.
  UtilRegex: the overloads of splitting and replacing that take an expression.
  Base64 (\<^verbatim>\<open>base64.cpp\<close>): equal to RFC 4648 although the accumulator overflows, on 32-bit words.
  Url (\<^verbatim>\<open>url.cpp\<close>): a printed URL parses back, normal paths are canonical.
  Route (\<^verbatim>\<open>route.cpp\<close>): the pattern parser, its regex, matching against an element-wise specification, reverse
  routing as its inverse.

  \<^bold>\<open>Requests and responses.\<close>
  Request, RequestParser, FormData and Multipart (\<^verbatim>\<open>request.cpp\<close>, \<^verbatim>\<open>request_parser.cpp\<close>): the request
  object; the callbacks and what they collect; the request line and cookies; form bodies, which always
  return and are taken apart into their fields and files.  HttpUrl (\<^verbatim>\<open>http_parser_parse_url\<close> of
  \<^verbatim>\<open>http_parser.c\<close>): the fields of a target, which lie in it, and when the host is read uninitialised.
  MimeTypes and Response (\<^verbatim>\<open>well_known_mime_types.hpp\<close>, \<^verbatim>\<open>response.cpp\<close>, \<^verbatim>\<open>filesystem.cpp\<close>): replies, files and
  their confinement, compression, and the bytes on the wire.

  \<^bold>\<open>The application.\<close>
  Middleware (\<^verbatim>\<open>middleware.hpp\<close>): a middleware is a program that may call next, the context runs it; for
  those that call it at most once the pipeline is shown to wrap.
  Application (\<^verbatim>\<open>application.cpp\<close>, \<^verbatim>\<open>blueprint.hpp\<close>): registration and dispatch.
  Crypto, Session, SqliteSession (\<^verbatim>\<open>crypto.cpp\<close>, \<^verbatim>\<open>session.cpp\<close>, \<^verbatim>\<open>session_manager.cpp\<close>,
  \<^verbatim>\<open>sqlite3_session_manager.cpp\<close>): hashes and tokens; sessions over the locale \<^verbatim>\<open>session_store\<close>, the
  contract of a manager, which the SQLite manager is shown to meet.  SqliteStatement: the storage once more, call
  by call of the SQLite library, refines those statements, and where it leaves one open.
  Csrf, Auth, LocaleResolver, Filters (\<^verbatim>\<open>middleware/\<close>, \<^verbatim>\<open>auth/\<close>): the middlewares and the login controllers.

  \<^bold>\<open>The running server.\<close>
  IoPool (\<^verbatim>\<open>io_service_pool.cpp\<close>), Server (\<^verbatim>\<open>server_impl.cpp\<close>, \<^verbatim>\<open>connection_manager.cpp\<close>,
  \<^verbatim>\<open>detail/connection.hpp\<close>): completion handlers as labelled steps, invariants of every reachable
  state by rule induction, the phases of a connection as a partial order.
  Logger (\<^verbatim>\<open>util/logger.cpp\<close>): rotation on a directory of names.

  \<^bold>\<open>Client and mailer.\<close>
  ResponseParser and HttpClient (\<^verbatim>\<open>response_parser.cpp\<close>, \<^verbatim>\<open>http_client.cpp\<close>, \<^verbatim>\<open>http_client_request.cpp\<close>): the
  response parser collects as the request parser does, and the client gets back the response a server
  wrote.  Mime and Mailer (\<^verbatim>\<open>mime.cpp\<close>, \<^verbatim>\<open>mailer.cpp\<close>, \<^verbatim>\<open>smtp_socket.hpp\<close>): parts and how they are read back,
  submission as a dialogue, what is said before TLS.

  \<^bold>\<open>The XML parser of the example application.\<close>
  XmlCursor (\<^verbatim>\<open>app/util/detail/read_ahead_stream_adapter.hpp\<close>): the cursor with its buffer of characters put
  back, and the locale \<^verbatim>\<open>effect_contract\<close> of operations that read no further than there is and keep an
  invariant, interpreted for the cursor and for the parser.
  XmlPull (\<^verbatim>\<open>app/util/xml_pull_parser.cpp\<close>): names, references, attributes, tags, the other markup, tokens and
  events; every call returns and is free of undefined behaviour.
  XmlEvents: what the parser reads in front of a given text, up to the events of a printed tree.

  \<^bold>\<open>The rest of the example application.\<close>
  Gpx (\<^verbatim>\<open>app/util/gpx.hpp\<close>): the GPX reader as a loop over those events; documents are read back.
  ConnectionPool (\<^verbatim>\<open>app/connection_pool.hpp\<close>): the operations as steps of threads under the mutex; no
  connection is shared, no wake-up is lost.  StringUtil (\<^verbatim>\<open>app/util/string_util.cpp\<close>): random names, and the
  type of an image against a table of signatures.

  \<^bold>\<open>Parameters.\<close>  Code that is not the repository's own is an argument of the definitions: the HTTP parser
  library (by the callbacks it makes, the bytes it uses and its errors), CryptoPP, the token library, gzip, the
  file system, name resolution and sockets, the user provider, the answers of SQLite, the C functions on
  times, random engines and database connections.  Hypotheses on them name documented behaviour, and each
  property with a hypothesis has a witness at concrete functions.

  \<^bold>\<open>Loops and bounds.\<close>  Loops that could fail to end are partial functions, and that they return is proved
  (form data, the replace loops; \<^verbatim>\<open>replaceAll\<close> with an empty search string does not return).  A repetition of
  the matcher is bounded by the characters left, since a round that consumes none ends it; the calls of
  next are bounded by the middlewares left, since each advances the index; the search for a session id
  by the four tries of the code.  All other recursion is structural or has a measure.  \<^verbatim>\<open>char\<close> is signed,
  \<^verbatim>\<open>int\<close> has 32 bits and \<^verbatim>\<open>size_t\<close> is not bounded.

  \<^bold>\<open>What the properties show that is not as meant.\<close>  A nested blueprint loses its parent's prefix; a second
  call of next skips middlewares; the locale check of the route is inverted; a login keeps the user a
  session already names; form values are encoded instead of decoded; the reply to HEAD has no end of its
  headers; a connection can survive a stop; the client accepts truncated replies; the mailer does
  not stuff dots; the XML parser refuses comments and cuts long character references; the GPX reader depends on
  an event type nobody has set; a target \<^verbatim>\<open>http://?\<close> makes the URL parser read uninitialised memory; the storage
  leaves statements open.

  \<^bold>\<open>Not modelled.\<close>  The vendored asio and, its URL parser excepted, \<^verbatim>\<open>http_parser.c\<close>; the zlib stream adapter; \<^verbatim>\<open>client_async.cpp\<close>, which is
  in no build and includes a header that does not exist; the declarations without implementation
  (\<^verbatim>\<open>fs_session_manager.hpp\<close>, \<^verbatim>\<open>request_handler_factory.hpp\<close>); the forwarding class \<^verbatim>\<open>HttpServer\<close>; the page
  handlers and the start-up of the example application under \<^verbatim>\<open>app/\<close>; streams that fail without meeting their
  end under the XML parser.
\<close>

section \<open>From the bytes of a request to the reply\<close>

text \<open>The parser library reports one request in a block: its target, the pieces of its headers, no body, and its
  end, where the callback pauses it.\<close>

definition reports_request ::
  "'p http_parser_lib \<Rightarrow> string \<Rightarrow> string \<Rightarrow> (string list \<times> string list) list \<Rightarrow> string \<Rightarrow> bool" where
  "reports_request lib buf target hs meth \<longleftrightarrow>
     (case hp_execute lib (hp_init lib) buf of
        (evs, used, q) \<Rightarrow>
          evs = [On_message_begin, On_url target] @ header_events hs @ [On_headers_complete 1 1, On_message_complete] \<and>
          used \<le> length buf \<and> hp_errno lib q = HPE_PAUSED \<and> hp_method_str lib (hp_pause lib False q) = meth)"

lemma request_parsed:
  assumes "reports_request lib buf target hs meth" "pieces_of d hs" "dict_ok d"
  shows "\<exists>rp. rp_parse lib buf (RequestParser lib g) = (HTTP_PARSER_OK, rp) \<and> rp_headers rp = d \<and> rp_url rp = target \<and>
    rp_body rp = [] \<and> rp_protocol rp = ''HTTP/1.1'' \<and> hp_method_str lib (rp_parser rp) = meth"
proof -
  obtain used q where ex: "hp_execute lib (hp_init lib) buf =
      ([On_message_begin, On_url target] @ header_events hs @ [On_headers_complete 1 1, On_message_complete], used, q)"
    "hp_errno lib q = HPE_PAUSED" "hp_method_str lib (hp_pause lib False q) = meth"
    using assms(1) by (auto simp: reports_request_def split: prod.splits)
  let ?rp = "(RequestParser lib g)\<lparr>rp_complete := False, rp_url := target\<rparr>"
  have rp: "rp_field ?rp = []" "rp_value ?rp = []" "rp_headers ?rp = []" "rp_body ?rp = []" "rp_parser ?rp = hp_init lib"
    by (simp_all add: RequestParser_def rp_reset_def)
  have "flush_header ?rp = ?rp" using rp(2) by (simp add: flush_header_def)
  then have hs: "flush_header (handle_events (header_events hs) ?rp) = ?rp\<lparr>rp_headers := d\<rparr>"
    using header_events_collect [of hs ?rp] assms(2) rp fold_set_self [OF assms(3)]
    by (simp add: pieces_of_def store_headers)
  have digits: "nat_digits (Suc 0) = ''1''" by code_simp
  have "handle_events ([On_message_begin, On_url target] @ header_events hs @ [On_headers_complete 1 1, On_message_complete])
      (RequestParser lib g) = ?rp\<lparr>rp_headers := d, rp_protocol := ''HTTP/1.1'', rp_complete := True\<rparr>"
    unfolding handle_events_append using hs
    by (simp add: handle_events_def on_message_begin_def on_url_def on_headers_complete_def on_message_complete_def digits)
  then show ?thesis
    using ex rp(4,5) by (simp add: rp_parse_def rp_execute_def Let_def)
qed

text \<open>The request the handler gets for a target whose path and query decode.\<close>

definition request_of :: "string \<Rightarrow> string \<Rightarrow> string \<Rightarrow> string \<Rightarrow> dict \<Rightarrow> request" where
  "request_of addr meth path query d = empty_request
     \<lparr>rq_server := dict_emplace ''REMOTE_ADDR'' addr (dict_set ''REQUEST_METHOD'' meth d), rq_method := meth,
      rq_protocol := ''HTTP/1.1'', rq_path := normalize_path path, rq_query := query,
      rq_get := (if query \<noteq> [] then fold store_arg (split query ''&'') [] else [])\<rparr>"

definition path_elements :: "string \<Rightarrow> string list" where
  "path_elements path = normalize_segments (split path ''/'') []"

lemma butlast_slashed: "ps \<noteq> [] \<Longrightarrow> butlast (slashed ps) = join ps ''/''"
proof (induction ps rule: rev_induct)
  case (snoc p ps)
  show ?case
  proof (cases "ps = []")
    case False
    then have "slashed (ps @ [p]) = join ps ''/'' @ ''/'' @ p @ ''/''"
      using snoc.IH append_butlast_last_id [of "slashed ps"] last_slashed [of ps]
      by (simp add: slashed_def)
    moreover have "join (ps @ [p]) ''/'' = join ps ''/'' @ ''/'' @ p"
      using False by (cases ps) (simp_all add: join_Cons)
    ultimately show ?thesis by (simp add: butlast_append)
  qed (simp add: slashed_def)
qed simp

lemma normalized_names: "names_path (normalize_path path) (path_elements path)"
proof (cases "path_elements path = []")
  case True
  then show ?thesis by (simp add: names_path_def path_elements_def normalize_path_def path_of_def slashed_def)
next
  case False
  have elems: "\<forall>u \<in> set (path_elements path). u \<noteq> [] \<and> CHR ''/'' \<notin> set u"
    using normalize_segments_split [of _ path] by (auto simp: path_elements_def)
  have "normalize_path path = ''/'' @ join (path_elements path) ''/''"
    by (auto simp: path_elements_def normalize_path_def Let_def)
  also have "\<dots> = butlast (path_of (path_elements path))"
    using False butlast_slashed [OF False] slashed_nonempty [of "path_elements path"] by (simp add: path_of_def)
  finally show ?thesis using False elems by (auto simp: names_path_def)
qed

lemma request_decoded:
  assumes "rp_headers rp = d" "dict_ok d" "rp_url rp = target" "rp_body rp = []" "rp_protocol rp = ''HTTP/1.1''"
    and "hp_method_str lib (rp_parser rp) = meth" "meth \<noteq> ''POST''" "target = origin_target p q" "origin_ok p q"
    and "url_decode (CHR ''/'' # p) = Inr path" "url_decode (origin_query q) = Inr query" "map_of d ''Cookie'' = None"
  shows "\<exists>req. decode_message lib rp empty_request = Some (Inr (True, req)) \<and>
    req\<lparr>rq_server := dict_emplace ''REMOTE_ADDR'' addr (rq_server req)\<rparr> = request_of addr meth path query d"
proof -
  have "fold (\<lambda>(k, v). dict_emplace k v) d (rq_server empty_request) = d"
    using fold_emplace_self [OF assms(2)] by (simp add: empty_request_def)
  moreover have "map_of (dict_set ''REQUEST_METHOD'' meth d) ''Cookie'' = None"
    using assms(12) by (simp add: map_of_dict_set)
  ultimately show ?thesis
    using assms by (simp add: decode_message_def origin_decoded parse_cookies_def request_of_def Let_def)
      (simp add: empty_request_def)
qed

section \<open>Properties\<close>


definition demo_lib :: "unit http_parser_lib" where
  "demo_lib = \<lparr>hp_init = (),
     hp_execute = \<lambda>q s. ([On_message_begin, On_url ''/user/./ann''] @ header_events [([''Ho'', ''st''], [''h''])] @
       [On_headers_complete 1 1, On_message_complete], length s, q),
     hp_errno = \<lambda>q. HPE_PAUSED, hp_pause = \<lambda>b q. q, hp_method_str = \<lambda>q. ''GET''\<rparr>"


end
